(* ===== verification/Go_Prelude.thy ===== *)
theory Go_Prelude
  imports Main "HOL-Library.Word"
begin

text \<open>
  Shared vocabulary of the development: the run-time panics of Go as values, the result type of
  code that may panic, the few pieces of Go's run-time library that several packages use (slice
  indexing and assignment, \<^verbatim>\<open>copy\<close>, the conversion from \<^verbatim>\<open>int\<close> to \<^verbatim>\<open>uint\<close>, control flow
  of a \<^verbatim>\<open>for\<close> loop), and the generic lemmas on lists, results and words that the component
  theories use.  A Go \<^verbatim>\<open>int\<close> that only counts or indexes elements of a slice is an \<open>int\<close> or
  a \<open>nat\<close>, because its value is bounded by the memory of the machine; an integer whose
  wrap-around can be observed is a \<open>word\<close>.
\<close>

section \<open>Panics and results\<close>

datatype go_panic =
    NilDereference
  | IndexOutOfRange
  | TypeAssertion
  | SliceBounds
  | Fatal string
  | ExplicitPanic string

type_synonym 'a result = "go_panic + 'a"

text \<open>An \<^verbatim>\<open>interface{}\<close> value: \<open>None\<close> is the \<^verbatim>\<open>nil\<close> interface.\<close>

type_synonym 'v iface = "'v option"

text \<open>Sequencing: a panic aborts what follows.\<close>

definition bindE :: "'a result \<Rightarrow> ('a \<Rightarrow> 'b result) \<Rightarrow> 'b result" where
  "bindE r f = (case r of Inl e \<Rightarrow> Inl e | Inr x \<Rightarrow> f x)"

lemma bindE_simps [simp]:
  "bindE (Inl e) f = Inl e"
  "bindE (Inr x) f = f x"
  by (simp_all add: bindE_def)

lemma bindE_Inr_conv: "bindE r f = Inr y \<longleftrightarrow> (\<exists>x. r = Inr x \<and> f x = Inr y)"
  by (cases r) auto

lemma bindE_InrE:
  assumes "bindE r f = Inr y"
  obtains x where "r = Inr x" "f x = Inr y"
  using assms by (auto simp: bindE_Inr_conv)

text \<open>A \<^verbatim>\<open>for\<close> loop over the elements of a slice whose body may panic.\<close>

fun foldE :: "('x \<Rightarrow> 'a \<Rightarrow> 'a result) \<Rightarrow> 'x list \<Rightarrow> 'a \<Rightarrow> 'a result" where
  "foldE f [] a = Inr a"
| "foldE f (x # xs) a = bindE (f x a) (foldE f xs)"

lemma foldE_append: "foldE f (xs @ ys) a = bindE (foldE f xs a) (foldE f ys)"
  by (induction xs arbitrary: a) (auto simp: bindE_def split: sum.splits)

lemma foldE_invariant:
  assumes "P a" "\<And>x a. x \<in> set xs \<Longrightarrow> P a \<Longrightarrow> \<exists>a'. f x a = Inr a' \<and> P a'"
  shows "\<exists>a'. foldE f xs a = Inr a' \<and> P a'"
  using assms by (induction xs arbitrary: a) fastforce+

lemma foldE_total: "(\<And>x a. x \<in> set xs \<Longrightarrow> f x a = Inr (g x a)) \<Longrightarrow> foldE f xs a = Inr (fold g xs a)"
  by (induction xs arbitrary: a) auto

lemma foldE_body_cong: "(\<And>x. x \<in> set xs \<Longrightarrow> f x = g x) \<Longrightarrow> foldE f xs a = foldE g xs a"
proof (induction xs arbitrary: a)
  case (Cons x xs)
  then have "foldE f xs = foldE g xs" by (intro ext) simp
  then show ?case using Cons.prems by simp
qed simp

lemma foldE_map: "foldE f (map g xs) a = foldE (\<lambda>x. f (g x)) xs a"
proof (induction xs arbitrary: a)
  case (Cons x xs)
  then have "foldE f (map g xs) = foldE (\<lambda>x. f (g x)) xs" by (intro ext)
  then show ?case by simp
qed simp

text \<open>The outcome of one iteration of a loop: go on, leave the loop with a result, or panic.\<close>

datatype ('st, 'r) control = Next 'st | Done 'r | Fail go_panic

section \<open>Slices\<close>

definition slice_get :: "'a list \<Rightarrow> nat \<Rightarrow> 'a result" where
  "slice_get xs i = (if i < length xs then Inr (xs ! i) else Inl IndexOutOfRange)"

definition slice_set :: "'a list \<Rightarrow> nat \<Rightarrow> 'a \<Rightarrow> 'a list result" where
  "slice_set xs i v = (if i < length xs then Inr (xs[i := v]) else Inl IndexOutOfRange)"

text \<open>Indexing by a signed \<^verbatim>\<open>int\<close>: a negative index panics as one that is too large does.\<close>

definition int_get :: "'a list \<Rightarrow> int \<Rightarrow> 'a result" where
  "int_get xs i = (if i < 0 then Inl IndexOutOfRange else slice_get xs (nat i))"

definition int_set :: "'a list \<Rightarrow> int \<Rightarrow> 'a \<Rightarrow> 'a list result" where
  "int_set xs i v = (if i < 0 then Inl IndexOutOfRange else slice_set xs (nat i) v)"

lemma slice_get_simps [simp]:
  "i < length xs \<Longrightarrow> slice_get xs i = Inr (xs ! i)"
  "\<not> i < length xs \<Longrightarrow> slice_get xs i = Inl IndexOutOfRange"
  by (simp_all add: slice_get_def)

lemma slice_set_simps [simp]:
  "i < length xs \<Longrightarrow> slice_set xs i v = Inr (xs[i := v])"
  "\<not> i < length xs \<Longrightarrow> slice_set xs i v = Inl IndexOutOfRange"
  by (simp_all add: slice_set_def)

lemma int_get_nat [simp]: "0 \<le> i \<Longrightarrow> int_get xs i = slice_get xs (nat i)"
  by (simp add: int_get_def)

lemma int_set_nat [simp]: "0 \<le> i \<Longrightarrow> int_set xs i v = slice_set xs (nat i) v"
  by (simp add: int_set_def)

text \<open>The built-in \<^verbatim>\<open>copy(dst, src)\<close>: the first \<open>min\<close> elements of \<^verbatim>\<open>dst\<close> are overwritten.\<close>

definition go_copy :: "'a list \<Rightarrow> 'a list \<Rightarrow> 'a list" where
  "go_copy dst src = take (length dst) src @ drop (length src) dst"

lemma go_copy_same_length [simp]: "length dst = length src \<Longrightarrow> go_copy dst src = src"
  by (simp add: go_copy_def)

lemma length_go_copy [simp]: "length (go_copy dst src) = length dst"
  by (simp add: go_copy_def)

section \<open>Integers\<close>

text \<open>The conversion \<^verbatim>\<open>uint(i)\<close> of a 64-bit \<^verbatim>\<open>int\<close>.\<close>

definition go_uint :: "int \<Rightarrow> nat" where
  "go_uint i = nat (i mod 2 ^ 64)"

lemma go_uint_small [simp]: "0 \<le> i \<Longrightarrow> i < 2 ^ 64 \<Longrightarrow> go_uint i = nat i"
  by (simp add: go_uint_def)

text \<open>Go's \<^verbatim>\<open>%\<close> truncates towards zero.\<close>

definition go_rem :: "int \<Rightarrow> int \<Rightarrow> int" where
  "go_rem a b = sgn a * (\<bar>a\<bar> mod \<bar>b\<bar>)"

lemma go_rem_nonneg [simp]: "0 \<le> a \<Longrightarrow> 0 < b \<Longrightarrow> go_rem a b = a mod b"
  by (cases "a = 0") (simp_all add: go_rem_def)

section \<open>Lists\<close>

text \<open>The address or element at the front of a list, \<^verbatim>\<open>nil\<close> when there is none.\<close>

fun head_opt :: "'a list \<Rightarrow> 'a option" where
  "head_opt [] = None"
| "head_opt (x # xs) = Some x"

lemma head_opt_append [simp]:
  "head_opt (xs @ ys) = (if xs = [] then head_opt ys else Some (hd xs))"
  by (cases xs) auto

lemma head_opt_None [simp]: "head_opt xs = None \<longleftrightarrow> xs = []"
  by (cases xs) auto

lemma remove1_middle: "x \<notin> set xs \<Longrightarrow> remove1 x (xs @ x # ys) = xs @ ys"
  by (induction xs) auto

lemma set_tlD: "x \<in> set (tl xs) \<Longrightarrow> x \<in> set xs"
  by (cases xs) auto

lemma distinct_map_filter_nth:
  assumes "distinct (map f (filter P xs))"
    and "p < length xs" "q < length xs" "P (xs ! p)" "P (xs ! q)" "f (xs ! p) = f (xs ! q)"
  shows "p = q"
  using assms
proof (induction xs arbitrary: p q)
  case (Cons x xs)
  have new: "f (xs ! k) \<noteq> f x" if "k < length xs" "P (xs ! k)" "P x" for k
    using Cons.prems(1) that by (auto simp: image_iff dest: nth_mem)
  have d: "distinct (map f (filter P xs))" using Cons.prems(1) by (auto split: if_splits)
  show ?case
  proof (cases p; cases q)
    fix p' q' assume "p = Suc p'" "q = Suc q'"
    then show "p = q" using Cons.IH [OF d, of p' q'] Cons.prems by auto
  qed (use Cons.prems new in \<open>force+\<close>)
qed simp

lemma find_unique_nth:
  assumes "q < length xs" "P (xs ! q)" "\<And>p. p < length xs \<Longrightarrow> P (xs ! p) \<Longrightarrow> p = q"
  shows "find P xs = Some (xs ! q)"
  unfolding find_Some_iff
proof (intro exI [of _ q] conjI allI impI)
  fix j assume "j < q"
  then show "\<not> P (xs ! j)" using assms(1) assms(3) [of j] by auto
qed (use assms(1,2) in auto)

lemma last_append_ne [simp]: "ys \<noteq> [] \<Longrightarrow> last (xs @ ys) = last ys"
  by simp

lemma length_filter_update:
  "i < length xs \<Longrightarrow>
   length (filter P (xs[i := x])) + (if P (xs ! i) then 1 else 0) =
   length (filter P xs) + (if P x then 1 else 0)"
proof (induction xs arbitrary: i)
  case (Cons y ys)
  then show ?case by (cases i) (fastforce simp del: length_filter_conv_card)+
qed simp

lemma result_fstD:
  assumes "map_option (map_sum id fst) x = Some (Inr a)"
  shows "\<exists>b. x = Some (Inr (a, b))"
proof -
  obtain z where z: "x = Some z" "map_sum id fst z = Inr a" using assms by auto
  then show ?thesis by (cases z) auto
qed

section \<open>Decimal numerals\<close>

text \<open>\<^verbatim>\<open>strconv.Itoa\<close> of a number that is not negative.\<close>

fun itoa :: "nat \<Rightarrow> string" where
  "itoa n = (if n < 10 then [char_of (48 + n)] else itoa (n div 10) @ [char_of (48 + n mod 10)])"

declare itoa.simps [simp del]

end
