(* ===== verification/Bitset.thy ===== *)
theory Bitset
  imports Go_Prelude
begin

text \<open>
  \<^verbatim>\<open>porcupine/bitset.go\<close>: a set of small natural numbers packed into 64-bit chunks.  The checker
  keeps the set of operations it has linearized in one.  The theory states what the checker relies
  on as the locale \<open>id_set\<close> and shows that the packed representation provides it; the abstraction
  function \<open>bits_of\<close> reads a bit set as a set of positions.
\<close>

unbundle bit_operations_syntax

type_synonym bitset = "64 word list"

section \<open>Operations\<close>

definition newBitset :: "nat \<Rightarrow> bitset" where
  "newBitset bits =
     (let extra = (if bits mod 64 \<noteq> 0 then 1 else 0);
          chunks = bits div 64 + extra
      in replicate chunks 0)"

definition bitset_clone :: "bitset \<Rightarrow> bitset" where
  "bitset_clone b = (let dataCopy = replicate (length b) 0 in go_copy dataCopy b)"

definition bitsetIndex :: "nat \<Rightarrow> nat \<times> nat" where
  "bitsetIndex pos = (pos div 64, pos mod 64)"

definition bitset_set :: "bitset \<Rightarrow> nat \<Rightarrow> bitset result" where
  "bitset_set b pos =
     (let (major, minor) = bitsetIndex pos
      in bindE (slice_get b major) (\<lambda>w. slice_set b major (w OR push_bit minor 1)))"

definition bitset_clear :: "bitset \<Rightarrow> nat \<Rightarrow> bitset result" where
  "bitset_clear b pos =
     (let (major, minor) = bitsetIndex pos
      in bindE (slice_get b major) (\<lambda>w. slice_set b major (w AND NOT (push_bit minor 1))))"

definition bitset_get :: "bitset \<Rightarrow> nat \<Rightarrow> bool result" where
  "bitset_get b pos =
     (let (major, minor) = bitsetIndex pos
      in bindE (slice_get b major) (\<lambda>w. Inr (w AND push_bit minor 1 \<noteq> 0)))"

text \<open>\<^verbatim>\<open>bits.OnesCount64\<close> of the standard library.\<close>

definition OnesCount64 :: "64 word \<Rightarrow> nat" where
  "OnesCount64 w = length (filter (bit w) [0..<64])"

definition bitset_popcnt :: "bitset \<Rightarrow> 64 word" where
  "bitset_popcnt b = of_nat (fold (\<lambda>v total. total + OnesCount64 v) b 0)"

definition bitset_hash :: "bitset \<Rightarrow> 64 word" where
  "bitset_hash b = fold (\<lambda>v hash. hash XOR v) b (bitset_popcnt b)"

fun bitset_equals_loop :: "bitset \<Rightarrow> bitset \<Rightarrow> bool" where
  "bitset_equals_loop (v # b) (w # b2) = (if v \<noteq> w then False else bitset_equals_loop b b2)"
| "bitset_equals_loop b b2 = True"

definition bitset_equals :: "bitset \<Rightarrow> bitset \<Rightarrow> bool" where
  "bitset_equals b b2 = (if length b \<noteq> length b2 then False else bitset_equals_loop b b2)"

section \<open>Reading a bit set as a set\<close>

definition bits_of :: "bitset \<Rightarrow> nat set" where
  "bits_of b = {p. p div 64 < length b \<and> bit (b ! (p div 64)) (p mod 64)}"

definition bit_capacity :: "bitset \<Rightarrow> nat" where
  "bit_capacity b = 64 * length b"

lemma bit_single [simp]: "bit (2 ^ n :: 64 word) k \<longleftrightarrow> k = n \<and> n < 64"
  by (auto simp: bit_exp_iff)

lemma single_AND_zero:
  assumes "n < 64"
  shows "(w :: 64 word) AND 2 ^ n \<noteq> 0 \<longleftrightarrow> bit w n"
proof -
  have b: "bit (w AND 2 ^ n) k \<longleftrightarrow> bit w n \<and> k = n" for k
    using assms by (auto simp: bit_and_iff)
  show ?thesis
  proof
    assume "w AND 2 ^ n \<noteq> 0"
    then obtain k where "bit (w AND 2 ^ n) k" using bit_word_eqI [of "w AND 2 ^ n" 0] by auto
    then show "bit w n" using b by blast
  next
    assume "bit w n"
    then have "bit (w AND 2 ^ n) n" using b by blast
    then show "w AND 2 ^ n \<noteq> 0" by auto
  qed
qed

lemma in_capacity [simp]: "p < bit_capacity b \<longleftrightarrow> p div 64 < length b"
  by (auto simp: bit_capacity_def)

lemma bits_of_bounded: "p \<in> bits_of b \<Longrightarrow> p < bit_capacity b"
  by (simp add: bits_of_def)

lemma div_mod_64_eq: "p div 64 = q div 64 \<Longrightarrow> p mod 64 = q mod (64 :: nat) \<Longrightarrow> p = q"
  by (metis div_mult_mod_eq)

lemma newBitset_capacity: "n \<le> bit_capacity (newBitset n)"
  by (auto simp: bit_capacity_def newBitset_def Let_def)

lemma bits_of_newBitset [simp]: "bits_of (newBitset n) = {}"
  by (auto simp: bits_of_def newBitset_def Let_def split: if_splits)

lemma bitset_clone_id [simp]: "bitset_clone b = b"
  by (simp add: bitset_clone_def Let_def)

lemma bitset_set_ok:
  assumes "p < bit_capacity b"
  shows "\<exists>b'. bitset_set b p = Inr b' \<and> bits_of b' = insert p (bits_of b)
    \<and> bit_capacity b' = bit_capacity b"
  using assms
  by (auto simp: bitset_set_def bitsetIndex_def bits_of_def bit_capacity_def nth_list_update
      bit_or_iff dest: div_mod_64_eq split: if_splits)

lemma bitset_clear_ok:
  assumes "p < bit_capacity b"
  shows "\<exists>b'. bitset_clear b p = Inr b' \<and> bits_of b' = bits_of b - {p}
    \<and> bit_capacity b' = bit_capacity b"
  using assms
  by (auto simp: bitset_clear_def bitsetIndex_def bits_of_def bit_capacity_def nth_list_update
      bit_and_iff bit_not_iff dest: div_mod_64_eq split: if_splits)

lemma bitset_get_ok: "p < bit_capacity b \<Longrightarrow> bitset_get b p = Inr (p \<in> bits_of b)"
  by (simp add: bitset_get_def bitsetIndex_def bits_of_def single_AND_zero)

lemma bitset_out_of_range:
  assumes "\<not> p < bit_capacity b"
  shows "bitset_set b p = Inl IndexOutOfRange" "bitset_clear b p = Inl IndexOutOfRange"
    "bitset_get b p = Inl IndexOutOfRange"
  using assms by (simp_all add: bitset_set_def bitset_clear_def bitset_get_def bitsetIndex_def)

lemma bitset_equals_loop_eq: "length b = length c \<Longrightarrow> bitset_equals_loop b c \<longleftrightarrow> b = c"
  by (induction b c rule: bitset_equals_loop.induct) auto

lemma bitset_equals_eq: "bitset_equals b c \<longleftrightarrow> b = c"
  by (auto simp: bitset_equals_def bitset_equals_loop_eq)

lemma bits_of_inj:
  assumes "length b = length c" "bits_of b = bits_of c"
  shows "b = c"
proof (rule nth_equalityI)
  show "length b = length c" by fact
  fix i assume i: "i < length b"
  show "b ! i = c ! i"
  proof (rule bit_word_eqI)
    fix k assume "k < LENGTH(64)"
    then have k: "k < 64" by simp
    have "bit (b ! i) k \<longleftrightarrow> 64 * i + k \<in> bits_of b" using i k by (simp add: bits_of_def)
    also have "\<dots> \<longleftrightarrow> 64 * i + k \<in> bits_of c" using assms(2) by simp
    also have "\<dots> \<longleftrightarrow> bit (c ! i) k" using i k assms(1) by (simp add: bits_of_def)
    finally show "bit (b ! i) k = bit (c ! i) k" .
  qed
qed

section \<open>The contract of a set of identifiers\<close>

text \<open>
  What a client of the bit set relies on: an identifier below the capacity can be added, removed
  and looked up without a panic, two sets of the same capacity compare equal exactly when they
  have the same elements, and equal sets have the same hash.
\<close>

locale id_set =
  fixes create :: "nat \<Rightarrow> 'b"
    and ins :: "'b \<Rightarrow> nat \<Rightarrow> 'b result"
    and del :: "'b \<Rightarrow> nat \<Rightarrow> 'b result"
    and mem :: "'b \<Rightarrow> nat \<Rightarrow> bool result"
    and eq :: "'b \<Rightarrow> 'b \<Rightarrow> bool"
    and hash :: "'b \<Rightarrow> 64 word"
    and elems :: "'b \<Rightarrow> nat set"
    and cap :: "'b \<Rightarrow> nat"
  assumes create_elems: "elems (create n) = {}"
    and create_cap: "n \<le> cap (create n)"
    and ins_ok: "p < cap b \<Longrightarrow> \<exists>b'. ins b p = Inr b' \<and> elems b' = insert p (elems b) \<and> cap b' = cap b"
    and del_ok: "p < cap b \<Longrightarrow> \<exists>b'. del b p = Inr b' \<and> elems b' = elems b - {p} \<and> cap b' = cap b"
    and mem_ok: "p < cap b \<Longrightarrow> mem b p = Inr (p \<in> elems b)"
    and eq_elems: "cap b = cap c \<Longrightarrow> eq b c \<longleftrightarrow> elems b = elems c"
    and eq_hash: "eq b c \<Longrightarrow> hash b = hash c"
begin

lemma insE:
  assumes "p < cap b"
  obtains b' where "ins b p = Inr b'" "elems b' = insert p (elems b)" "cap b' = cap b"
  using ins_ok [OF assms] by blast

lemma delE:
  assumes "p < cap b"
  obtains b' where "del b p = Inr b'" "elems b' = elems b - {p}" "cap b' = cap b"
  using del_ok [OF assms] by blast

text \<open>Adding an identifier that is not in the set and removing it again restores the set.\<close>

lemma ins_del_restores:
  assumes "p < cap b" and "p \<notin> elems b"
  shows "\<exists>b' b''. ins b p = Inr b' \<and> del b' p = Inr b'' \<and> eq b'' b \<and> hash b'' = hash b"
proof -
  from assms(1) obtain b' where b': "ins b p = Inr b'" "elems b' = insert p (elems b)" "cap b' = cap b"
    by (rule insE)
  from assms(1) b'(3) have "p < cap b'" by simp
  then obtain b'' where b'': "del b' p = Inr b''" "elems b'' = elems b' - {p}" "cap b'' = cap b'"
    by (rule delE)
  have "eq b'' b" using assms(2) b' b'' by (subst eq_elems) auto
  with b' b'' show ?thesis using eq_hash by blast
qed

lemma mem_after_ins:
  assumes "p < cap b" and "q < cap b"
  shows "\<exists>b'. ins b p = Inr b' \<and> mem b' q = Inr (q = p \<or> q \<in> elems b)"
proof -
  from assms(1) obtain b' where b': "ins b p = Inr b'" "elems b' = insert p (elems b)" "cap b' = cap b"
    by (rule insE)
  with assms(2) mem_ok [of q b'] show ?thesis by auto
qed

end

interpretation bits: id_set newBitset bitset_set bitset_clear bitset_get bitset_equals bitset_hash
  bits_of bit_capacity
proof unfold_locales
  fix b c :: bitset
  assume "bit_capacity b = bit_capacity c"
  then have "length b = length c" by (simp add: bit_capacity_def)
  then show "bitset_equals b c \<longleftrightarrow> bits_of b = bits_of c"
    using bits_of_inj by (auto simp: bitset_equals_eq)
qed (use bitset_set_ok bitset_clear_ok bitset_get_ok newBitset_capacity in
    \<open>auto simp: bitset_equals_eq\<close>)

section \<open>Population count and hash\<close>

lemma OnesCount64_card: "OnesCount64 w = card {k. k < 64 \<and> bit w k}"
proof -
  have "OnesCount64 w = card (set (filter (bit w) [0..<64]))"
    unfolding OnesCount64_def by (rule distinct_card [symmetric]) simp
  also have "set (filter (bit w) [0..<64]) = {k. k < 64 \<and> bit w k}" by auto
  finally show ?thesis .
qed

lemma fold_OnesCount: "fold (\<lambda>v total. total + OnesCount64 v) b t = t + (\<Sum>v\<leftarrow>b. OnesCount64 v)"
  by (induction b arbitrary: t) auto

lemma bits_of_snoc:
  "bits_of (b @ [w]) = bits_of b \<union> (\<lambda>k. 64 * length b + k) ` {k. k < 64 \<and> bit w k}"
proof (rule set_eqI)
  fix p :: nat
  have "p div 64 = length b \<Longrightarrow> p = 64 * length b + p mod 64"
    using mult_div_mod_eq [of 64 p] by simp
  then show "p \<in> bits_of (b @ [w]) \<longleftrightarrow>
      p \<in> bits_of b \<union> (\<lambda>k. 64 * length b + k) ` {k. k < 64 \<and> bit w k}"
    by (auto simp: bits_of_def nth_append image_iff less_Suc_eq intro: exI [of _ "p mod 64"])
qed

lemma finite_bits_of [simp]: "finite (bits_of b)"
  by (rule finite_subset [of _ "{..<bit_capacity b}"]) (use bits_of_bounded in auto)

lemma card_bits_of: "card (bits_of b) = (\<Sum>v\<leftarrow>b. OnesCount64 v)"
proof (induction b rule: rev_induct)
  case Nil
  show ?case by (simp add: bits_of_def)
next
  case (snoc w b)
  have disj: "bits_of b \<inter> (\<lambda>k. 64 * length b + k) ` {k. k < 64 \<and> bit w k} = {}"
    by (auto dest!: bits_of_bounded)
  have "card (bits_of (b @ [w])) =
      card (bits_of b) + card ((\<lambda>k. 64 * length b + k) ` {k. k < 64 \<and> bit w k})"
    unfolding bits_of_snoc by (rule card_Un_disjoint) (use disj in auto)
  also have "\<dots> = card (bits_of b) + OnesCount64 w"
    by (simp add: card_image OnesCount64_card)
  finally show ?case by (simp add: snoc.IH)
qed

end
