(* ===== verification/Porcupine_Model.thy ===== *)
theory Porcupine_Model
  imports Bitset "HOL-Library.Multiset"
begin

text \<open>
  \<^verbatim>\<open>porcupine/model.go\<close> and the first half of \<^verbatim>\<open>porcupine/checker.go\<close>: histories of operations
  and of events, the user's model of the system under test, and the translation of a history into
  the list of call and return entries that the checker searches.

  A value of type \<^verbatim>\<open>interface{}\<close> is an \<open>'v iface\<close>; states of the user's model have a type
  \<open>'s\<close> of their own.  The functions of a \<open>Model\<close> that inspect dynamically typed values return a
  result, because a failed type assertion panics; a function-valued field that may be \<^verbatim>\<open>nil\<close> is an
  option.  \<^verbatim>\<open>sort.Sort\<close> is not stable, so the sorting routine is a parameter with its documented
  contract \<open>sorts_by_time\<close>, and so are the formatting routines behind \<^verbatim>\<open>%v\<close>.
\<close>

section \<open>Histories\<close>

record 'v Operation =
  op_ClientId :: int
  op_Input :: "'v iface"
  op_Call :: int
  op_Output :: "'v iface"
  op_Return :: int

datatype EventKind = CallEvent | ReturnEvent

record 'v Event =
  ev_ClientId :: int
  ev_Kind :: EventKind
  ev_Value :: "'v iface"
  ev_Id :: int

section \<open>Models\<close>

record ('v, 's) Model =
  Partition :: "('v Operation list \<Rightarrow> 'v Operation list list result) option"
  PartitionEvent :: "('v Event list \<Rightarrow> 'v Event list list result) option"
  Init :: "unit \<Rightarrow> 's"
  Step :: "'s \<Rightarrow> 'v iface \<Rightarrow> 'v iface \<Rightarrow> (bool \<times> 's) result"
  Equal :: "('s \<Rightarrow> 's \<Rightarrow> bool) option"
  DescribeOperation :: "('v iface \<Rightarrow> 'v iface \<Rightarrow> string result) option"
  DescribeState :: "('s \<Rightarrow> string) option"

definition NoPartition :: "'v Operation list \<Rightarrow> 'v Operation list list result" where
  "NoPartition history = Inr [history]"

definition NoPartitionEvent :: "'v Event list \<Rightarrow> 'v Event list list result" where
  "NoPartitionEvent history = Inr [history]"

text \<open>
  \<^verbatim>\<open>==\<close> on states of a comparable type.  On two states of a type that is not comparable (a slice, a map) it panics; such states,
  for which a model has to provide its own \<^verbatim>\<open>Equal\<close>, are outside of the type \<open>'s\<close> here.
\<close>

definition ShallowEqual :: "'s \<Rightarrow> 's \<Rightarrow> bool" where
  "ShallowEqual state1 state2 = (state1 = state2)"

text \<open>What \<^verbatim>\<open>fmt\<close> prints for \<^verbatim>\<open>%v\<close>, for values and for states.\<close>

record ('v, 's) go_fmt =
  fmt_value :: "'v iface \<Rightarrow> string"
  fmt_state :: "'s \<Rightarrow> string"

definition DefaultDescribeOperation ::
    "('v, 's) go_fmt \<Rightarrow> 'v iface \<Rightarrow> 'v iface \<Rightarrow> string result" where
  "DefaultDescribeOperation fm input output =
     Inr (fmt_value fm input @ '' -> '' @ fmt_value fm output)"

definition DefaultDescribeState :: "('v, 's) go_fmt \<Rightarrow> 's \<Rightarrow> string" where
  "DefaultDescribeState fm state = fmt_state fm state"

datatype CheckResult = Unknown | Ok | Illegal

definition fillDefault :: "('v, 's) go_fmt \<Rightarrow> ('v, 's) Model \<Rightarrow> ('v, 's) Model" where
  "fillDefault fm model =
     (let model = (if Partition model = None then model\<lparr>Partition := Some NoPartition\<rparr> else model);
          model = (if PartitionEvent model = None
                   then model\<lparr>PartitionEvent := Some NoPartitionEvent\<rparr> else model);
          model = (if Equal model = None then model\<lparr>Equal := Some ShallowEqual\<rparr> else model);
          model = (if DescribeOperation model = None
                   then model\<lparr>DescribeOperation := Some (DefaultDescribeOperation fm)\<rparr> else model);
          model = (if DescribeState model = None
                   then model\<lparr>DescribeState := Some (DefaultDescribeState fm)\<rparr> else model)
      in model)"

text \<open>Calling a function-valued field: a \<^verbatim>\<open>nil\<close> function panics.\<close>

definition call_Equal :: "('v, 's) Model \<Rightarrow> 's \<Rightarrow> 's \<Rightarrow> bool result" where
  "call_Equal model a b = (case Equal model of None \<Rightarrow> Inl NilDereference | Some f \<Rightarrow> Inr (f a b))"

definition call_Partition ::
    "('v, 's) Model \<Rightarrow> 'v Operation list \<Rightarrow> 'v Operation list list result" where
  "call_Partition model h = (case Partition model of None \<Rightarrow> Inl NilDereference | Some f \<Rightarrow> f h)"

definition call_PartitionEvent ::
    "('v, 's) Model \<Rightarrow> 'v Event list \<Rightarrow> 'v Event list list result" where
  "call_PartitionEvent model h =
     (case PartitionEvent model of None \<Rightarrow> Inl NilDereference | Some f \<Rightarrow> f h)"

definition call_DescribeOperation ::
    "('v, 's) Model \<Rightarrow> 'v iface \<Rightarrow> 'v iface \<Rightarrow> string result" where
  "call_DescribeOperation model i out =
     (case DescribeOperation model of None \<Rightarrow> Inl NilDereference | Some f \<Rightarrow> f i out)"

definition call_DescribeState :: "('v, 's) Model \<Rightarrow> 's \<Rightarrow> string result" where
  "call_DescribeState model s =
     (case DescribeState model of None \<Rightarrow> Inl NilDereference | Some f \<Rightarrow> Inr (f s))"

section \<open>Entries\<close>

datatype entryKind = callEntry | returnEntry

lemma entryKind_neq [simp]: "k \<noteq> returnEntry \<longleftrightarrow> k = callEntry" "k \<noteq> callEntry \<longleftrightarrow> k = returnEntry"
  by (cases k; simp)+

record 'v entry =
  entry_kind :: entryKind
  entry_value :: "'v iface"
  entry_id :: int
  entry_time :: int
  entry_clientId :: int

definition byTime_Less :: "'v entry \<Rightarrow> 'v entry \<Rightarrow> bool" where
  "byTime_Less a b = (entry_time a < entry_time b)"

text \<open>
  The contract of \<^verbatim>\<open>sort.Sort\<close> on \<^verbatim>\<open>byTime\<close>: the result is a permutation in which no element is
  \<open>Less\<close> than an earlier one; elements with equal times come in any order.
\<close>

definition sorts_by_time :: "('v entry list \<Rightarrow> 'v entry list) \<Rightarrow> bool" where
  "sorts_by_time srt \<longleftrightarrow>
     (\<forall>es. mset (srt es) = mset es \<and> sorted_wrt (\<lambda>a b. \<not> byTime_Less b a) (srt es))"

fun makeEntries_loop :: "'v Operation list \<Rightarrow> int \<Rightarrow> 'v entry list \<Rightarrow> 'v entry list" where
  "makeEntries_loop [] i entries = entries"
| "makeEntries_loop (elem # history) i entries =
     (let entries = entries @ [\<lparr>entry_kind = callEntry, entry_value = op_Input elem, entry_id = i,
            entry_time = op_Call elem, entry_clientId = op_ClientId elem\<rparr>];
          entries = entries @ [\<lparr>entry_kind = returnEntry, entry_value = op_Output elem, entry_id = i,
            entry_time = op_Return elem, entry_clientId = op_ClientId elem\<rparr>]
      in makeEntries_loop history (i + 1) entries)"

definition makeEntries :: "('v entry list \<Rightarrow> 'v entry list) \<Rightarrow> 'v Operation list \<Rightarrow> 'v entry list" where
  "makeEntries srt history = srt (makeEntries_loop history 0 [])"

fun renumber_loop :: "'v Event list \<Rightarrow> (int \<rightharpoonup> int) \<Rightarrow> int \<Rightarrow> 'v Event list \<Rightarrow> 'v Event list" where
  "renumber_loop [] m i e = e"
| "renumber_loop (v # events) m i e =
     (case m (ev_Id v) of
        Some r \<Rightarrow> renumber_loop events m i (e @ [v\<lparr>ev_Id := r\<rparr>])
      | None \<Rightarrow> renumber_loop events (m(ev_Id v \<mapsto> i)) (i + 1) (e @ [v\<lparr>ev_Id := i\<rparr>]))"

definition renumber :: "'v Event list \<Rightarrow> 'v Event list" where
  "renumber events = renumber_loop events Map.empty 0 []"

fun convertEntries_loop :: "'v Event list \<Rightarrow> int \<Rightarrow> 'v entry list \<Rightarrow> 'v entry list" where
  "convertEntries_loop [] i entries = entries"
| "convertEntries_loop (elem # events) i entries =
     (let kind = (if ev_Kind elem = ReturnEvent then returnEntry else callEntry)
      in convertEntries_loop events (i + 1)
           (entries @ [\<lparr>entry_kind = kind, entry_value = ev_Value elem, entry_id = ev_Id elem,
              entry_time = i, entry_clientId = ev_ClientId elem\<rparr>]))"

definition convertEntries :: "'v Event list \<Rightarrow> 'v entry list" where
  "convertEntries events = convertEntries_loop events 0 []"

section \<open>Basic facts\<close>

lemma fillDefault_simps [simp]:
  "Init (fillDefault fm m) = Init m"
  "Step (fillDefault fm m) = Step m"
  "Equal (fillDefault fm m) = Some (case Equal m of None \<Rightarrow> ShallowEqual | Some f \<Rightarrow> f)"
  "Partition (fillDefault fm m) = Some (case Partition m of None \<Rightarrow> NoPartition | Some f \<Rightarrow> f)"
  "PartitionEvent (fillDefault fm m) =
     Some (case PartitionEvent m of None \<Rightarrow> NoPartitionEvent | Some f \<Rightarrow> f)"
  "DescribeOperation (fillDefault fm m) =
     Some (case DescribeOperation m of None \<Rightarrow> DefaultDescribeOperation fm | Some f \<Rightarrow> f)"
  "DescribeState (fillDefault fm m) =
     Some (case DescribeState m of None \<Rightarrow> DefaultDescribeState fm | Some f \<Rightarrow> f)"
  by (auto simp: fillDefault_def Let_def split: option.splits)

lemma sort_key_sorts_by_time: "sorts_by_time (sort_key entry_time)"
proof -
  have "sorted_wrt (\<lambda>a b. \<not> byTime_Less b a) (sort_key entry_time es)" for es :: "'a entry list"
    using sorted_sort_key [of entry_time es] by (simp add: sorted_map byTime_Less_def not_less)
  then show ?thesis by (simp add: sorts_by_time_def)
qed

end
