(* ===== verification/Linked_Entries.thy ===== *)
theory Linked_Entries
  imports Porcupine_Model
begin

text \<open>
  The doubly linked list of entries of \<^verbatim>\<open>porcupine/checker.go\<close>: \<^verbatim>\<open>node\<close>, \<^verbatim>\<open>insertBefore\<close>,
  \<^verbatim>\<open>length\<close>, \<^verbatim>\<open>makeLinkedEntries\<close>, \<^verbatim>\<open>lift\<close> and \<^verbatim>\<open>unlift\<close>, over an explicit heap.  Nodes live at
  natural-number addresses, a pointer is a \<open>nat option\<close> with \<open>None\<close> for \<^verbatim>\<open>nil\<close>, and following
  \<^verbatim>\<open>nil\<close> panics.  The predicate \<open>links\<close> says that a heap holds a given list of addresses as a
  doubly linked list; \<^verbatim>\<open>lift\<close> takes a call and its return out of that list without touching their
  own links, which is what lets \<^verbatim>\<open>unlift\<close> put them back.
\<close>

section \<open>Nodes and the heap\<close>

record 'v node =
  node_value :: "'v iface"
  node_match :: "nat option"
  node_id :: int
  node_next :: "nat option"
  node_prev :: "nat option"

type_synonym 'v mem = "nat \<Rightarrow> 'v node"

record 'v heap =
  mem :: "'v mem"
  brk :: nat

definition new_node :: "'v iface \<Rightarrow> nat option \<Rightarrow> int \<Rightarrow> 'v node" where
  "new_node v mt i = \<lparr>node_value = v, node_match = mt, node_id = i, node_next = None, node_prev = None\<rparr>"

definition empty_heap :: "'v heap" where
  "empty_heap = \<lparr>mem = (\<lambda>_. new_node None None 0), brk = 0\<rparr>"

definition alloc :: "'v heap \<Rightarrow> 'v node \<Rightarrow> nat \<times> 'v heap" where
  "alloc h n = (brk h, h\<lparr>mem := (mem h)(brk h := n), brk := Suc (brk h)\<rparr>)"

definition set_next :: "'v mem \<Rightarrow> nat option \<Rightarrow> nat option \<Rightarrow> 'v mem result" where
  "set_next m p q = (case p of None \<Rightarrow> Inl NilDereference
     | Some a \<Rightarrow> Inr (m(a := (m a)\<lparr>node_next := q\<rparr>)))"

definition set_prev :: "'v mem \<Rightarrow> nat option \<Rightarrow> nat option \<Rightarrow> 'v mem result" where
  "set_prev m p q = (case p of None \<Rightarrow> Inl NilDereference
     | Some a \<Rightarrow> Inr (m(a := (m a)\<lparr>node_prev := q\<rparr>)))"

section \<open>Operations\<close>

definition insertBefore :: "'v mem \<Rightarrow> nat \<Rightarrow> nat option \<Rightarrow> 'v mem" where
  "insertBefore m n mark =
     (case mark of
        None \<Rightarrow> m
      | Some k \<Rightarrow>
          (let beforeMark = node_prev (m k);
               m = m(k := (m k)\<lparr>node_prev := Some n\<rparr>);
               m = m(n := (m n)\<lparr>node_next := Some k\<rparr>)
           in case beforeMark of
                None \<Rightarrow> m
              | Some b \<Rightarrow>
                  (let m = m(n := (m n)\<lparr>node_prev := Some b\<rparr>)
                   in m(b := (m b)\<lparr>node_next := Some n\<rparr>))))"

partial_function (option) node_length_loop :: "'v mem \<Rightarrow> nat option \<Rightarrow> nat \<Rightarrow> nat option" where
  "node_length_loop m n l =
     (case n of None \<Rightarrow> Some l | Some a \<Rightarrow> node_length_loop m (node_next (m a)) (l + 1))"

declare node_length_loop.simps [code]

definition node_length :: "'v mem \<Rightarrow> nat option \<Rightarrow> nat option" where
  "node_length m n = node_length_loop m n 0"

definition makeLinkedEntries_body ::
    "'v entry \<Rightarrow> 'v heap \<times> nat option \<times> (int \<rightharpoonup> nat) \<Rightarrow> 'v heap \<times> nat option \<times> (int \<rightharpoonup> nat)" where
  "makeLinkedEntries_body elem = (\<lambda>(h, root, mtch).
     (if entry_kind elem = returnEntry then
        (let (a, h) = alloc h (new_node (entry_value elem) None (entry_id elem));
             mtch = mtch(entry_id elem \<mapsto> a);
             h = h\<lparr>mem := insertBefore (mem h) a root\<rparr>
         in (h, Some a, mtch))
      else
        (let (a, h) = alloc h (new_node (entry_value elem) (mtch (entry_id elem)) (entry_id elem));
             h = h\<lparr>mem := insertBefore (mem h) a root\<rparr>
         in (h, Some a, mtch))))"

definition makeLinkedEntries :: "'v entry list \<Rightarrow> 'v heap \<times> nat option" where
  "makeLinkedEntries entries =
     (case fold makeLinkedEntries_body (rev entries) (empty_heap, None, Map.empty) of
        (h, root, mtch) \<Rightarrow> (h, root))"

definition lift :: "'v mem \<Rightarrow> nat \<Rightarrow> 'v mem result" where
  "lift m e =
     bindE (set_next m (node_prev (m e)) (node_next (m e))) (\<lambda>m.
     bindE (set_prev m (node_next (m e)) (node_prev (m e))) (\<lambda>m.
     case node_match (m e) of
       None \<Rightarrow> Inl NilDereference
     | Some mt \<Rightarrow>
         bindE (set_next m (node_prev (m mt)) (node_next (m mt))) (\<lambda>m.
         if node_next (m mt) \<noteq> None then set_prev m (node_next (m mt)) (node_prev (m mt))
         else Inr m)))"

definition unlift :: "'v mem \<Rightarrow> nat \<Rightarrow> 'v mem result" where
  "unlift m e =
     (case node_match (m e) of
        None \<Rightarrow> Inl NilDereference
      | Some mt \<Rightarrow>
          bindE (set_next m (node_prev (m mt)) (Some mt)) (\<lambda>m.
          bindE (if node_next (m mt) \<noteq> None then set_prev m (node_next (m mt)) (Some mt) else Inr m) (\<lambda>m.
          bindE (set_next m (node_prev (m e)) (Some e)) (\<lambda>m.
          set_prev m (node_next (m e)) (Some e)))))"

section \<open>Doubly linked lists in a heap\<close>

fun seg :: "'v mem \<Rightarrow> nat list \<Rightarrow> bool" where
  "seg m (x # y # zs) \<longleftrightarrow>
     node_next (m x) = Some y \<and> node_prev (m y) = Some x \<and> seg m (y # zs)"
| "seg m xs \<longleftrightarrow> True"

definition links :: "'v mem \<Rightarrow> nat list \<Rightarrow> bool" where
  "links m xs \<longleftrightarrow> xs \<noteq> [] \<and> seg m xs \<and> node_next (m (last xs)) = None"

lemma seg_append:
  "xs \<noteq> [] \<Longrightarrow> ys \<noteq> [] \<Longrightarrow> seg m (xs @ ys) \<longleftrightarrow>
     seg m xs \<and> seg m ys \<and> node_next (m (last xs)) = Some (hd ys) \<and> node_prev (m (hd ys)) = Some (last xs)"
proof (induction xs rule: induct_list012)
  case (2 x)
  then show ?case by (cases ys) auto
qed auto

lemma seg_cong:
  "(\<And>x. x \<in> set (butlast xs) \<Longrightarrow> node_next (m' x) = node_next (m x)) \<Longrightarrow>
   (\<And>x. x \<in> set (tl xs) \<Longrightarrow> node_prev (m' x) = node_prev (m x)) \<Longrightarrow> seg m' xs = seg m xs"
  by (induction m xs rule: seg.induct) auto

lemma seg_upd_next:
  "x \<notin> set (butlast xs) \<Longrightarrow> seg (m(x := (m x)\<lparr>node_next := q\<rparr>)) xs = seg m xs"
  by (rule seg_cong) auto

lemma seg_upd_prev:
  "x \<notin> set (tl xs) \<Longrightarrow> seg (m(x := (m x)\<lparr>node_prev := q\<rparr>)) xs = seg m xs"
  by (rule seg_cong) auto

lemma seg_upd_both:
  assumes "seg m xs" "x \<notin> set (butlast xs)" "y \<notin> set (tl xs)"
  shows "seg (m(x := (m x)\<lparr>node_next := q\<rparr>,
    y := ((m(x := (m x)\<lparr>node_next := q\<rparr>)) y)\<lparr>node_prev := r\<rparr>)) xs"
  by (rule iffD2 [OF seg_cong assms(1)]) (use assms in auto)

lemma links_next: "links m (xs @ a # ys) \<Longrightarrow> node_next (m a) = head_opt ys"
proof (cases ys)
  case Nil
  assume "links m (xs @ a # ys)"
  with Nil show ?thesis by (simp add: links_def)
next
  case (Cons y zs)
  assume "links m (xs @ a # ys)"
  then have "seg m ((xs @ [a]) @ y # zs)" using Cons by (simp add: links_def)
  then show ?thesis using Cons by (subst (asm) seg_append) auto
qed

lemma links_prev: "links m (xs @ a # ys) \<Longrightarrow> xs \<noteq> [] \<Longrightarrow> node_prev (m a) = Some (last xs)"
  by (simp add: links_def seg_append)

lemma links_append:
  "xs \<noteq> [] \<Longrightarrow> ys \<noteq> [] \<Longrightarrow> links m (xs @ ys) \<longleftrightarrow>
     seg m xs \<and> links m ys \<and> node_next (m (last xs)) = Some (hd ys) \<and> node_prev (m (hd ys)) = Some (last xs)"
  by (auto simp: links_def seg_append)

lemma linksI: "seg m xs \<Longrightarrow> xs \<noteq> [] \<Longrightarrow> node_next (m (last xs)) = None \<Longrightarrow> links m xs"
  by (simp add: links_def)

text \<open>A field-wise comparison of heaps: same value, match and identifier everywhere.\<close>

definition same_static :: "'v mem \<Rightarrow> 'v mem \<Rightarrow> bool" where
  "same_static m m' \<longleftrightarrow> (\<forall>a. node_value (m' a) = node_value (m a) \<and>
     node_match (m' a) = node_match (m a) \<and> node_id (m' a) = node_id (m a))"

lemma same_static_refl [simp]: "same_static m m"
  by (simp add: same_static_def)

lemma same_static_trans [trans]: "same_static m m' \<Longrightarrow> same_static m' m'' \<Longrightarrow> same_static m m''"
  by (simp add: same_static_def)

lemma same_static_upd [simp]:
  "same_static m (m'(a := (m' a)\<lparr>node_next := q\<rparr>)) = same_static m m'"
  "same_static m (m'(a := (m' a)\<lparr>node_prev := q\<rparr>)) = same_static m m'"
  by (auto simp: same_static_def)

text \<open>
  Unlinking one node: the links of its two neighbours skip it; its own links and all nodes off the
  list stay as they are.  Both halves of \<^verbatim>\<open>lift\<close> are this operation.
\<close>

definition unlink :: "'v mem \<Rightarrow> nat \<Rightarrow> 'v mem result" where
  "unlink m e =
     bindE (set_next m (node_prev (m e)) (node_next (m e))) (\<lambda>m.
     if node_next (m e) \<noteq> None then set_prev m (node_next (m e)) (node_prev (m e)) else Inr m)"

definition relink :: "'v mem \<Rightarrow> nat \<Rightarrow> 'v mem result" where
  "relink m e =
     bindE (set_next m (node_prev (m e)) (Some e)) (\<lambda>m.
     if node_next (m e) \<noteq> None then set_prev m (node_next (m e)) (Some e) else Inr m)"

definition off_list :: "nat list \<Rightarrow> 'v mem \<Rightarrow> 'v mem \<Rightarrow> bool" where
  "off_list xs m m' \<longleftrightarrow> (\<forall>z. z \<notin> set xs \<longrightarrow> m' z = m z)"

lemma links_upd_both:
  assumes "links m (q # Q)" "p \<notin> set (q # Q)" "distinct (q # Q)"
  shows "links (m(p := (m p)\<lparr>node_next := x\<rparr>,
    q := ((m(p := (m p)\<lparr>node_next := x\<rparr>)) q)\<lparr>node_prev := y\<rparr>)) (q # Q)"
proof (rule linksI)
  show "seg (m(p := (m p)\<lparr>node_next := x\<rparr>,
      q := ((m(p := (m p)\<lparr>node_next := x\<rparr>)) q)\<lparr>node_prev := y\<rparr>)) (q # Q)"
    by (rule seg_upd_both) (use assms in \<open>auto simp: links_def dest: in_set_butlastD\<close>)
qed (use assms in \<open>auto simp: links_def\<close>)

lemma unlink_ok:
  assumes "links m (P @ e # Q)" "P \<noteq> []" "distinct (P @ e # Q)"
  shows "\<exists>m'. unlink m e = Inr m' \<and> links m' (P @ Q) \<and> off_list (P @ Q) m m' \<and> same_static m m'"
proof -
  have nx: "node_next (m e) = head_opt Q" and pv: "node_prev (m e) = Some (last P)"
    using assms(1,2) by (auto intro: links_next links_prev)
  obtain P' p where P: "P = P' @ [p]" using assms(2) by (cases P rule: rev_cases) auto
  have sP: "seg m P" using assms by (simp add: links_def seg_append)
  show ?thesis
  proof (cases Q)
    case Nil
    have "seg (m(p := (m p)\<lparr>node_next := None\<rparr>)) P"
      using sP assms(3) P by (subst seg_upd_next) auto
    then show ?thesis using Nil nx pv P assms(3)
      by (auto simp: unlink_def set_next_def links_def off_list_def)
  next
    case (Cons q Q')
    let ?m2 = "m(p := (m p)\<lparr>node_next := Some q\<rparr>,
      q := ((m(p := (m p)\<lparr>node_next := Some q\<rparr>)) q)\<lparr>node_prev := Some p\<rparr>)"
    have "seg ?m2 P" by (rule seg_upd_both [OF sP]) (use assms(3) P Cons in \<open>auto dest!: set_tlD\<close>)
    moreover have "links m (q # Q')"
      using assms(1,2) Cons links_append [of "P @ [e]" "q # Q'" m] by simp
    then have "links ?m2 (q # Q')" by (rule links_upd_both) (use assms(3) P Cons in auto)
    moreover have "node_next (?m2 (last P)) = Some q" "node_prev (?m2 q) = Some (last P)"
      using P Cons assms(3) by auto
    ultimately have "links ?m2 (P @ Q)"
      using P Cons by (subst links_append) (simp_all del: fun_upd_apply)
    moreover have "unlink m e = Inr ?m2" using nx pv P Cons assms(3)
      by (auto simp: unlink_def set_next_def set_prev_def)
    moreover have "off_list (P @ Q) m ?m2" using P Cons by (auto simp: off_list_def)
    moreover have "same_static m ?m2" by (auto simp: same_static_def)
    ultimately show ?thesis by blast
  qed
qed

lemma relink_ok:
  assumes "links m (P @ Q)" "P \<noteq> []" "distinct (P @ e # Q)"
    and "node_prev (m e) = Some (last P)" "node_next (m e) = head_opt Q"
  shows "\<exists>m'. relink m e = Inr m' \<and> links m' (P @ e # Q) \<and> off_list (P @ Q) m m' \<and> same_static m m'"
proof -
  obtain P' p where P: "P = P' @ [p]" using assms(2) by (cases P rule: rev_cases) auto
  show ?thesis
  proof (cases Q)
    case Nil
    let ?m1 = "m(p := (m p)\<lparr>node_next := Some e\<rparr>)"
    have "seg m P" using assms Nil by (simp add: links_def)
    then have "seg ?m1 P" using assms(3) P by (subst seg_upd_next) auto
    then have "seg ?m1 (P @ [e])" using assms P by (subst seg_append) auto
    then show ?thesis using Nil P assms
      by (auto simp: relink_def set_next_def links_def off_list_def intro!: exI [of _ ?m1])
  next
    case (Cons q Q')
    let ?m2 = "m(p := (m p)\<lparr>node_next := Some e\<rparr>,
      q := ((m(p := (m p)\<lparr>node_next := Some e\<rparr>)) q)\<lparr>node_prev := Some e\<rparr>)"
    have sP: "seg m P" and lQ: "links m (q # Q')"
      using assms(1,2) Cons by (simp_all add: links_append)
    have "links ?m2 (q # Q')" by (rule links_upd_both [OF lQ]) (use assms(3) P Cons in auto)
    then have l: "links ?m2 ([e] @ Q)"
      using P Cons assms by (subst links_append) auto
    have "seg ?m2 P" by (rule seg_upd_both [OF sP]) (use assms(3) P Cons in \<open>auto dest!: set_tlD\<close>)
    then have "links ?m2 (P @ [e] @ Q)"
      using P Cons assms l by (subst links_append) auto
    moreover have "relink m e = Inr ?m2" using P Cons assms
      by (auto simp: relink_def set_next_def set_prev_def)
    moreover have "off_list (P @ Q) m ?m2" using P Cons by (auto simp: off_list_def)
    moreover have "same_static m ?m2" by (auto simp: same_static_def)
    ultimately show ?thesis by auto
  qed
qed

section \<open>Lifting and unlifting an operation\<close>

text \<open>
  The links that a lifted call \<open>e\<close> and its return \<open>r\<close> keep: where they stood in
  \<open>P @ e # B @ r # C\<close>, the return after its call was taken out.
\<close>

definition parked :: "'v mem \<Rightarrow> nat list \<Rightarrow> nat \<Rightarrow> nat list \<Rightarrow> nat \<Rightarrow> nat list \<Rightarrow> bool" where
  "parked m P e B r C \<longleftrightarrow>
     node_prev (m e) = Some (last P) \<and> node_next (m e) = head_opt (B @ [r]) \<and>
     node_prev (m r) = Some (last (P @ B)) \<and> node_next (m r) = head_opt C"

lemma lift_unlink:
  "node_next (m e) \<noteq> None \<Longrightarrow> node_prev (m e) \<noteq> Some e \<Longrightarrow>
   lift m e = bindE (unlink m e) (\<lambda>m. case node_match (m e) of None \<Rightarrow> Inl NilDereference
     | Some r \<Rightarrow> unlink m r)"
  unfolding lift_def unlink_def by (cases "node_prev (m e)") (auto simp: set_next_def)

lemma lift_ok:
  assumes L: "links m (P @ e # B @ r # C)" and P: "P \<noteq> []" and D: "distinct (P @ e # B @ r # C)"
    and M: "node_match (m e) = Some r"
  shows "\<exists>m'. lift m e = Inr m' \<and> links m' (P @ B @ C) \<and> same_static m m' \<and>
    off_list (P @ B @ r # C) m m' \<and> parked m' P e B r C"
proof -
  obtain m1 where m1: "unlink m e = Inr m1" "links m1 (P @ B @ r # C)"
      "off_list (P @ B @ r # C) m m1" "same_static m m1"
    using unlink_ok [OF L P D] by auto
  have D1: "distinct ((P @ B) @ r # C)" using D by auto
  obtain m2 where m2: "unlink m1 r = Inr m2" "links m2 ((P @ B) @ C)"
      "off_list ((P @ B) @ C) m1 m2" "same_static m1 m2"
    using unlink_ok [of m1 "P @ B" r C] m1(2) P D1 by auto
  have e: "node_next (m e) = head_opt (B @ r # C)" "node_prev (m e) = Some (last P)"
    using links_next [OF L] links_prev [OF L P] by auto
  have r1: "node_next (m1 r) = head_opt C" "node_prev (m1 r) = Some (last (P @ B))"
    using m1(2) P links_next [of m1 "P @ B"] links_prev [of m1 "P @ B"] by auto
  have "last P \<noteq> e" using D P by (metis disjoint_insert(1) distinct_append last_in_set list.simps(15))
  then have "lift m e = bindE (unlink m e) (\<lambda>m. case node_match (m e) of None \<Rightarrow> Inl NilDereference
     | Some r \<Rightarrow> unlink m r)"
    by (intro lift_unlink) (use e in auto)
  also have "\<dots> = Inr m2" using m1 m2 M by (simp add: same_static_def)
  finally have "lift m e = Inr m2" .
  moreover have "m2 e = m e" "m2 r = m1 r" using m1(3) m2(3) D by (auto simp: off_list_def)
  then have "parked m2 P e B r C" using e r1 by (auto simp: parked_def)
  moreover have "off_list (P @ B @ r # C) m m2" using m1(3) m2(3) by (auto simp: off_list_def)
  ultimately show ?thesis using m2 same_static_trans [OF m1(4) m2(4)] by auto
qed

lemma unlift_relink:
  assumes "node_match (m e) = Some r" "e \<noteq> r" "node_next (m e) \<noteq> None"
    "node_prev (m r) \<noteq> Some e" "node_next (m r) \<noteq> Some e" "node_prev (m e) \<noteq> Some e"
    "node_prev (m r) \<noteq> Some r"
  shows "unlift m e = bindE (relink m r) (\<lambda>m. relink m e)"
  using assms
  by (auto simp: unlift_def relink_def set_next_def set_prev_def bindE_def split: option.splits)

lemma unlift_ok:
  assumes L: "links m (P @ B @ C)" and P: "P \<noteq> []" and D: "distinct (P @ e # B @ r # C)"
    and M: "node_match (m e) = Some r" and K: "parked m P e B r C"
  shows "\<exists>m'. unlift m e = Inr m' \<and> links m' (P @ e # B @ r # C) \<and> same_static m m' \<and>
    off_list (P @ B @ r # C) m m'"
proof -
  have K': "node_prev (m e) = Some (last P)" "node_next (m e) = head_opt (B @ [r])"
    "node_prev (m r) = Some (last (P @ B))" "node_next (m r) = head_opt C"
    using K by (auto simp: parked_def)
  obtain m1 where m1: "relink m r = Inr m1" "links m1 ((P @ B) @ r # C)"
      "off_list ((P @ B) @ C) m m1" "same_static m m1"
    using relink_ok [of m "P @ B" C r] L P D K' by auto
  have "m1 e = m e" using m1(3) D by (auto simp: off_list_def)
  then obtain m2 where m2: "relink m1 e = Inr m2" "links m2 (P @ e # B @ r # C)"
      "off_list (P @ B @ r # C) m1 m2" "same_static m1 m2"
    using relink_ok [of m1 P "B @ r # C" e] m1(2) P D K' by (auto split: if_splits)
  have ne: "last P \<noteq> e" "last (P @ B) \<noteq> e" "last (P @ B) \<noteq> r" "head_opt C \<noteq> Some e"
    using D P last_in_set [of P] last_in_set [of "P @ B"] by (cases C; auto)+
  have "unlift m e = bindE (relink m r) (\<lambda>m. relink m e)"
    by (rule unlift_relink) (use M K' ne D in \<open>auto simp del: head_opt_append\<close>)
  then have "unlift m e = Inr m2" using m1 m2 by simp
  moreover have "off_list (P @ B @ r # C) m m2" using m1(3) m2(3) by (auto simp: off_list_def)
  ultimately show ?thesis using m2 same_static_trans [OF m1(4) m2(4)] by auto
qed

section \<open>Building the list\<close>

text \<open>
  The node of the \<open>k\<close>-th entry from the end gets address \<open>k\<close>.  \<open>first_ret\<close> is the address of the
  first return of an operation in a suffix of the history, \<open>match_at\<close> the \<^verbatim>\<open>match\<close> pointer of the
  node at an address.
\<close>

fun first_ret :: "int \<Rightarrow> 'v entry list \<Rightarrow> nat option" where
  "first_ret i [] = None"
| "first_ret i (e # es) =
     (if entry_kind e = returnEntry \<and> entry_id e = i then Some (length es) else first_ret i es)"

fun match_at :: "'v entry list \<Rightarrow> nat \<Rightarrow> nat option" where
  "match_at [] a = None"
| "match_at (e # es) a =
     (if a = length es then (if entry_kind e = returnEntry then None else first_ret (entry_id e) es)
      else match_at es a)"

fun ent_at :: "'v entry list \<Rightarrow> nat \<Rightarrow> 'v entry option" where
  "ent_at [] a = None"
| "ent_at (e # es) a = (if a = length es then Some e else ent_at es a)"

definition addresses :: "'v entry list \<Rightarrow> nat list" where
  "addresses es = rev [0..<length es]"

lemma addresses_simps [simp]:
  "addresses [] = []"
  "addresses (e # es) = length es # addresses es"
  "set (addresses es) = {..<length es}"
  "distinct (addresses es)"
  "length (addresses es) = length es"
  by (auto simp: addresses_def)

definition represents :: "'v mem \<Rightarrow> 'v entry list \<Rightarrow> bool" where
  "represents m es \<longleftrightarrow> (\<forall>a<length es. \<exists>e. ent_at es a = Some e \<and> node_value (m a) = entry_value e \<and>
     node_id (m a) = entry_id e \<and> node_match (m a) = match_at es a)"

lemma represents_static: "represents m es \<Longrightarrow> same_static m m' \<Longrightarrow> represents m' es"
  by (simp add: represents_def same_static_def)

lemma represents_cong:
  "(\<And>a. a < length es \<Longrightarrow> node_value (m' a) = node_value (m a) \<and> node_id (m' a) = node_id (m a) \<and>
     node_match (m' a) = node_match (m a)) \<Longrightarrow> represents m' es = represents m es"
  by (simp add: represents_def)

lemma insertBefore_links:
  assumes "links m (k # xs)" "node_prev (m k) = None" "n \<notin> set (k # xs)" "distinct (k # xs)"
  shows "links (insertBefore m n (Some k)) (n # k # xs)"
proof -
  let ?m = "m(k := (m k)\<lparr>node_prev := Some n\<rparr>, n := (m n)\<lparr>node_next := Some k\<rparr>)"
  have eq: "insertBefore m n (Some k) = ?m" using assms(2,3) by (auto simp: insertBefore_def)
  have "seg ?m (k # xs) = seg m (k # xs)"
    by (rule seg_cong) (use assms in \<open>auto dest: in_set_butlastD split: if_splits\<close>)
  then show ?thesis unfolding eq using assms by (auto simp: links_def)
qed

definition built :: "'v heap \<times> nat option \<times> (int \<rightharpoonup> nat) \<Rightarrow> 'v entry list \<Rightarrow> bool" where
  "built st es \<longleftrightarrow> (case st of (h, root, mtch) \<Rightarrow>
     brk h = length es \<and> root = head_opt (addresses es) \<and> mtch = (\<lambda>i. first_ret i es) \<and>
     (es \<noteq> [] \<longrightarrow> links (mem h) (addresses es)) \<and> node_prev (mem h (length es - 1)) = None \<and>
     represents (mem h) es \<and> (\<forall>a\<ge>length es. mem h a = new_node None None 0))"

lemma built_Cons_aux:
  assumes b: "links m (addresses es) \<or> es = []" "node_prev (m (length es - 1)) = None"
    and r: "represents m es" and z: "\<forall>a\<ge>length es. m a = new_node None None 0"
    and n: "n = new_node (entry_value e) (match_at (e # es) (length es)) (entry_id e)"
    and m'_def: "m' = insertBefore (m(length es := n)) (length es) (head_opt (addresses es))"
  shows "links m' (addresses (e # es))" "node_prev (m' (length es)) = None" "represents m' (e # es)"
    "\<forall>a>length es. m' a = new_node None None 0"
proof -
  let ?m = "m(length es := n)"
  have rm: "represents ?m es" using r by (subst represents_cong) auto
  have "links m' (addresses (e # es)) \<and> node_prev (m' (length es)) = None \<and>
    (\<forall>a. node_value (m' a) = node_value (?m a) \<and> node_id (m' a) = node_id (?m a) \<and>
       node_match (m' a) = node_match (?m a)) \<and> (\<forall>a>length es. m' a = ?m a)"
  proof (cases es)
    case Nil
    then show ?thesis unfolding m'_def by (simp add: n insertBefore_def links_def new_node_def)
  next
    case (Cons e' es')
    then have l: "links m (length es' # addresses es')" using b by simp
    have "seg ?m (length es' # addresses es') = seg m (length es' # addresses es')"
      by (rule seg_cong) (auto simp: Cons dest!: in_set_butlastD split: if_splits)
    then have l': "links ?m (length es' # addresses es')"
      using l Cons last_in_set [of "length es' # addresses es'"] by (auto simp: links_def)
    have "links m' (length es # length es' # addresses es')"
      unfolding m'_def using insertBefore_links [OF l'] b(2) Cons by auto
    moreover have "m' = ?m(length es' := (?m (length es'))\<lparr>node_prev := Some (length es)\<rparr>,
        length es := n\<lparr>node_next := Some (length es')\<rparr>)"
      unfolding m'_def using b(2) Cons by (auto simp: insertBefore_def)
    ultimately show ?thesis using Cons by (auto simp: n new_node_def)
  qed
  note * = this
  show "links m' (addresses (e # es))" "node_prev (m' (length es)) = None" using * by auto
  show "\<forall>a>length es. m' a = new_node None None 0" using * z by auto
  show "represents m' (e # es)"
    using * rm by (auto simp: represents_def less_Suc_eq n new_node_def)
qed

lemma built_Cons:
  assumes "built st es"
  shows "built (makeLinkedEntries_body e st) (e # es)"
proof -
  obtain h root mtch where st: "st = (h, root, mtch)" by (cases st) auto
  have A: "links (mem h) (addresses es) \<or> es = []" "node_prev (mem h (length es - 1)) = None"
    "represents (mem h) es" "\<forall>a\<ge>length es. mem h a = new_node None None 0"
    and B: "brk h = length es" "root = head_opt (addresses es)" "mtch = (\<lambda>i. first_ret i es)"
    using assms by (auto simp: built_def st)
  note C = built_Cons_aux [OF A refl refl, of e]
  show ?thesis using C B
    by (cases "entry_kind e")
      (auto simp: built_def st makeLinkedEntries_body_def alloc_def Let_def Suc_le_eq fun_eq_iff)
qed

lemma makeLinkedEntries_built:
  "built (fold makeLinkedEntries_body (rev es) (empty_heap, None, Map.empty)) es"
proof (induction es)
  case Nil
  show ?case by (auto simp: built_def empty_heap_def represents_def new_node_def)
next
  case (Cons e es)
  then show ?case by (simp add: built_Cons)
qed

lemma node_length_loop_links:
  "seg m xs \<Longrightarrow> (xs \<noteq> [] \<Longrightarrow> node_next (m (last xs)) = None) \<Longrightarrow>
   node_length_loop m (head_opt xs) l = Some (l + length xs)"
proof (induction xs arbitrary: l)
  case Nil
  show ?case by (simp add: node_length_loop.simps)
next
  case (Cons x xs)
  then have "node_next (m x) = head_opt xs" by (cases xs) auto
  moreover have "node_length_loop m (head_opt xs) (l + 1) = Some (l + 1 + length xs)"
    by (rule Cons.IH) (use Cons.prems in \<open>cases xs; auto\<close>)+
  ultimately show ?case by (simp add: node_length_loop.simps [of m "Some x"])
qed

end
