(* ===== verification/Checker.thy ===== *)
theory Checker
  imports Linked_Entries
begin

text \<open>
  \<^verbatim>\<open>checkSingle\<close> of \<^verbatim>\<open>porcupine/checker.go\<close>, the search for a linearization of one history, with
  its cache of visited configurations.  One iteration of the loop is \<open>checkSingle_body\<close>, the loop
  itself a partial function: \<open>None\<close> means that it does not return.  The flag that \<^verbatim>\<open>kill\<close> points
  to is shared with other goroutines, so the \<open>k\<close>-th read of it is \<open>kill k\<close> for an arbitrary
  function.  The slices that \<^verbatim>\<open>longest\<close> points to have identity (the caller compares the pointers),
  so they live in the store \<open>cs_seqs\<close> and \<open>cs_longest\<close> holds their addresses.
\<close>

record 's cacheEntry =
  ce_linearized :: bitset
  ce_state :: 's

record 's callsEntry =
  ca_entry :: nat
  ca_state :: 's

type_synonym 's cache = "64 word \<Rightarrow> 's cacheEntry list"

fun cacheContains_loop :: "('v, 's) Model \<Rightarrow> 's cacheEntry list \<Rightarrow> 's cacheEntry \<Rightarrow> bool result" where
  "cacheContains_loop model [] entry = Inr False"
| "cacheContains_loop model (elem # elems) entry =
     (if bitset_equals (ce_linearized entry) (ce_linearized elem) then
        bindE (call_Equal model (ce_state entry) (ce_state elem)) (\<lambda>eq.
          if eq then Inr True else cacheContains_loop model elems entry)
      else cacheContains_loop model elems entry)"

definition cacheContains :: "('v, 's) Model \<Rightarrow> 's cache \<Rightarrow> 's cacheEntry \<Rightarrow> bool result" where
  "cacheContains model cache entry =
     cacheContains_loop model (cache (bitset_hash (ce_linearized entry))) entry"

record ('v, 's) check_state =
  cs_mem :: "'v mem"
  cs_entry :: "nat option"
  cs_linearized :: bitset
  cs_cache :: "'s cache"
  cs_calls :: "'s callsEntry list"
  cs_longest :: "nat option list"
  cs_seqs :: "int list list"
  cs_state :: 's
  cs_reads :: nat

type_synonym check_outcome = "bool \<times> nat option list \<times> int list list"

text \<open>The identifiers on the stack of calls, oldest first.\<close>

definition call_ids :: "'v mem \<Rightarrow> 's callsEntry list \<Rightarrow> int list" where
  "call_ids m calls = map (\<lambda>v. node_id (m (ca_entry v))) calls"

text \<open>
  The block under \<^verbatim>\<open>computePartial\<close>.  The variable \<^verbatim>\<open>seq\<close> is fresh in every execution of the
  block, its address is the next free one of the store; it is filled the first time it is needed.
\<close>

fun record_longest_loop ::
    "int list list \<Rightarrow> int list \<Rightarrow> int list \<Rightarrow> nat option list \<times> int list option
       \<Rightarrow> (nat option list \<times> int list option) result" where
  "record_longest_loop seqs ids [] (longest, seq) = Inr (longest, seq)"
| "record_longest_loop seqs ids (i # is) (longest, seq) =
     bindE (int_get longest i) (\<lambda>p.
       if p = None \<or>
          length ids > length (case p of None \<Rightarrow> [] | Some a \<Rightarrow>
            (if a < length seqs then seqs ! a else case seq of None \<Rightarrow> [] | Some q \<Rightarrow> q))
       then let seq = (case seq of None \<Rightarrow> Some ids | Some q \<Rightarrow> Some q)
            in bindE (int_set longest i (Some (length seqs))) (\<lambda>longest.
                 record_longest_loop seqs ids is (longest, seq))
       else record_longest_loop seqs ids is (longest, seq))"

definition record_longest ::
    "int list \<Rightarrow> nat option list \<Rightarrow> int list list \<Rightarrow> (nat option list \<times> int list list) result" where
  "record_longest ids longest seqs =
     bindE (record_longest_loop seqs ids ids (longest, None)) (\<lambda>(longest, seq).
       Inr (longest, seqs @ [case seq of None \<Rightarrow> [] | Some q \<Rightarrow> q]))"

definition bindC :: "'a result \<Rightarrow> ('a \<Rightarrow> ('st, 'r) control) \<Rightarrow> ('st, 'r) control" where
  "bindC r f = (case r of Inl e \<Rightarrow> Fail e | Inr x \<Rightarrow> f x)"

lemma bindC_simps [simp]: "bindC (Inl e) f = Fail e" "bindC (Inr x) f = f x"
  by (simp_all add: bindC_def)

text \<open>The branch for a call entry: try to linearize it next.\<close>

definition checkSingle_call ::
    "('v, 's) Model \<Rightarrow> nat \<Rightarrow> ('v, 's) check_state \<Rightarrow> nat \<Rightarrow> nat
       \<Rightarrow> (('v, 's) check_state, check_outcome) control" where
  "checkSingle_call model headEntry st e matching =
     (let m = cs_mem st in
      bindC (Step model (cs_state st) (node_value (m e)) (node_value (m matching))) (\<lambda>(ok, newState).
      if ok then
        bindC (bitset_set (bitset_clone (cs_linearized st)) (go_uint (node_id (m e)))) (\<lambda>newLinearized.
        let newCacheEntry = \<lparr>ce_linearized = newLinearized, ce_state = newState\<rparr> in
        bindC (cacheContains model (cs_cache st) newCacheEntry) (\<lambda>found.
        if \<not> found then
          (let hash = bitset_hash newLinearized;
               cache = (cs_cache st)(hash := cs_cache st hash @ [newCacheEntry]);
               calls = cs_calls st @ [\<lparr>ca_entry = e, ca_state = cs_state st\<rparr>] in
           bindC (bitset_set (cs_linearized st) (go_uint (node_id (m e)))) (\<lambda>linearized.
           bindC (lift m e) (\<lambda>m.
           Next (st\<lparr>cs_mem := m, cs_cache := cache, cs_calls := calls, cs_state := newState,
                    cs_linearized := linearized, cs_entry := node_next (m headEntry)\<rparr>))))
        else Next (st\<lparr>cs_entry := node_next (m e)\<rparr>)))
      else Next (st\<lparr>cs_entry := node_next (m e)\<rparr>)))"

text \<open>The branch for a return entry: give up the last call linearized and try the next one.\<close>

definition checkSingle_return ::
    "bool \<Rightarrow> ('v, 's) check_state \<Rightarrow> (('v, 's) check_state, check_outcome) control" where
  "checkSingle_return computePartial st =
     (if cs_calls st = [] then Done (False, cs_longest st, cs_seqs st)
      else
        bindC (if computePartial
               then record_longest (call_ids (cs_mem st) (cs_calls st)) (cs_longest st) (cs_seqs st)
               else Inr (cs_longest st, cs_seqs st)) (\<lambda>(longest, seqs).
        let callsTop = last (cs_calls st);
            e = ca_entry callsTop in
        bindC (bitset_clear (cs_linearized st) (go_uint (node_id (cs_mem st e)))) (\<lambda>linearized.
        bindC (unlift (cs_mem st) e) (\<lambda>m.
        Next (st\<lparr>cs_mem := m, cs_state := ca_state callsTop, cs_linearized := linearized,
                 cs_calls := butlast (cs_calls st), cs_longest := longest, cs_seqs := seqs,
                 cs_entry := node_next (m e)\<rparr>)))))"

definition checkSingle_body ::
    "('v, 's) Model \<Rightarrow> bool \<Rightarrow> (nat \<Rightarrow> 32 word) \<Rightarrow> nat \<Rightarrow> nat \<Rightarrow> ('v, 's) check_state
       \<Rightarrow> (('v, 's) check_state, check_outcome) control" where
  "checkSingle_body model computePartial kill headEntry n st =
     (if node_next (cs_mem st headEntry) = None then
        Done (True, replicate n (Some (length (cs_seqs st))),
              cs_seqs st @ [call_ids (cs_mem st) (cs_calls st)])
      else if kill (cs_reads st) \<noteq> 0 then Done (False, cs_longest st, cs_seqs st)
      else
        (let st = st\<lparr>cs_reads := Suc (cs_reads st)\<rparr> in
         case cs_entry st of
           None \<Rightarrow> Fail NilDereference
         | Some e \<Rightarrow>
             (case node_match (cs_mem st e) of
                Some matching \<Rightarrow> checkSingle_call model headEntry st e matching
              | None \<Rightarrow> checkSingle_return computePartial st)))"

partial_function (option) checkSingle_loop ::
    "('v, 's) Model \<Rightarrow> bool \<Rightarrow> (nat \<Rightarrow> 32 word) \<Rightarrow> nat \<Rightarrow> nat \<Rightarrow> ('v, 's) check_state
       \<Rightarrow> check_outcome result option" where
  "checkSingle_loop model computePartial kill headEntry n st =
     (case checkSingle_body model computePartial kill headEntry n st of
        Fail e \<Rightarrow> Some (Inl e)
      | Done r \<Rightarrow> Some (Inr r)
      | Next st \<Rightarrow> checkSingle_loop model computePartial kill headEntry n st)"

declare checkSingle_loop.simps [code]

definition checkSingle_init :: "('v, 's) Model \<Rightarrow> 'v heap \<Rightarrow> nat option \<Rightarrow> nat \<Rightarrow> nat \<times> ('v, 's) check_state" where
  "checkSingle_init model h entry n =
     (let (headEntry, h) = alloc h (new_node None None (-1));
          m = insertBefore (mem h) headEntry entry
      in (headEntry,
          \<lparr>cs_mem = m, cs_entry = entry, cs_linearized = newBitset n, cs_cache = (\<lambda>_. []),
           cs_calls = [], cs_longest = replicate n None, cs_seqs = [], cs_state = Init model (),
           cs_reads = 0\<rparr>))"

text \<open>
  What precedes the loop, and the whole of \<^verbatim>\<open>checkSingle\<close>.  The number of operations is half the
  length of the list; measuring that length is itself a loop over the nodes.
\<close>

definition checkSingle_start ::
    "('v, 's) Model \<Rightarrow> 'v entry list \<Rightarrow> (nat \<times> nat \<times> ('v, 's) check_state) option" where
  "checkSingle_start model history =
     (let (h, entry) = makeLinkedEntries history in
      map_option (\<lambda>l.
        let n = l div 2;
            (headEntry, st) = checkSingle_init model h entry n
        in (headEntry, n, st)) (node_length (mem h) entry))"

definition checkSingle ::
    "('v, 's) Model \<Rightarrow> 'v entry list \<Rightarrow> bool \<Rightarrow> (nat \<Rightarrow> 32 word) \<Rightarrow> check_outcome result option" where
  "checkSingle model history computePartial kill =
     (case checkSingle_start model history of
        None \<Rightarrow> None
      | Some (headEntry, n, st) \<Rightarrow> checkSingle_loop model computePartial kill headEntry n st)"

end
