(* ===== verification/Linearizability.thy ===== *)
theory Linearizability
  imports Linked_Entries
begin

text \<open>
  What the checker decides.  A history of call and return entries is linearizable for a model when
  its operations can be put in an order that respects real time (an operation that returned before
  another was called comes first) and that the model accepts step by step.  The definitions speak
  of entries and operation identifiers only; nothing in them mentions the search.
\<close>

section \<open>Linearizability\<close>

definition is_call_of :: "int \<Rightarrow> 'v entry \<Rightarrow> bool" where
  "is_call_of i e \<longleftrightarrow> entry_kind e = callEntry \<and> entry_id e = i"

definition is_ret_of :: "int \<Rightarrow> 'v entry \<Rightarrow> bool" where
  "is_ret_of i e \<longleftrightarrow> entry_kind e = returnEntry \<and> entry_id e = i"

definition op_ids :: "'v entry list \<Rightarrow> int set" where
  "op_ids es = entry_id ` {e \<in> set es. entry_kind e = callEntry}"

definition value_of :: "('v entry \<Rightarrow> bool) \<Rightarrow> 'v entry list \<Rightarrow> 'v iface" where
  "value_of p es = (case find p es of None \<Rightarrow> None | Some e \<Rightarrow> entry_value e)"

definition call_value :: "'v entry list \<Rightarrow> int \<Rightarrow> 'v iface" where
  "call_value es i = value_of (is_call_of i) es"

definition ret_value :: "'v entry list \<Rightarrow> int \<Rightarrow> 'v iface" where
  "ret_value es i = value_of (is_ret_of i) es"

text \<open>Operation \<open>j\<close> returned before operation \<open>i\<close> was called.\<close>

definition precedes :: "'v entry list \<Rightarrow> int \<Rightarrow> int \<Rightarrow> bool" where
  "precedes es j i \<longleftrightarrow>
     (\<exists>p q. p < q \<and> q < length es \<and> is_ret_of j (es ! p) \<and> is_call_of i (es ! q))"

definition op_step :: "('v, 's) Model \<Rightarrow> 'v entry list \<Rightarrow> 's \<Rightarrow> int \<Rightarrow> (bool \<times> 's) result" where
  "op_step model es s i = Step model s (call_value es i) (ret_value es i)"

fun legal :: "('v, 's) Model \<Rightarrow> 'v entry list \<Rightarrow> 's \<Rightarrow> int list \<Rightarrow> bool" where
  "legal model es s [] \<longleftrightarrow> True"
| "legal model es s (i # \<sigma>) \<longleftrightarrow>
     (case op_step model es s i of Inr (ok, s') \<Rightarrow> ok \<and> legal model es s' \<sigma> | Inl _ \<Rightarrow> False)"

definition linearization :: "('v, 's) Model \<Rightarrow> 'v entry list \<Rightarrow> int list \<Rightarrow> bool" where
  "linearization model es \<sigma> \<longleftrightarrow>
     distinct \<sigma> \<and> set \<sigma> = op_ids es \<and> sorted_wrt (\<lambda>i j. \<not> precedes es j i) \<sigma> \<and>
     legal model es (Init model ()) \<sigma>"

definition linearizable :: "('v, 's) Model \<Rightarrow> 'v entry list \<Rightarrow> bool" where
  "linearizable model es \<longleftrightarrow> (\<exists>\<sigma>. linearization model es \<sigma>)"

text \<open>
  A partial linearization: the same for a set of operations that is closed under real-time
  precedence.
\<close>

definition partial_linearization :: "('v, 's) Model \<Rightarrow> 'v entry list \<Rightarrow> int list \<Rightarrow> bool" where
  "partial_linearization model es \<sigma> \<longleftrightarrow>
     distinct \<sigma> \<and> set \<sigma> \<subseteq> op_ids es \<and> sorted_wrt (\<lambda>i j. \<not> precedes es j i) \<sigma> \<and>
     (\<forall>i \<in> set \<sigma>. \<forall>j \<in> op_ids es - set \<sigma>. \<not> precedes es j i) \<and>
     legal model es (Init model ()) \<sigma>"

section \<open>Well-formed histories and models\<close>

text \<open>
  Every identifier below the number of operations has exactly one call and one return, the call
  first; the length is one a Go slice can have.
\<close>

definition wf_history :: "'v entry list \<Rightarrow> bool" where
  "wf_history es \<longleftrightarrow>
     (let ids = map int [0..<length es div 2] in
      length es < 2 ^ 63 \<and>
      distinct (map entry_id (filter (\<lambda>e. entry_kind e = callEntry) es)) \<and>
      distinct (map entry_id (filter (\<lambda>e. entry_kind e = returnEntry) es)) \<and>
      set (map entry_id (filter (\<lambda>e. entry_kind e = callEntry) es)) = set ids \<and>
      set (map entry_id (filter (\<lambda>e. entry_kind e = returnEntry) es)) = set ids \<and>
      (\<forall>q < length es. entry_kind (es ! q) = returnEntry \<longrightarrow>
         (\<exists>p < q. is_call_of (entry_id (es ! q)) (es ! p))))"

text \<open>The model's step function does not panic on the values of the history.\<close>

definition step_safe :: "('v, 's) Model \<Rightarrow> 'v entry list \<Rightarrow> bool" where
  "step_safe model es \<longleftrightarrow> (\<forall>i \<in> op_ids es. \<forall>s. \<exists>x. op_step model es s i = Inr x)"

text \<open>
  The model's equality only identifies states of which the first allows whatever the second does;
  equality of states is one such relation.
\<close>

definition equal_sound :: "('v, 's) Model \<Rightarrow> bool" where
  "equal_sound model \<longleftrightarrow> (\<exists>eq. Equal model = Some eq \<and>
     (\<forall>s t v w s'. eq s t \<longrightarrow> Step model s v w = Inr (True, s') \<longrightarrow>
        (\<exists>t'. Step model t v w = Inr (True, t') \<and> eq s' t')))"

lemma equal_sound_ShallowEqual: "Equal model = Some ShallowEqual \<Longrightarrow> equal_sound model"
  by (auto simp: equal_sound_def ShallowEqual_def)

section \<open>Completions of a partial linearization\<close>

text \<open>
  \<open>completes model es S s \<sigma>\<close>: when the operations \<open>S\<close> have been linearized and led to state \<open>s\<close>,
  the remaining ones can follow in the order \<open>\<sigma>\<close>.
\<close>

definition completes :: "('v, 's) Model \<Rightarrow> 'v entry list \<Rightarrow> int set \<Rightarrow> 's \<Rightarrow> int list \<Rightarrow> bool" where
  "completes model es S s \<sigma> \<longleftrightarrow>
     distinct \<sigma> \<and> set \<sigma> = op_ids es - S \<and> sorted_wrt (\<lambda>i j. \<not> precedes es j i) \<sigma> \<and>
     legal model es s \<sigma>"

definition dead :: "('v, 's) Model \<Rightarrow> 'v entry list \<Rightarrow> int set \<Rightarrow> 's \<Rightarrow> bool" where
  "dead model es S s \<longleftrightarrow> (\<nexists>\<sigma>. completes model es S s \<sigma>)"

lemma linearizable_not_dead: "linearizable model es \<longleftrightarrow> \<not> dead model es {} (Init model ())"
  by (auto simp: linearizable_def linearization_def dead_def completes_def)

lemma completes_Nil: "completes model es S s [] \<longleftrightarrow> op_ids es \<subseteq> S"
  by (auto simp: completes_def)

lemma completes_Cons:
  assumes "\<not> precedes es i i"
  shows "completes model es S s (i # \<sigma>) \<longleftrightarrow>
     i \<in> op_ids es - S \<and> (\<forall>j \<in> op_ids es - S. \<not> precedes es j i) \<and>
     (\<exists>s'. op_step model es s i = Inr (True, s') \<and> completes model es (insert i S) s' \<sigma>)"
proof -
  have "set (i # \<sigma>) = op_ids es - S \<and> distinct (i # \<sigma>) \<longleftrightarrow>
      i \<in> op_ids es - S \<and> set \<sigma> = op_ids es - insert i S \<and> distinct \<sigma>"
    by auto
  moreover have "set \<sigma> = op_ids es - insert i S \<Longrightarrow>
      (\<forall>j \<in> set \<sigma>. \<not> precedes es j i) \<longleftrightarrow> (\<forall>j \<in> op_ids es - S. \<not> precedes es j i)"
    using assms by auto
  ultimately show ?thesis
    by (auto simp: completes_def split: sum.splits)
qed

text \<open>A state the model's equality accepts in place of another has the other's completions.\<close>

lemma legal_simulated:
  assumes sim: "\<And>s t v w s'. eq s t \<Longrightarrow> Step model s v w = Inr (True, s') \<Longrightarrow>
      \<exists>t'. Step model t v w = Inr (True, t') \<and> eq s' t'"
  shows "eq s t \<Longrightarrow> legal model es s \<sigma> \<Longrightarrow> legal model es t \<sigma>"
proof (induction \<sigma> arbitrary: s t)
  case (Cons i \<sigma>)
  then obtain s' where s': "op_step model es s i = Inr (True, s')" "legal model es s' \<sigma>"
    by (auto split: sum.splits)
  with Cons.prems sim obtain t' where "op_step model es t i = Inr (True, t')" "eq s' t'"
    unfolding op_step_def by blast
  with s' Cons.IH show ?case by simp
qed simp

lemma dead_simulated:
  assumes "equal_sound model" "Equal model = Some eq" "eq s t" "dead model es S t"
  shows "dead model es S s"
  using assms legal_simulated [of eq model s t es]
  by (auto simp: dead_def completes_def equal_sound_def)

end
