(* ===== verification/Search.thy ===== *)
theory Search
  imports Linearizability
begin

text \<open>
  The search that \<^verbatim>\<open>checkSingle\<close> performs, without its heap, bit set and hash table: a step
  relation over the list of entries still to be linearized (a zipper at the current entry), the
  frames of the calls linearized so far and the configurations visited.  The theory proves, by rule
  induction, that every step shrinks a measure and keeps the invariants from which soundness and
  completeness of the search follow.  Entries are named by their addresses, which decrease along
  the history.
\<close>

section \<open>Entries by address\<close>

definition id_at :: "'v entry list \<Rightarrow> nat \<Rightarrow> int" where
  "id_at es a = entry_id (rev es ! a)"

definition is_call :: "'v entry list \<Rightarrow> nat \<Rightarrow> bool" where
  "is_call es a \<longleftrightarrow> entry_kind (rev es ! a) = callEntry"

lemma ent_at_nth: "a < length es \<Longrightarrow> ent_at es a = Some (rev es ! a)"
  by (induction es) (auto simp: nth_append)

lemma rev_nth_conv: "a < length es \<Longrightarrow> rev es ! a = es ! (length es - 1 - a)"
  by (simp add: rev_nth)

lemma not_call: "\<not> is_call es a \<longleftrightarrow> entry_kind (rev es ! a) = returnEntry"
  by (simp add: is_call_def)

lemma is_call_of_at: "is_call_of i (rev es ! a) \<longleftrightarrow> is_call es a \<and> id_at es a = i"
  by (auto simp: is_call_of_def is_call_def id_at_def)

lemma is_ret_of_at: "is_ret_of i (rev es ! a) \<longleftrightarrow> \<not> is_call es a \<and> id_at es a = i"
  by (auto simp: is_ret_of_def not_call id_at_def)

lemma precedes_at:
  "precedes es j i \<longleftrightarrow> (\<exists>a b. b < a \<and> a < length es \<and> \<not> is_call es a \<and> id_at es a = j \<and>
     is_call es b \<and> id_at es b = i)"
proof
  assume "precedes es j i"
  then obtain p q where pq: "p < q" "q < length es" "is_ret_of j (es ! p)" "is_call_of i (es ! q)"
    by (auto simp: precedes_def)
  let ?a = "length es - 1 - p" and ?b = "length es - 1 - q"
  have "rev es ! ?a = es ! p" "rev es ! ?b = es ! q" using pq by (auto simp: rev_nth)
  then have "\<not> is_call es ?a" "id_at es ?a = j" "is_call es ?b" "id_at es ?b = i"
    using pq is_call_of_at [of i es ?b] is_ret_of_at [of j es ?a] by auto
  moreover have "?b < ?a" "?a < length es" using pq by auto
  ultimately show "\<exists>a b. b < a \<and> a < length es \<and> \<not> is_call es a \<and> id_at es a = j \<and>
     is_call es b \<and> id_at es b = i" by blast
next
  assume "\<exists>a b. b < a \<and> a < length es \<and> \<not> is_call es a \<and> id_at es a = j \<and>
     is_call es b \<and> id_at es b = i"
  then obtain a b where ab: "b < a" "a < length es" "\<not> is_call es a" "id_at es a = j"
     "is_call es b" "id_at es b = i" by blast
  then have "is_ret_of j (es ! (length es - 1 - a))" "is_call_of i (es ! (length es - 1 - b))"
    using is_call_of_at [of i es b] is_ret_of_at [of j es a] by (auto simp: rev_nth)
  moreover have "length es - 1 - a < length es - 1 - b" "length es - 1 - b < length es"
    using ab by auto
  ultimately show "precedes es j i" unfolding precedes_def by blast
qed

lemma op_ids_at: "op_ids es = id_at es ` {a. a < length es \<and> is_call es a}"
proof -
  have "set es = (\<lambda>a. rev es ! a) ` {a. a < length es}"
    by (metis atLeast0LessThan atLeast_upt image_set length_rev lessThan_def map_nth set_rev)
  then show ?thesis by (auto simp: op_ids_def is_call_def id_at_def image_iff)
qed

section \<open>Calls and their returns\<close>

lemma first_ret_props:
  "first_ret i es = Some b \<Longrightarrow> b < length es \<and> is_ret_of i (rev es ! b)"
  by (induction es) (auto simp: nth_append is_ret_of_def split: if_splits)

lemma first_ret_None: "first_ret i es = None \<longleftrightarrow> (\<forall>b < length es. \<not> is_ret_of i (rev es ! b))"
  by (induction es) (auto simp: nth_append is_ret_of_def less_Suc_eq)

lemma match_at_props:
  "match_at es a = Some b \<Longrightarrow>
     a < length es \<and> b < a \<and> is_call es a \<and> is_ret_of (id_at es a) (rev es ! b)"
proof (induction es)
  case (Cons e es)
  show ?case
  proof (cases "a = length es")
    case True
    then have e: "first_ret (entry_id e) es = Some b" "entry_kind e = callEntry"
      using Cons.prems by (auto split: if_splits)
    then show ?thesis using True first_ret_props [OF e(1)]
      by (auto simp: is_call_def id_at_def nth_append)
  next
    case False
    then have "match_at es a = Some b" using Cons.prems by simp
    then have "a < length es \<and> b < a \<and> is_call es a \<and> is_ret_of (id_at es a) (rev es ! b)"
      by (rule Cons.IH)
    then show ?thesis by (auto simp: is_call_def id_at_def nth_append)
  qed
qed simp

lemma match_at_None:
  "a < length es \<Longrightarrow> match_at es a = None \<longleftrightarrow>
     \<not> is_call es a \<or> (\<forall>b < a. \<not> is_ret_of (id_at es a) (rev es ! b))"
  by (induction es) (auto simp: is_call_def id_at_def nth_append first_ret_None less_Suc_eq)

lemma wf_call_unique:
  assumes "wf_history es" "a < length es" "b < length es" "is_call es a" "is_call es b"
    "id_at es a = id_at es b"
  shows "a = b"
proof -
  have "length es - 1 - a = length es - 1 - b"
    by (rule distinct_map_filter_nth [where xs = es and f = entry_id and P = "\<lambda>e. entry_kind e = callEntry"])
      (use assms in \<open>auto simp: wf_history_def Let_def is_call_def id_at_def rev_nth\<close>)
  then show ?thesis using assms(2,3) by linarith
qed

lemma wf_ret_unique:
  assumes "wf_history es" "a < length es" "b < length es" "\<not> is_call es a" "\<not> is_call es b"
    "id_at es a = id_at es b"
  shows "a = b"
proof -
  have "length es - 1 - a = length es - 1 - b"
    by (rule distinct_map_filter_nth [where xs = es and f = entry_id and P = "\<lambda>e. entry_kind e = returnEntry"])
      (use assms in \<open>auto simp: wf_history_def Let_def not_call id_at_def rev_nth\<close>)
  then show ?thesis using assms(2,3) by linarith
qed

lemma wf_ret_call:
  assumes "wf_history es" "b < length es" "\<not> is_call es b"
  shows "\<exists>a. b < a \<and> a < length es \<and> is_call es a \<and> id_at es a = id_at es b"
proof -
  let ?q = "length es - 1 - b"
  have "?q < length es" "entry_kind (es ! ?q) = returnEntry" "entry_id (es ! ?q) = id_at es b"
    using assms by (auto simp: not_call id_at_def rev_nth)
  then obtain p where p: "p < ?q" "is_call_of (id_at es b) (es ! p)"
    using assms(1) by (auto simp: wf_history_def Let_def)
  then have "rev es ! (length es - 1 - p) = es ! p" by (auto simp: rev_nth)
  then have "is_call es (length es - 1 - p)" "id_at es (length es - 1 - p) = id_at es b"
    using p(2) is_call_of_at [of "id_at es b" es "length es - 1 - p"] by auto
  then show ?thesis using p(1) assms(2) by (intro exI [of _ "length es - 1 - p"]) auto
qed

lemma nth_rev_set: "e \<in> set es \<Longrightarrow> \<exists>a < length es. e = rev es ! a"
  by (metis in_set_conv_nth length_rev set_rev)

lemma wf_ids:
  assumes "wf_history es"
  shows "op_ids es = {0..<int (length es div 2)}"
    and "entry_id ` {e \<in> set es. entry_kind e = returnEntry} = {0..<int (length es div 2)}"
proof -
  have "int ` {0..<n} = {0..<int n}" for n by (rule image_int_atLeastLessThan [of 0, simplified])
  then show "op_ids es = {0..<int (length es div 2)}"
    and "entry_id ` {e \<in> set es. entry_kind e = returnEntry} = {0..<int (length es div 2)}"
    using assms by (auto simp: wf_history_def Let_def op_ids_def)
qed

lemma wf_call_ret:
  assumes "wf_history es" "a < length es" "is_call es a"
  shows "\<exists>b. b < a \<and> match_at es a = Some b \<and> \<not> is_call es b \<and> id_at es b = id_at es a"
proof -
  have "id_at es a \<in> op_ids es" using assms by (auto simp: op_ids_at)
  then have "id_at es a \<in> entry_id ` {e \<in> set es. entry_kind e = returnEntry}"
    by (simp only: wf_ids [OF assms(1)])
  then obtain e where e: "e \<in> set es" "entry_kind e = returnEntry" "entry_id e = id_at es a"
    by auto
  from nth_rev_set [OF e(1)] obtain b where b: "b < length es" "e = rev es ! b" by auto
  then have nb: "\<not> is_call es b" "id_at es b = id_at es a" using e by (auto simp: not_call id_at_def)
  obtain a' where a': "b < a'" "a' < length es" "is_call es a'" "id_at es a' = id_at es b"
    using wf_ret_call [OF assms(1) b(1) nb(1)] by auto
  have "a' = a" using wf_call_unique [OF assms(1) a'(2) assms(2) a'(3) assms(3)] a' nb by simp
  then have "match_at es a \<noteq> None"
    using match_at_None [OF assms(2)] a'(1) nb is_ret_of_at [of "id_at es a" es b] assms(3) by auto
  then obtain b' where b': "match_at es a = Some b'" by auto
  from match_at_props [OF b'] show ?thesis using b' by (auto simp: is_ret_of_at)
qed

lemma wf_id_op:
  assumes "wf_history es" "a < length es"
  shows "id_at es a \<in> op_ids es"
proof (cases "is_call es a")
  case True
  with assms show ?thesis by (auto simp: op_ids_at)
next
  case False
  with wf_ret_call [OF assms] obtain c where "c < length es" "is_call es c" "id_at es c = id_at es a"
    by auto
  then show ?thesis unfolding op_ids_at by (metis (mono_tags, lifting) image_eqI mem_Collect_eq)
qed

lemma wf_not_precedes_self: "wf_history es \<Longrightarrow> \<not> precedes es i i"
proof
  assume wf: "wf_history es" and "precedes es i i"
  then obtain a b where ab: "b < a" "a < length es" "\<not> is_call es a" "is_call es b"
      "id_at es a = id_at es b"
    by (auto simp: precedes_at)
  obtain a' where "a < a'" "a' < length es" "is_call es a'" "id_at es a' = id_at es a"
    using wf_ret_call [OF wf ab(2,3)] by auto
  then show False using wf_call_unique [OF wf, of a' b] ab by auto
qed

lemma wf_call_value:
  assumes "wf_history es" "a < length es" "is_call es a"
  shows "call_value es (id_at es a) = entry_value (rev es ! a)"
proof -
  let ?q = "length es - 1 - a"
  have eq: "rev es ! a = es ! ?q" using assms(2) by (simp add: rev_nth)
  have "find (is_call_of (id_at es a)) es = Some (es ! ?q)"
  proof (rule find_unique_nth)
    fix p assume p: "p < length es" "is_call_of (id_at es a) (es ! p)"
    then have "rev es ! (length es - 1 - p) = es ! p" by (simp add: rev_nth)
    then have "length es - 1 - p = a"
      using p assms is_call_of_at [of "id_at es a" es "length es - 1 - p"]
      by (intro wf_call_unique [OF assms(1)]) auto
    then show "p = ?q" using p assms(2) by auto
  qed (use assms eq is_call_of_at [of "id_at es a" es a] in auto)
  then show ?thesis using eq by (simp add: call_value_def value_of_def)
qed

lemma wf_ret_value:
  assumes "wf_history es" "a < length es" "\<not> is_call es a"
  shows "ret_value es (id_at es a) = entry_value (rev es ! a)"
proof -
  let ?q = "length es - 1 - a"
  have eq: "rev es ! a = es ! ?q" using assms(2) by (simp add: rev_nth)
  have "find (is_ret_of (id_at es a)) es = Some (es ! ?q)"
  proof (rule find_unique_nth)
    fix p assume p: "p < length es" "is_ret_of (id_at es a) (es ! p)"
    then have "rev es ! (length es - 1 - p) = es ! p" by (simp add: rev_nth)
    then have "length es - 1 - p = a"
      using p assms is_ret_of_at [of "id_at es a" es "length es - 1 - p"]
      by (intro wf_ret_unique [OF assms(1)]) auto
    then show "p = ?q" using p assms(2) by auto
  qed (use assms eq is_ret_of_at [of "id_at es a" es a] in auto)
  then show ?thesis using eq by (simp add: ret_value_def value_of_def)
qed

section \<open>The entries still to be linearized\<close>

definition remaining :: "'v entry list \<Rightarrow> int set \<Rightarrow> nat list" where
  "remaining es S = filter (\<lambda>a. id_at es a \<notin> S) (addresses es)"

lemma remaining_set: "a \<in> set (remaining es S) \<longleftrightarrow> a < length es \<and> id_at es a \<notin> S"
  by (auto simp: remaining_def)

lemma remaining_sorted: "sorted_wrt (>) (remaining es S)"
proof -
  have "sorted_wrt (>) (addresses es)" by (simp add: addresses_def sorted_wrt_rev)
  then show ?thesis unfolding remaining_def by (rule sorted_wrt_filter)
qed

lemma remaining_distinct: "distinct (remaining es S)"
  by (simp add: remaining_def)

lemma remaining_insert: "remaining es (insert i S) = filter (\<lambda>a. id_at es a \<noteq> i) (remaining es S)"
  by (auto simp: remaining_def intro!: filter_cong)

lemma remaining_split:
  assumes wf: "wf_history es" and L: "X @ c # Y = remaining es S" and c: "is_call es c"
  obtains B r C where "Y = B @ r # C" "match_at es c = Some r" "\<not> is_call es r"
    "id_at es r = id_at es c" "remaining es (insert (id_at es c) S) = X @ B @ C"
proof -
  have cm: "c \<in> set (remaining es S)" unfolding L [symmetric] by simp
  then have cN: "c < length es" "id_at es c \<notin> S" by (auto simp: remaining_set)
  obtain r where r: "r < c" "match_at es c = Some r" "\<not> is_call es r" "id_at es r = id_at es c"
    using wf_call_ret [OF wf cN(1) c] by auto
  have "r \<in> set (X @ c # Y)" using r cN by (simp add: L remaining_set)
  moreover have "sorted_wrt (>) (X @ c # Y)" unfolding L by (rule remaining_sorted)
  then have "\<forall>x \<in> set X. c < x" by (auto simp: sorted_wrt_append)
  ultimately have "r \<in> set Y" using r(1) by auto
  then obtain B C where Y: "Y = B @ r # C" by (auto simp: in_set_conv_decomp)
  have D: "distinct (X @ c # B @ r # C)" using remaining_distinct [of es S] L Y by simp
  have other: "id_at es a \<noteq> id_at es c" if "a \<in> set (X @ B @ C)" for a
  proof
    assume eq: "id_at es a = id_at es c"
    have "a \<in> set (remaining es S)" using that unfolding L [symmetric] Y by auto
    then have "a < length es" by (simp add: remaining_set)
    then have "a = c \<or> a = r"
      using wf_call_unique [OF wf, of a c] wf_ret_unique [OF wf, of a r] eq r c cN by (cases "is_call es a") auto
    then show False using that D by auto
  qed
  have "remaining es (insert (id_at es c) S) = filter (\<lambda>a. id_at es a \<noteq> id_at es c) (X @ c # B @ r # C)"
    by (simp only: remaining_insert L [symmetric] Y)
  also have "\<dots> = X @ B @ C" using other r(4) by (auto simp: filter_id_conv)
  finally show ?thesis using that Y r by blast
qed

section \<open>The step relation\<close>

datatype 's frame =
  Frame (fr_pre: "nat list") (fr_call: nat) (fr_mid: "nat list") (fr_ret: nat)
    (fr_post: "nat list") (fr_state: 's)

record 's search =
  s_pre :: "nat list"
  s_suf :: "nat list"
  s_frames :: "'s frame list"
  s_state :: 's
  s_cache :: "(int set \<times> 's) list"

definition frame_ids :: "'v entry list \<Rightarrow> 's frame list \<Rightarrow> int set" where
  "frame_ids es fs = (id_at es \<circ> fr_call) ` set fs"

lemma frame_ids_simps [simp]:
  "frame_ids es [] = {}"
  "frame_ids es (f # fs) = insert (id_at es (fr_call f)) (frame_ids es fs)"
  by (simp_all add: frame_ids_def)

inductive search_step ::
    "('v, 's) Model \<Rightarrow> 'v entry list \<Rightarrow> ('s \<Rightarrow> 's \<Rightarrow> bool) \<Rightarrow> 's search \<Rightarrow> 's search \<Rightarrow> bool"
  for model es eq where
  reject: "s_suf a = c # ys \<Longrightarrow> is_call es c \<Longrightarrow> op_step model es (s_state a) (id_at es c) = Inr (False, s')
     \<Longrightarrow> search_step model es eq a (a\<lparr>s_pre := s_pre a @ [c], s_suf := ys\<rparr>)"
| cached: "s_suf a = c # ys \<Longrightarrow> is_call es c \<Longrightarrow> op_step model es (s_state a) (id_at es c) = Inr (True, s')
     \<Longrightarrow> (insert (id_at es c) (frame_ids es (s_frames a)), t) \<in> set (s_cache a) \<Longrightarrow> eq s' t
     \<Longrightarrow> search_step model es eq a (a\<lparr>s_pre := s_pre a @ [c], s_suf := ys\<rparr>)"
| push: "s_suf a = c # B @ r # C \<Longrightarrow> is_call es c \<Longrightarrow> match_at es c = Some r
     \<Longrightarrow> op_step model es (s_state a) (id_at es c) = Inr (True, s')
     \<Longrightarrow> search_step model es eq a
           (a\<lparr>s_pre := [], s_suf := s_pre a @ B @ C, s_state := s',
              s_frames := Frame (s_pre a) c B r C (s_state a) # s_frames a,
              s_cache := s_cache a @ [(insert (id_at es c) (frame_ids es (s_frames a)), s')]\<rparr>)"
| pop: "s_suf a = x # ys \<Longrightarrow> \<not> is_call es x \<Longrightarrow> s_frames a = Frame A c B r C t # fs
     \<Longrightarrow> search_step model es eq a
           (a\<lparr>s_pre := A @ [c], s_suf := B @ r # C, s_state := t, s_frames := fs\<rparr>)"

text \<open>The frames record a path of accepted steps from the initial state.\<close>

fun frames_wf :: "('v, 's) Model \<Rightarrow> 'v entry list \<Rightarrow> 's frame list \<Rightarrow> 's \<Rightarrow> bool" where
  "frames_wf model es [] s \<longleftrightarrow> s = Init model ()"
| "frames_wf model es (Frame A c B r C t # fs) s \<longleftrightarrow>
     A @ c # B @ r # C = remaining es (frame_ids es fs) \<and> match_at es c = Some r \<and>
     list_all (is_call es) A \<and> op_step model es t (id_at es c) = Inr (True, s) \<and>
     frames_wf model es fs t"

definition search_wf :: "('v, 's) Model \<Rightarrow> 'v entry list \<Rightarrow> 's search \<Rightarrow> bool" where
  "search_wf model es a \<longleftrightarrow>
     s_pre a @ s_suf a = remaining es (frame_ids es (s_frames a)) \<and>
     list_all (is_call es) (s_pre a) \<and> frames_wf model es (s_frames a) (s_state a)"

lemma search_step_wf:
  assumes wf: "wf_history es" and "search_step model es eq a b" "search_wf model es a"
  shows "search_wf model es b"
  using assms(2,3)
proof (induction rule: search_step.induct)
  case (push a c B r C s')
  have L: "s_pre a @ c # (B @ r # C) = remaining es (frame_ids es (s_frames a))"
    using push by (simp add: search_wf_def)
  obtain B' C' where "B @ r # C = B' @ r # C'" "remaining es (insert (id_at es c) (frame_ids es (s_frames a))) = s_pre a @ B' @ C'"
    using remaining_split [OF wf L push(2)] push(3) by (metis option.inject)
  moreover have "distinct (B @ r # C)" using remaining_distinct [of es "frame_ids es (s_frames a)"] L
    by (metis distinct_append distinct.simps(2))
  ultimately have "B' = B" "C' = C" by (auto simp: append_eq_append_conv2 append_eq_Cons_conv Cons_eq_append_conv)
  then show ?case using push L \<open>remaining es (insert _ _) = _\<close> by (simp add: search_wf_def)
next
  case (pop a x ys A c B r C t fs)
  then show ?case using match_at_props [of es c r] by (auto simp: search_wf_def)
qed (auto simp: search_wf_def)

text \<open>The current entry is \<^verbatim>\<open>nil\<close> only when everything has been linearized.\<close>

lemma search_wf_no_end:
  assumes wf: "wf_history es" and "search_wf model es a" "s_suf a = []"
  shows "s_pre a = []"
proof (rule ccontr)
  assume "s_pre a \<noteq> []"
  then obtain X c where X: "s_pre a = X @ [c]" by (cases "s_pre a" rule: rev_cases) auto
  have "X @ c # [] = remaining es (frame_ids es (s_frames a))" "is_call es c"
    using assms X by (auto simp: search_wf_def)
  then show False using remaining_split [OF wf] by (metis Nil_is_append_conv list.discI)
qed

section \<open>Termination\<close>

text \<open>
  \<open>search_cost l\<close> bounds the iterations spent below a configuration with \<open>l\<close> entries left: each of
  them is looked at once, and each may open a configuration with two entries less.
\<close>

fun search_cost :: "nat \<Rightarrow> nat" where
  "search_cost 0 = 1"
| "search_cost (Suc 0) = 3"
| "search_cost (Suc (Suc l)) = Suc (Suc l) * (search_cost l + 1) + 1"

definition frame_measure :: "'s frame \<Rightarrow> nat" where
  "frame_measure f =
     (length (fr_mid f) + 1 + length (fr_post f)) *
       (search_cost (length (fr_pre f) + length (fr_mid f) + length (fr_post f)) + 1) + 1"

definition search_measure :: "'s search \<Rightarrow> nat" where
  "search_measure a =
     length (s_suf a) * (search_cost (length (s_pre a) + length (s_suf a) - 2) + 1) +
     (\<Sum>f\<leftarrow>s_frames a. frame_measure f)"

lemma search_cost_less: "l * (search_cost (l - 2) + 1) + 1 < search_cost l + 1"
  by (induction l rule: search_cost.induct) auto

lemma search_step_measure:
  assumes "search_step model es eq a b"
  shows "search_measure b < search_measure a"
  using assms
proof (induction rule: search_step.induct)
  case (push a c B r C s')
  let ?l = "length (s_pre a) + length B + length C"
  have "length (s_pre a) + (length B + length C) = ?l" by simp
  then show ?case using push search_cost_less [of ?l]
    by (simp add: search_measure_def frame_measure_def algebra_simps)
next
  case (pop a x ys A c B r C t fs)
  then show ?case by (simp add: search_measure_def frame_measure_def add.assoc)
qed (simp_all add: search_measure_def)

section \<open>Soundness\<close>

fun leads :: "('v, 's) Model \<Rightarrow> 'v entry list \<Rightarrow> 's \<Rightarrow> int list \<Rightarrow> 's \<Rightarrow> bool" where
  "leads model es s [] t \<longleftrightarrow> s = t"
| "leads model es s (i # \<sigma>) t \<longleftrightarrow> (\<exists>s'. op_step model es s i = Inr (True, s') \<and> leads model es s' \<sigma> t)"

lemma leads_append: "leads model es s (\<sigma> @ \<tau>) t \<longleftrightarrow> (\<exists>u. leads model es s \<sigma> u \<and> leads model es u \<tau> t)"
  by (induction \<sigma> arbitrary: s) auto

lemma leads_legal: "leads model es s \<sigma> t \<Longrightarrow> legal model es s \<sigma>"
  by (induction \<sigma> arbitrary: s) auto

text \<open>An entry reached past calls only is a call of an operation that nothing left precedes.\<close>

lemma candidate:
  assumes wf: "wf_history es" and L: "X @ c # Y = remaining es S" and X: "list_all (is_call es) X"
    and c: "is_call es c" and j: "j \<in> op_ids es - S"
  shows "\<not> precedes es j (id_at es c)"
proof
  assume "precedes es j (id_at es c)"
  then obtain a b where ab: "b < a" "a < length es" "\<not> is_call es a" "id_at es a = j" "is_call es b"
      "id_at es b = id_at es c"
    by (auto simp: precedes_at)
  have "c \<in> set (remaining es S)" unfolding L [symmetric] by simp
  then have "b = c" using wf_call_unique [OF wf, of b c] ab c by (auto simp: remaining_set)
  have "a \<in> set (X @ c # Y)" using ab j by (simp add: L remaining_set)
  moreover have "sorted_wrt (>) (X @ c # Y)" unfolding L by (rule remaining_sorted)
  ultimately have "a \<in> set X" using ab \<open>b = c\<close> c by (auto simp: sorted_wrt_append)
  then show False using X ab by (auto simp: list_all_iff)
qed

definition path_ids :: "'v entry list \<Rightarrow> 's frame list \<Rightarrow> int list" where
  "path_ids es fs = rev (map (id_at es \<circ> fr_call) fs)"

lemma path_ids_simps [simp]:
  "path_ids es [] = []"
  "path_ids es (f # fs) = path_ids es fs @ [id_at es (fr_call f)]"
  "set (path_ids es fs) = frame_ids es fs"
  by (auto simp: path_ids_def frame_ids_def)

lemma frames_partial:
  assumes wf: "wf_history es"
  shows "frames_wf model es fs s \<Longrightarrow>
    partial_linearization model es (path_ids es fs) \<and> leads model es (Init model ()) (path_ids es fs) s"
proof (induction fs arbitrary: s)
  case Nil
  then show ?case by (simp add: partial_linearization_def)
next
  case (Cons f fs)
  obtain A c B r C t where f: "f = Frame A c B r C t" by (cases f)
  have L: "A @ c # (B @ r # C) = remaining es (frame_ids es fs)" and A: "list_all (is_call es) A"
    and c: "is_call es c" and st: "op_step model es t (id_at es c) = Inr (True, s)"
    and fw: "frames_wf model es fs t"
    using Cons.prems match_at_props [of es c r] by (auto simp: f)
  have IH: "partial_linearization model es (path_ids es fs)"
    "leads model es (Init model ()) (path_ids es fs) t" using Cons.IH [OF fw] by auto
  have "c \<in> set (remaining es (frame_ids es fs))" unfolding L [symmetric] by simp
  then have k: "id_at es c \<in> op_ids es - frame_ids es fs"
    using wf_id_op [OF wf, of c] by (simp add: remaining_set)
  have cand: "\<forall>j \<in> op_ids es - frame_ids es fs. \<not> precedes es j (id_at es c)"
    using candidate [OF wf L A c] by blast
  have "leads model es (Init model ()) (path_ids es (f # fs)) s"
    using IH(2) st by (auto simp: f leads_append)
  moreover have "partial_linearization model es (path_ids es (f # fs))"
    using IH k cand leads_legal [OF calculation]
    by (auto simp: f partial_linearization_def sorted_wrt_append)
  ultimately show ?case by blast
qed

lemma search_sound:
  assumes wf: "wf_history es" and s: "search_wf model es a" and e: "s_pre a @ s_suf a = []"
  shows "linearization model es (path_ids es (s_frames a))"
proof -
  have "remaining es (frame_ids es (s_frames a)) = []" using s e by (simp add: search_wf_def)
  then have "op_ids es \<subseteq> frame_ids es (s_frames a)"
    using remaining_set [of _ es "frame_ids es (s_frames a)"] by (auto simp: op_ids_at)
  moreover have "partial_linearization model es (path_ids es (s_frames a))"
    using frames_partial [OF wf, of model "s_frames a" "s_state a"] s by (auto simp: search_wf_def)
  ultimately show ?thesis by (auto simp: partial_linearization_def linearization_def)
qed

section \<open>Completeness\<close>

definition tried :: "('v, 's) Model \<Rightarrow> 'v entry list \<Rightarrow> int set \<Rightarrow> 's \<Rightarrow> nat \<Rightarrow> bool" where
  "tried model es S s a \<longleftrightarrow>
     (\<forall>s'. op_step model es s (id_at es a) = Inr (True, s') \<longrightarrow> dead model es (insert (id_at es a) S) s')"

fun frames_tried :: "('v, 's) Model \<Rightarrow> 'v entry list \<Rightarrow> 's frame list \<Rightarrow> bool" where
  "frames_tried model es [] \<longleftrightarrow> True"
| "frames_tried model es (Frame A c B r C t # fs) \<longleftrightarrow>
     (\<forall>a \<in> set A. tried model es (frame_ids es fs) t a) \<and> frames_tried model es fs"

fun path_configs :: "'v entry list \<Rightarrow> 's frame list \<Rightarrow> 's \<Rightarrow> (int set \<times> 's) list" where
  "path_configs es [] s = []"
| "path_configs es (f # fs) s = (frame_ids es (f # fs), s) # path_configs es fs (fr_state f)"

definition search_complete :: "('v, 's) Model \<Rightarrow> 'v entry list \<Rightarrow> 's search \<Rightarrow> bool" where
  "search_complete model es a \<longleftrightarrow>
     (\<forall>x \<in> set (s_pre a). tried model es (frame_ids es (s_frames a)) (s_state a) x) \<and>
     frames_tried model es (s_frames a) \<and>
     (\<forall>(S, t) \<in> set (s_cache a).
        dead model es S t \<or> (S, t) \<in> set (path_configs es (s_frames a) (s_state a)))"

lemma path_configs_subset: "(S, t) \<in> set (path_configs es fs s) \<Longrightarrow> S \<subseteq> frame_ids es fs"
  by (induction es fs s rule: path_configs.induct) auto

text \<open>Once every candidate has been tried, the configuration has no completion.\<close>

lemma exhausted_dead:
  assumes wf: "wf_history es" and s: "search_wf model es a" and f: "s_suf a = x # ys"
    and x: "\<not> is_call es x"
    and t: "\<forall>c \<in> set (s_pre a). tried model es (frame_ids es (s_frames a)) (s_state a) c"
  shows "dead model es (frame_ids es (s_frames a)) (s_state a)"
  unfolding dead_def
proof
  let ?S = "frame_ids es (s_frames a)"
  have L: "s_pre a @ x # ys = remaining es ?S" using s f by (simp add: search_wf_def)
  have "x \<in> set (remaining es ?S)" unfolding L [symmetric] by simp
  then have xo: "x < length es" "id_at es x \<in> op_ids es - ?S"
    using wf_id_op [OF wf, of x] by (auto simp: remaining_set)
  assume "\<exists>\<sigma>. completes model es ?S (s_state a) \<sigma>"
  then obtain \<sigma> where \<sigma>: "completes model es ?S (s_state a) \<sigma>" by blast
  show False
  proof (cases \<sigma>)
    case Nil
    then show False using \<sigma> xo by (auto simp: completes_Nil)
  next
    case (Cons i \<tau>)
    with \<sigma> obtain s' where i: "i \<in> op_ids es - ?S" "\<forall>j \<in> op_ids es - ?S. \<not> precedes es j i"
        "op_step model es (s_state a) i = Inr (True, s')" "completes model es (insert i ?S) s' \<tau>"
      using completes_Cons [OF wf_not_precedes_self [OF wf]] by metis
    then obtain b where b: "b < length es" "is_call es b" "id_at es b = i" by (auto simp: op_ids_at)
    then have "b \<in> set (s_pre a @ x # ys)" using i(1) by (simp add: L remaining_set)
    moreover have "b \<noteq> x" using b x by auto
    moreover have "b \<notin> set (s_pre a)" using t b i by (auto simp: tried_def dead_def)
    ultimately have "b \<in> set ys" by auto
    moreover have "sorted_wrt (>) (s_pre a @ x # ys)" unfolding L by (rule remaining_sorted)
    ultimately have "b < x" by (auto simp: sorted_wrt_append)
    then have "precedes es (id_at es x) i" using b x xo(1) by (auto simp: precedes_at)
    then show False using i(2) xo(2) by blast
  qed
qed

lemma cached_tried:
  assumes s: "search_wf model es a" and k: "search_complete model es a"
    and e: "equal_sound model" "Equal model = Some eq"
    and c: "s_suf a = c # ys" "op_step model es (s_state a) (id_at es c) = Inr (True, s')"
      "(insert (id_at es c) (frame_ids es (s_frames a)), t) \<in> set (s_cache a)" "eq s' t"
  shows "tried model es (frame_ids es (s_frames a)) (s_state a) c"
proof -
  have "c \<in> set (remaining es (frame_ids es (s_frames a)))"
    using s c(1) by (auto simp: search_wf_def) (metis in_set_conv_decomp)
  then have "id_at es c \<notin> frame_ids es (s_frames a)" by (simp add: remaining_set)
  then have "(insert (id_at es c) (frame_ids es (s_frames a)), t)
      \<notin> set (path_configs es (s_frames a) (s_state a))"
    using path_configs_subset by fastforce
  then have "dead model es (insert (id_at es c) (frame_ids es (s_frames a))) t"
    using k c(3) by (auto simp: search_complete_def)
  then show ?thesis using dead_simulated [OF e c(4)] c(2) by (auto simp: tried_def)
qed

lemma search_step_complete:
  assumes wf: "wf_history es" and e: "equal_sound model" "Equal model = Some eq"
    and "search_step model es eq a b" "search_wf model es a" "search_complete model es a"
  shows "search_complete model es b"
  using assms(4-)
proof (induction rule: search_step.induct)
  case (reject a c ys s')
  then show ?case by (auto simp: search_complete_def tried_def)
next
  case (cached a c ys s' t)
  then have "tried model es (frame_ids es (s_frames a)) (s_state a) c"
    by (intro cached_tried [OF cached(6,7) e cached(1,3,4,5)])
  then show ?case using cached by (auto simp: search_complete_def)
next
  case (push a c B r C s')
  then show ?case by (auto simp: search_complete_def)
next
  case (pop a x ys A c B r C t fs)
  have "dead model es (frame_ids es (s_frames a)) (s_state a)"
    by (rule exhausted_dead [OF wf pop(4,1,2)]) (use pop in \<open>simp add: search_complete_def\<close>)
  then show ?case using pop by (auto simp: search_complete_def search_wf_def tried_def)
qed

lemma search_refutes:
  assumes "wf_history es" "search_wf model es a" "search_complete model es a"
    "s_suf a = x # ys" "\<not> is_call es x" "s_frames a = []"
  shows "\<not> linearizable model es"
  using exhausted_dead [OF assms(1,2,4,5)] assms(2,3,6)
  by (simp add: search_complete_def search_wf_def linearizable_not_dead)

end
