(* ===== verification/Checker_Correct.thy ===== *)
theory Checker_Correct
  imports Checker Search
begin

text \<open>
  \<^verbatim>\<open>checkSingle\<close> refines the search of theory \<open>Search\<close>: one iteration of the loop over the heap, the
  bit set and the hash table is one step of the search, and the loop's results are its final
  states.  Termination, soundness and completeness of \<^verbatim>\<open>checkSingle\<close> follow.
\<close>

section \<open>The bookkeeping of longest partial linearizations\<close>

definition longest_ok ::
    "('v, 's) Model \<Rightarrow> 'v entry list \<Rightarrow> nat option list \<Rightarrow> int list list \<Rightarrow> bool" where
  "longest_ok model es longest seqs \<longleftrightarrow>
     length longest = length es div 2 \<and>
     (\<forall>k < length longest. \<forall>p. longest ! k = Some p \<longrightarrow>
        p < length seqs \<and> int k \<in> set (seqs ! p) \<and> partial_linearization model es (seqs ! p))"

lemma longest_ok_new: "longest_ok model es (replicate (length es div 2) None) []"
  by (simp add: longest_ok_def)

lemma record_longest_loop_ok:
  assumes "\<forall>i \<in> set is. 0 \<le> i \<and> i < int (length longest)" "seq = None \<or> seq = Some ids"
  shows "\<exists>longest' seq'. record_longest_loop seqs ids is (longest, seq) = Inr (longest', seq') \<and>
    length longest' = length longest \<and> (seq' = None \<or> seq' = Some ids) \<and>
    (seq = Some ids \<longrightarrow> seq' = Some ids) \<and>
    (\<forall>k < length longest. longest' ! k = longest ! k \<or>
       longest' ! k = Some (length seqs) \<and> seq' = Some ids \<and> int k \<in> set is)"
  using assms
proof (induction "is" arbitrary: longest seq)
  case (Cons i "is")
  let ?p = "longest ! nat i"
  let ?upd = "?p = None \<or> length (case ?p of None \<Rightarrow> [] | Some a \<Rightarrow>
      (if a < length seqs then seqs ! a else case seq of None \<Rightarrow> [] | Some q \<Rightarrow> q)) < length ids"
  have i: "0 \<le> i" "nat i < length longest" using Cons.prems by auto
  show ?case
  proof (cases ?upd)
    case True
    have s: "(case seq of None \<Rightarrow> Some ids | Some q \<Rightarrow> Some q) = Some ids" using Cons.prems(2) by auto
    have "record_longest_loop seqs ids (i # is) (longest, seq) =
        record_longest_loop seqs ids is (longest[nat i := Some (length seqs)], Some ids)"
      using True i s by simp
    moreover obtain longest' seq' where r:
      "record_longest_loop seqs ids is (longest[nat i := Some (length seqs)], Some ids) = Inr (longest', seq')"
      "length longest' = length longest" "seq' = Some ids"
      "\<forall>k < length longest. longest' ! k = longest[nat i := Some (length seqs)] ! k \<or>
        longest' ! k = Some (length seqs) \<and> seq' = Some ids \<and> int k \<in> set is"
      using Cons.IH [of "longest[nat i := Some (length seqs)]" "Some ids"] Cons.prems(1) by auto
    have "longest' ! k = longest ! k \<or>
        longest' ! k = Some (length seqs) \<and> seq' = Some ids \<and> int k \<in> set (i # is)"
      if "k < length longest" for k
      using r(3,4) that i by (cases "k = nat i") auto
    ultimately show ?thesis using r by simp
  next
    case False
    then have "record_longest_loop seqs ids (i # is) (longest, seq) =
        record_longest_loop seqs ids is (longest, seq)"
      using i by auto
    then show ?thesis using Cons.IH [of longest seq] Cons.prems by fastforce
  qed
qed auto

lemma record_longest_ok:
  assumes l: "longest_ok model es longest seqs" and p: "partial_linearization model es ids"
    and wf: "wf_history es"
  shows "\<exists>longest' seqs'. record_longest ids longest seqs = Inr (longest', seqs') \<and>
    longest_ok model es longest' seqs'"
proof -
  have "set ids \<subseteq> {0..<int (length es div 2)}"
    using p wf_ids(1) [OF wf] by (simp add: partial_linearization_def)
  then have "\<forall>i \<in> set ids. 0 \<le> i \<and> i < int (length longest)" using l by (auto simp: longest_ok_def)
  from record_longest_loop_ok [OF this, of None ids seqs] obtain longest' seq' where
    r: "record_longest_loop seqs ids ids (longest, None) = Inr (longest', seq')"
      "length longest' = length longest"
      "\<forall>k < length longest. longest' ! k = longest ! k \<or>
        longest' ! k = Some (length seqs) \<and> seq' = Some ids \<and> int k \<in> set ids"
    by auto
  let ?seqs = "seqs @ [case seq' of None \<Rightarrow> [] | Some q \<Rightarrow> q]"
  have "longest_ok model es longest' ?seqs"
    unfolding longest_ok_def
  proof (intro conjI allI impI)
    show "length longest' = length es div 2" using l r(2) by (simp add: longest_ok_def)
    fix k q assume k: "k < length longest'" "longest' ! k = Some q"
    have "longest ! k = Some q \<or> q = length seqs \<and> seq' = Some ids \<and> int k \<in> set ids"
      using r(2,3) k by fastforce
    then have "q < length ?seqs \<and> int k \<in> set (?seqs ! q) \<and> partial_linearization model es (?seqs ! q)"
      using l p k r(2) by (auto simp: longest_ok_def nth_append)
    then show "q < length ?seqs" "int k \<in> set (?seqs ! q)" "partial_linearization model es (?seqs ! q)"
      by auto
  qed
  then show ?thesis using r(1) by (simp add: record_longest_def)
qed

section \<open>The simulation relation\<close>

fun parked_frames :: "'v mem \<Rightarrow> nat \<Rightarrow> 's frame list \<Rightarrow> bool" where
  "parked_frames m h0 [] \<longleftrightarrow> True"
| "parked_frames m h0 (Frame A c B r C t # fs) \<longleftrightarrow> parked m (h0 # A) c B r C \<and> parked_frames m h0 fs"

definition frame_call :: "'s frame \<Rightarrow> 's callsEntry" where
  "frame_call f = \<lparr>ca_entry = fr_call f, ca_state = fr_state f\<rparr>"

definition cache_sim :: "'v entry list \<Rightarrow> 's cache \<Rightarrow> (int set \<times> 's) list \<Rightarrow> bool" where
  "cache_sim es cache visited \<longleftrightarrow> (\<forall>h. \<forall>ce \<in> set (cache h).
     bit_capacity (ce_linearized ce) = bit_capacity (newBitset (length es div 2)) \<and>
     (\<exists>S. (S, ce_state ce) \<in> set visited \<and> S \<subseteq> op_ids es \<and> bits_of (ce_linearized ce) = nat ` S))"

definition sim :: "('v, 's) Model \<Rightarrow> 'v entry list \<Rightarrow> ('v, 's) check_state \<Rightarrow> 's search \<Rightarrow> bool" where
  "sim model es st a \<longleftrightarrow>
     represents (cs_mem st) es \<and> links (cs_mem st) (length es # s_pre a @ s_suf a) \<and>
     cs_entry st = head_opt (s_suf a) \<and> parked_frames (cs_mem st) (length es) (s_frames a) \<and>
     cs_calls st = rev (map frame_call (s_frames a)) \<and> cs_state st = s_state a \<and>
     bits_of (cs_linearized st) = nat ` frame_ids es (s_frames a) \<and>
     bit_capacity (cs_linearized st) = bit_capacity (newBitset (length es div 2)) \<and>
     cache_sim es (cs_cache st) (s_cache a) \<and> search_wf model es a \<and>
     longest_ok model es (cs_longest st) (cs_seqs st)"

lemma parked_frames_cong:
  "\<forall>f \<in> set fs. m' (fr_call f) = m (fr_call f) \<and> m' (fr_ret f) = m (fr_ret f) \<Longrightarrow>
   parked_frames m' h0 fs = parked_frames m h0 fs"
  by (induction m h0 fs rule: parked_frames.induct) (auto simp: parked_def)

text \<open>The nodes of the calls linearized so far, and of their returns, are off the list.\<close>

lemma frames_off_list:
  assumes wf: "wf_history es" and "frames_wf model es fs s" "f \<in> set fs"
  shows "fr_call f \<notin> set (remaining es (frame_ids es fs))" "fr_ret f \<notin> set (remaining es (frame_ids es fs))"
    "fr_call f < length es" "fr_ret f < length es"
proof -
  have "fr_call f < length es \<and> fr_ret f < length es \<and> id_at es (fr_ret f) = id_at es (fr_call f)"
    using assms(2,3)
  proof (induction fs arbitrary: s)
    case (Cons g fs)
    then show ?case
      by (cases g) (auto dest!: match_at_props simp: is_ret_of_at)
  qed simp
  moreover have "id_at es (fr_call f) \<in> frame_ids es fs" using assms(3) by (auto simp: frame_ids_def)
  ultimately show "fr_call f \<notin> set (remaining es (frame_ids es fs))"
    "fr_ret f \<notin> set (remaining es (frame_ids es fs))" "fr_call f < length es" "fr_ret f < length es"
    by (auto simp: remaining_set)
qed

lemma parked_frames_off:
  assumes "wf_history es" "frames_wf model es fs s" "off_list xs m m'"
    "set xs \<subseteq> insert (length es) (set (remaining es (frame_ids es fs)))"
  shows "parked_frames m' h0 fs = parked_frames m h0 fs"
proof (rule parked_frames_cong, intro ballI)
  fix f assume f: "f \<in> set fs"
  have "fr_call f \<notin> set xs" "fr_ret f \<notin> set xs"
    using frames_off_list [OF assms(1,2) f] assms(4) by auto
  then show "m' (fr_call f) = m (fr_call f) \<and> m' (fr_ret f) = m (fr_ret f)"
    using assms(3) by (simp add: off_list_def)
qed

lemma sim_node:
  assumes "wf_history es" "sim model es st a" "x \<in> set (s_pre a @ s_suf a)"
  shows "x < length es" "node_match (cs_mem st x) = match_at es x" "node_id (cs_mem st x) = id_at es x"
    "node_value (cs_mem st x) = entry_value (rev es ! x)" "id_at es x \<in> op_ids es"
    "id_at es x \<notin> frame_ids es (s_frames a)"
proof -
  have x: "x < length es \<and> id_at es x \<notin> frame_ids es (s_frames a)"
    using assms by (simp add: sim_def search_wf_def remaining_set del: set_append)
  then show "x < length es" "id_at es x \<notin> frame_ids es (s_frames a)" "id_at es x \<in> op_ids es"
    using wf_id_op [OF assms(1)] by auto
  then show "node_match (cs_mem st x) = match_at es x" "node_id (cs_mem st x) = id_at es x"
    "node_value (cs_mem st x) = entry_value (rev es ! x)"
    using assms(2) by (auto simp: sim_def represents_def ent_at_nth id_at_def)
qed

lemma op_id_uint:
  assumes "wf_history es" "i \<in> op_ids es"
  shows "go_uint i = nat i" "nat i < bit_capacity (newBitset (length es div 2))" "0 \<le> i"
proof -
  have i: "0 \<le> i" "i < int (length es div 2)" using assms wf_ids(1) [OF assms(1)] by auto
  have "length es < 2 ^ 63" using assms(1) by (simp add: wf_history_def Let_def)
  with i show "go_uint i = nat i" by (intro go_uint_small) auto
  from i have "nat i < length es div 2" by linarith
  also have "\<dots> \<le> bit_capacity (newBitset (length es div 2))" by (rule newBitset_capacity)
  finally show "nat i < bit_capacity (newBitset (length es div 2))" .
  show "0 \<le> i" by fact
qed

lemma nat_image_inj:
  assumes "wf_history es" "S \<subseteq> op_ids es" "T \<subseteq> op_ids es" "nat ` S = nat ` T"
  shows "S = T"
proof -
  have "inj_on nat (op_ids es)" using wf_ids(1) [OF assms(1)] by (auto simp: inj_on_def)
  then show ?thesis using assms(2-) by (simp add: inj_on_image_eq_iff)
qed

lemma cacheContains_found:
  assumes "Equal model = Some eq"
  shows "\<exists>b. cacheContains model cache entry = Inr b \<and>
    (b \<longrightarrow> (\<exists>ce \<in> set (cache (bitset_hash (ce_linearized entry))).
       bitset_equals (ce_linearized entry) (ce_linearized ce) \<and> eq (ce_state entry) (ce_state ce)))"
proof -
  have "\<exists>b. cacheContains_loop model elems entry = Inr b \<and> (b \<longrightarrow> (\<exists>ce \<in> set elems.
      bitset_equals (ce_linearized entry) (ce_linearized ce) \<and> eq (ce_state entry) (ce_state ce)))" for elems
    using assms by (induction elems) (auto simp: call_Equal_def)
  then show ?thesis by (simp add: cacheContains_def)
qed

lemma frame_ids_op: "wf_history es \<Longrightarrow> frames_wf model es fs s \<Longrightarrow> frame_ids es fs \<subseteq> op_ids es"
  using frames_partial [of es model fs s] by (auto simp: partial_linearization_def)

section \<open>One iteration of the loop\<close>

definition body_ok ::
    "('v, 's) Model \<Rightarrow> 'v entry list \<Rightarrow> ('s \<Rightarrow> 's \<Rightarrow> bool) \<Rightarrow> (nat \<Rightarrow> 32 word) \<Rightarrow> nat \<Rightarrow> 's search
       \<Rightarrow> (('v, 's) check_state, check_outcome) control \<Rightarrow> bool" where
  "body_ok model es eq kill reads a r \<longleftrightarrow>
     (case r of
        Fail _ \<Rightarrow> False
      | Next st' \<Rightarrow> kill reads = 0 \<and> (\<exists>a'. search_step model es eq a a' \<and> sim model es st' a')
      | Done (ok, longest, seqs) \<Rightarrow> longest_ok model es longest seqs \<and>
          (if ok then s_pre a @ s_suf a = [] \<and>
             (\<forall>p \<in> set longest. \<exists>q. p = Some q \<and> seqs ! q = path_ids es (s_frames a))
           else kill reads \<noteq> 0 \<or>
             (\<exists>x ys. s_suf a = x # ys \<and> \<not> is_call es x \<and> s_frames a = [])))"

lemma sim_advance:
  assumes "sim model es st a" "s_suf a = c # ys" "is_call es c"
  shows "sim model es (st\<lparr>cs_entry := node_next (cs_mem st c)\<rparr>) (a\<lparr>s_pre := s_pre a @ [c], s_suf := ys\<rparr>)"
proof -
  have "links (cs_mem st) ((length es # s_pre a) @ c # ys)" using assms by (simp add: sim_def)
  from links_next [OF this] show ?thesis using assms by (auto simp: sim_def search_wf_def)
qed

lemma sim_call_step:
  assumes wf: "wf_history es" and s: "sim model es st a" "s_suf a = c # ys" "is_call es c"
    and m: "match_at es c = Some r"
  shows "Step model (cs_state st) (node_value (cs_mem st c)) (node_value (cs_mem st r)) =
    op_step model es (s_state a) (id_at es c)"
proof -
  have c: "c < length es" "node_value (cs_mem st c) = entry_value (rev es ! c)"
    using sim_node [OF wf s(1), of c] s(2) by auto
  have r: "r < length es" "\<not> is_call es r" "id_at es r = id_at es c"
    using match_at_props [OF m] by (auto simp: is_ret_of_at)
  then have "node_value (cs_mem st r) = entry_value (rev es ! r)"
    using s(1) by (auto simp: sim_def represents_def ent_at_nth)
  then show ?thesis
    using s(1,3) c r wf_call_value [OF wf c(1) s(3)] wf_ret_value [OF wf r(1,2)]
    by (simp add: op_step_def sim_def)
qed

lemma frame_ids_nat:
  assumes "wf_history es" "S \<subseteq> op_ids es" "i \<in> op_ids es" "i \<notin> S"
  shows "nat ` insert i S - {nat i} = nat ` S"
proof -
  have "inj_on nat (op_ids es)" using wf_ids(1) [OF assms(1)] by (auto simp: inj_on_def)
  then show ?thesis using assms(2-) by (auto simp: inj_on_def)
qed

lemma cache_sim_add:
  assumes "cache_sim es cache visited" "S \<subseteq> op_ids es" "bits_of (ce_linearized ce) = nat ` S"
    "bit_capacity (ce_linearized ce) = bit_capacity (newBitset (length es div 2))"
  shows "cache_sim es (cache(h := cache h @ [ce])) (visited @ [(S, ce_state ce)])"
  unfolding cache_sim_def
proof (intro allI ballI)
  fix h' x assume "x \<in> set ((cache(h := cache h @ [ce])) h')"
  then have "x \<in> set (cache h') \<or> x = ce" by (auto split: if_splits)
  then show "bit_capacity (ce_linearized x) = bit_capacity (newBitset (length es div 2)) \<and>
      (\<exists>T. (T, ce_state x) \<in> set (visited @ [(S, ce_state ce)]) \<and> T \<subseteq> op_ids es \<and>
         bits_of (ce_linearized x) = nat ` T)"
    using assms unfolding cache_sim_def by (metis Un_iff list.set_intros(1) set_append)
qed

lemma sim_push:
  assumes wf: "wf_history es" and s: "sim model es st a" "s_suf a = c # B @ r # C" "is_call es c"
    and m: "match_at es c = Some r" and o: "op_step model es (s_state a) (id_at es c) = Inr (True, s')"
    and b: "bits_of b = insert (nat (id_at es c)) (bits_of (cs_linearized st))"
      "bit_capacity b = bit_capacity (cs_linearized st)"
  shows "\<exists>mm. lift (cs_mem st) c = Inr mm \<and>
    sim model es (st\<lparr>cs_mem := mm, cs_cache := (cs_cache st)(h := cs_cache st h @ [\<lparr>ce_linearized = b, ce_state = s'\<rparr>]),
        cs_calls := cs_calls st @ [\<lparr>ca_entry = c, ca_state = cs_state st\<rparr>], cs_state := s',
        cs_linearized := b, cs_entry := node_next (mm (length es))\<rparr>)
      (a\<lparr>s_pre := [], s_suf := s_pre a @ B @ C, s_state := s',
         s_frames := Frame (s_pre a) c B r C (s_state a) # s_frames a,
         s_cache := s_cache a @ [(insert (id_at es c) (frame_ids es (s_frames a)), s')]\<rparr>)"
proof -
  let ?S = "frame_ids es (s_frames a)"
  have L: "s_pre a @ c # B @ r # C = remaining es ?S" using s by (simp add: sim_def search_wf_def)
  have lk: "links (cs_mem st) ((length es # s_pre a) @ c # B @ r # C)" using s by (simp add: sim_def)
  have lt: "\<forall>x \<in> set (s_pre a @ c # B @ r # C). x < length es" unfolding L by (simp add: remaining_set)
  have D: "distinct ((length es # s_pre a) @ c # B @ r # C)"
    using remaining_distinct [of es ?S] lt unfolding L [symmetric] by auto
  have nm: "node_match (cs_mem st c) = Some r" using sim_node(2) [OF wf s(1), of c] s(2) m by simp
  from lift_ok [OF lk _ D nm] obtain mm where mm: "lift (cs_mem st) c = Inr mm"
      "links mm ((length es # s_pre a) @ B @ C)" "same_static (cs_mem st) mm"
      "off_list ((length es # s_pre a) @ B @ r # C) (cs_mem st) mm"
      "parked mm (length es # s_pre a) c B r C" by auto
  have fw: "frames_wf model es (s_frames a) (s_state a)" using s by (simp add: sim_def search_wf_def)
  have "set ((length es # s_pre a) @ B @ r # C) \<subseteq> insert (length es) (set (remaining es ?S))"
    unfolding L [symmetric] by auto
  then have "parked_frames mm (length es) (s_frames a) = parked_frames (cs_mem st) (length es) (s_frames a)"
    by (rule parked_frames_off [OF wf fw mm(4)])
  moreover have "node_next (mm (length es)) = head_opt (s_pre a @ B @ C)"
    using links_next [of mm "[]" "length es"] mm(2) by simp
  moreover have "search_wf model es (a\<lparr>s_pre := [], s_suf := s_pre a @ B @ C, s_state := s',
         s_frames := Frame (s_pre a) c B r C (s_state a) # s_frames a,
         s_cache := s_cache a @ [(insert (id_at es c) (frame_ids es (s_frames a)), s')]\<rparr>)"
    by (rule search_step_wf [OF wf search_step.push]) (use s m o in \<open>auto simp: sim_def\<close>)
  moreover have "represents mm es" using s(1) mm(3) represents_static by (auto simp: sim_def)
  moreover have "insert (id_at es c) ?S \<subseteq> op_ids es"
    using frame_ids_op [OF wf fw] sim_node(5) [OF wf s(1), of c] s(2) by auto
  then have "cache_sim es ((cs_cache st)(h := cs_cache st h @ [\<lparr>ce_linearized = b, ce_state = s'\<rparr>]))
      (s_cache a @ [(insert (id_at es c) ?S, s')])"
    using cache_sim_add [of es "cs_cache st" "s_cache a" _ "\<lparr>ce_linearized = b, ce_state = s'\<rparr>"] s(1) b
    by (simp add: sim_def)
  ultimately show ?thesis using s(1) mm b by (auto simp: sim_def frame_call_def)
qed

lemma sim_pop:
  assumes wf: "wf_history es" and s: "sim model es st a" "s_frames a = Frame A c B r C t # fs"
    and x: "s_suf a = x # ys" "\<not> is_call es x" and l: "longest_ok model es longest seqs"
    and b: "bits_of b = bits_of (cs_linearized st) - {nat (id_at es c)}"
      "bit_capacity b = bit_capacity (cs_linearized st)"
  shows "\<exists>mm. unlift (cs_mem st) c = Inr mm \<and>
    sim model es (st\<lparr>cs_mem := mm, cs_state := t, cs_linearized := b, cs_calls := butlast (cs_calls st),
        cs_longest := longest, cs_seqs := seqs, cs_entry := node_next (mm c)\<rparr>)
      (a\<lparr>s_pre := A @ [c], s_suf := B @ r # C, s_state := t, s_frames := fs\<rparr>)"
proof -
  let ?S = "frame_ids es fs"
  have fw: "frames_wf model es fs t" and L: "A @ c # (B @ r # C) = remaining es ?S"
    and m: "match_at es c = Some r"
    using s by (auto simp: sim_def search_wf_def)
  have c: "is_call es c" using match_at_props [OF m] by simp
  have lt: "\<forall>y \<in> set (A @ c # B @ r # C). y < length es" unfolding L by (simp add: remaining_set)
  have D: "distinct ((length es # A) @ c # B @ r # C)"
    using remaining_distinct [of es ?S] lt unfolding L [symmetric] by auto
  obtain B' C' where "B @ r # C = B' @ r # C'" "remaining es (insert (id_at es c) ?S) = A @ B' @ C'"
    using remaining_split [OF wf L c] m by (metis option.inject)
  moreover have "B' = B \<and> C' = C" using calculation(1) D
    by (auto simp: append_eq_append_conv2 append_eq_Cons_conv Cons_eq_append_conv)
  ultimately have "s_pre a @ s_suf a = A @ B @ C"
    using s by (simp add: sim_def search_wf_def)
  then have lk: "links (cs_mem st) ((length es # A) @ B @ C)" using s(1) by (simp add: sim_def)
  have cN: "c < length es" using lt by simp
  have nm: "node_match (cs_mem st c) = Some r"
    using s(1) cN m by (auto simp: sim_def represents_def)
  have pk: "parked (cs_mem st) (length es # A) c B r C" using s by (simp add: sim_def)
  from unlift_ok [OF lk _ D nm pk] obtain mm where mm: "unlift (cs_mem st) c = Inr mm"
      "links mm ((length es # A) @ c # B @ r # C)" "same_static (cs_mem st) mm"
      "off_list ((length es # A) @ B @ r # C) (cs_mem st) mm" by auto
  have "set ((length es # A) @ B @ r # C) \<subseteq> insert (length es) (set (remaining es ?S))"
    unfolding L [symmetric] by auto
  then have "parked_frames mm (length es) fs = parked_frames (cs_mem st) (length es) fs"
    by (rule parked_frames_off [OF wf fw mm(4)])
  moreover have "node_next (mm c) = head_opt (B @ r # C)" using links_next [OF mm(2)] .
  moreover have "search_wf model es (a\<lparr>s_pre := A @ [c], s_suf := B @ r # C, s_state := t, s_frames := fs\<rparr>)"
    by (rule search_step_wf [OF wf search_step.pop]) (use s x in \<open>auto simp: sim_def\<close>)
  moreover have "represents mm es" using s(1) mm(3) represents_static by (auto simp: sim_def)
  moreover have "c \<in> set (remaining es ?S)" unfolding L [symmetric] by simp
  then have "bits_of b = nat ` ?S"
    using b s frame_ids_nat [OF wf frame_ids_op [OF wf fw] wf_id_op [OF wf cN]]
    by (simp add: sim_def remaining_set)
  ultimately show ?thesis using s b l mm by (auto simp: sim_def)
qed

lemma cache_simD:
  "cache_sim es cache visited \<Longrightarrow> ce \<in> set (cache h) \<Longrightarrow>
   \<exists>S. (S, ce_state ce) \<in> set visited \<and> S \<subseteq> op_ids es \<and> bits_of (ce_linearized ce) = nat ` S"
  unfolding cache_sim_def by blast

text \<open>A cache hit is a configuration the search has visited.\<close>

lemma cached_step:
  assumes wf: "wf_history es" and eq: "Equal model = Some eq"
    and s: "sim model es st a" "s_suf a = c # ys" "is_call es c"
    and o: "op_step model es (s_state a) (id_at es c) = Inr (True, s')"
    and b: "bits_of b = insert (nat (id_at es c)) (bits_of (cs_linearized st))"
    and f: "cacheContains model (cs_cache st) \<lparr>ce_linearized = b, ce_state = s'\<rparr> = Inr True"
  shows "search_step model es eq a (a\<lparr>s_pre := s_pre a @ [c], s_suf := ys\<rparr>)"
proof -
  let ?S = "frame_ids es (s_frames a)" and ?i = "id_at es c"
  obtain ce where ce: "ce \<in> set (cs_cache st (bitset_hash b))" "b = ce_linearized ce" "eq s' (ce_state ce)"
    using cacheContains_found [OF eq, of "cs_cache st" "\<lparr>ce_linearized = b, ce_state = s'\<rparr>"] f
    by (auto simp: bitset_equals_eq)
  have "cache_sim es (cs_cache st) (s_cache a)" using s(1) by (simp add: sim_def)
  from cache_simD [OF this ce(1)] obtain T where
    T: "(T, ce_state ce) \<in> set (s_cache a)" "T \<subseteq> op_ids es" "bits_of b = nat ` T"
    using ce(2) by auto
  have "insert ?i ?S \<subseteq> op_ids es"
    using sim_node(5) [OF wf s(1), of c] s(2) frame_ids_op [OF wf, of model "s_frames a" "s_state a"] s(1)
    by (auto simp: sim_def search_wf_def)
  moreover have "bits_of b = nat ` insert ?i ?S" using b s(1) by (simp add: sim_def)
  ultimately have "T = insert ?i ?S" using nat_image_inj [OF wf T(2)] T(3) by simp
  then show ?thesis using T(1) ce(3) o by (intro search_step.cached [OF s(2,3)]) auto
qed

lemma call_branch:
  assumes wf: "wf_history es" and safe: "step_safe model es" and eq: "Equal model = Some eq"
    and s: "sim model es st a" "s_suf a = c # ys" "is_call es c" and m: "match_at es c = Some r"
  shows "\<exists>st' a'. checkSingle_call model (length es) st c r = Next st' \<and>
    search_step model es eq a a' \<and> sim model es st' a'"
proof -
  let ?i = "id_at es c"
  have c: "node_id (cs_mem st c) = ?i" "?i \<in> op_ids es" using sim_node [OF wf s(1), of c] s(2) by auto
  obtain ok s' where st: "op_step model es (s_state a) ?i = Inr (ok, s')"
    using safe c(2) unfolding step_safe_def by (metis surj_pair)
  note Step = sim_call_step [OF wf s m, unfolded st]
  have adv: "sim model es (st\<lparr>cs_entry := node_next (cs_mem st c)\<rparr>)
      (a\<lparr>s_pre := s_pre a @ [c], s_suf := ys\<rparr>)"
    by (rule sim_advance [OF s])
  have "nat ?i < bit_capacity (cs_linearized st)"
    using op_id_uint(2) [OF wf c(2)] s(1) by (simp add: sim_def)
  then obtain b where b: "bitset_set (cs_linearized st) (nat ?i) = Inr b"
      "bits_of b = insert (nat ?i) (bits_of (cs_linearized st))"
      "bit_capacity b = bit_capacity (cs_linearized st)"
    by (rule bits.insE)
  let ?ce = "\<lparr>ce_linearized = b, ce_state = s'\<rparr>"
  obtain found where f: "cacheContains model (cs_cache st) ?ce = Inr found"
    using cacheContains_found [OF eq, of "cs_cache st" ?ce] by auto
  note body = checkSingle_call_def Let_def op_id_uint(1) [OF wf c(2)]
  consider "\<not> ok" | "ok" "found" | "ok" "\<not> found" by blast
  then show ?thesis
  proof cases
    case 1
    have "checkSingle_call model (length es) st c r = Next (st\<lparr>cs_entry := node_next (cs_mem st c)\<rparr>)"
      using Step 1 by (simp add: body)
    then show ?thesis using adv search_step.reject [OF s(2,3), of model s' eq] st 1 by auto
  next
    case 2
    have "checkSingle_call model (length es) st c r = Next (st\<lparr>cs_entry := node_next (cs_mem st c)\<rparr>)"
      using Step 2 c b(1) f by (simp add: body)
    then show ?thesis using adv cached_step [OF wf eq s _ b(2)] st 2 f by auto
  next
    case 3
    have L: "s_pre a @ c # ys = remaining es (frame_ids es (s_frames a))"
      using s by (simp add: sim_def search_wf_def)
    obtain B C where ys: "ys = B @ r # C" using remaining_split [OF wf L s(3)] m by (metis option.inject)
    have o: "op_step model es (s_state a) ?i = Inr (True, s')" using st 3 by simp
    note push = sim_push [OF wf s(1) s(2) [unfolded ys] s(3) m o b(2,3), of "bitset_hash b"]
    then obtain mm where "lift (cs_mem st) c = Inr mm" by blast
    then show ?thesis using push search_step.push [OF s(2) [unfolded ys] s(3) m o, of eq] Step 3 c b(1) f
      by (auto simp: body)
  qed
qed

lemma sim_call_ids:
  assumes wf: "wf_history es" and s: "sim model es st a"
  shows "call_ids (cs_mem st) (cs_calls st) = path_ids es (s_frames a)"
proof -
  have fw: "frames_wf model es (s_frames a) (s_state a)" using s by (simp add: sim_def search_wf_def)
  have "node_id (cs_mem st (fr_call f)) = id_at es (fr_call f)" if "f \<in> set (s_frames a)" for f
    using frames_off_list(3) [OF wf fw that] s by (auto simp: sim_def represents_def ent_at_nth id_at_def)
  then show ?thesis using s by (auto simp: call_ids_def path_ids_def sim_def frame_call_def rev_map)
qed

lemma return_branch:
  assumes wf: "wf_history es" and s: "sim model es st a" "s_suf a = x # ys" "\<not> is_call es x"
    and f: "s_frames a \<noteq> []"
  shows "\<exists>st' a'. checkSingle_return computePartial st = Next st' \<and>
    search_step model es eq a a' \<and> sim model es st' a'"
proof -
  obtain A c B r C t fs where fr: "s_frames a = Frame A c B r C t # fs"
    using f by (metis frame.exhaust list.exhaust)
  have calls: "cs_calls st \<noteq> []" "last (cs_calls st) = \<lparr>ca_entry = c, ca_state = t\<rparr>"
    using s(1) fr by (auto simp: sim_def frame_call_def)
  have pl: "partial_linearization model es (path_ids es (s_frames a))"
    using frames_partial [OF wf, of model "s_frames a" "s_state a"] s(1) by (auto simp: sim_def search_wf_def)
  have lo: "longest_ok model es (cs_longest st) (cs_seqs st)" using s(1) by (simp add: sim_def)
  obtain longest seqs where rl: "(if computePartial
      then record_longest (call_ids (cs_mem st) (cs_calls st)) (cs_longest st) (cs_seqs st)
      else Inr (cs_longest st, cs_seqs st)) = Inr (longest, seqs)" "longest_ok model es longest seqs"
    using record_longest_ok [OF lo pl wf] lo sim_call_ids [OF wf s(1)] by (cases computePartial) auto
  have fw: "frames_wf model es (s_frames a) (s_state a)" using s by (simp add: sim_def search_wf_def)
  have cN: "c < length es" using frames_off_list(3) [OF wf fw, of "Frame A c B r C t"] fr by simp
  then have i: "node_id (cs_mem st c) = id_at es c"
    using s(1) by (auto simp: sim_def represents_def ent_at_nth id_at_def)
  have "nat (id_at es c) < bit_capacity (cs_linearized st)"
    using op_id_uint(2) [OF wf wf_id_op [OF wf cN]] s(1) by (simp add: sim_def)
  then obtain b where b: "bitset_clear (cs_linearized st) (nat (id_at es c)) = Inr b"
      "bits_of b = bits_of (cs_linearized st) - {nat (id_at es c)}"
      "bit_capacity b = bit_capacity (cs_linearized st)"
    by (rule bits.delE)
  obtain mm where mm: "unlift (cs_mem st) c = Inr mm" and sm: "sim model es
      (st\<lparr>cs_mem := mm, cs_state := t, cs_linearized := b, cs_calls := butlast (cs_calls st),
        cs_longest := longest, cs_seqs := seqs, cs_entry := node_next (mm c)\<rparr>)
      (a\<lparr>s_pre := A @ [c], s_suf := B @ r # C, s_state := t, s_frames := fs\<rparr>)"
    using sim_pop [OF wf s(1) fr s(2,3) rl(2) b(2,3)] by auto
  have "checkSingle_return computePartial st =
      Next (st\<lparr>cs_mem := mm, cs_state := t, cs_linearized := b, cs_calls := butlast (cs_calls st),
        cs_longest := longest, cs_seqs := seqs, cs_entry := node_next (mm c)\<rparr>)"
    using calls rl(1) i b(1) mm op_id_uint(1) [OF wf wf_id_op [OF wf cN]]
    by (simp add: checkSingle_return_def Let_def)
  moreover have "search_step model es eq a (a\<lparr>s_pre := A @ [c], s_suf := B @ r # C, s_state := t, s_frames := fs\<rparr>)"
    by (rule search_step.pop [OF s(2,3) fr])
  ultimately show ?thesis using sm by blast
qed

lemma body_simulates:
  assumes wf: "wf_history es" and safe: "step_safe model es" and eq: "Equal model = Some eq"
    and s: "sim model es st a"
  shows "body_ok model es eq kill (cs_reads st) a
    (checkSingle_body model computePartial kill (length es) (length es div 2) st)"
proof -
  let ?st = "st\<lparr>cs_reads := Suc (cs_reads st)\<rparr>"
  have s': "sim model es ?st a" using s by (simp add: sim_def)
  have lk: "links (cs_mem st) ([] @ length es # s_pre a @ s_suf a)" using s by (simp add: sim_def)
  have nx: "node_next (cs_mem st (length es)) = head_opt (s_pre a @ s_suf a)" by (rule links_next [OF lk])
  have sw: "search_wf model es a" and en: "cs_entry st = head_opt (s_suf a)"
    and lo: "longest_ok model es (cs_longest st) (cs_seqs st)" using s by (simp_all add: sim_def)
  show ?thesis
  proof (cases "s_pre a @ s_suf a = []")
    case True
    have lin: "linearization model es (path_ids es (s_frames a))" by (rule search_sound [OF wf sw True])
    then have "partial_linearization model es (path_ids es (s_frames a))"
      by (auto simp: linearization_def partial_linearization_def)
    moreover have "int k \<in> set (path_ids es (s_frames a))" if "k < length es div 2" for k
      using lin that wf_ids(1) [OF wf] by (auto simp: linearization_def)
    ultimately show ?thesis using True nx sim_call_ids [OF wf s]
      by (auto simp: checkSingle_body_def body_ok_def longest_ok_def nth_append)
  next
    case False
    then obtain x ys where x: "s_suf a = x # ys"
      using search_wf_no_end [OF wf sw] by (cases "s_suf a") auto
    have xm: "x < length es" "node_match (cs_mem st x) = match_at es x"
      using sim_node [OF wf s, of x] x by auto
    have "kill (cs_reads st) = 0 \<Longrightarrow> ?thesis"
    proof (cases "is_call es x")
      case True
      then obtain r where r: "match_at es x = Some r" using wf_call_ret [OF wf xm(1)] by blast
      obtain st' a' where "checkSingle_call model (length es) ?st x r = Next st'"
        "search_step model es eq a a'" "sim model es st' a'"
        using call_branch [OF wf safe eq s' x True r] by blast
      moreover assume "kill (cs_reads st) = 0"
      ultimately show ?thesis using nx x xm r en False by (auto simp: checkSingle_body_def body_ok_def)
    next
      case ret: False
      then have "match_at es x = None" using match_at_props [of es x] by (cases "match_at es x") auto
      moreover assume "kill (cs_reads st) = 0"
      ultimately have b: "checkSingle_body model computePartial kill (length es) (length es div 2) st =
          checkSingle_return computePartial ?st"
        using nx x xm en False by (auto simp: checkSingle_body_def)
      show ?thesis
      proof (cases "s_frames a = []")
        case True
        then show ?thesis using b s lo x ret by (auto simp: checkSingle_return_def body_ok_def sim_def)
      next
        case False
        then show ?thesis using return_branch [OF wf s' x ret False, of computePartial eq] b \<open>kill _ = 0\<close>
          by (auto simp: body_ok_def)
      qed
    qed
    moreover have "kill (cs_reads st) \<noteq> 0 \<Longrightarrow> ?thesis"
      using nx False lo by (simp add: checkSingle_body_def body_ok_def)
    ultimately show ?thesis by blast
  qed
qed

section \<open>The loop\<close>

text \<open>
  From any state that corresponds to a state of the search, the loop returns; its verdict is
  \<open>True\<close> only with a linearization, and \<open>False\<close> only when it was killed or, for a sound equality,
  when there is none.
\<close>

definition verdict_ok :: "('v, 's) Model \<Rightarrow> 'v entry list \<Rightarrow> bool \<Rightarrow> (nat \<Rightarrow> 32 word) \<Rightarrow> check_outcome \<Rightarrow> bool" where
  "verdict_ok model es complete kill r \<longleftrightarrow>
     (case r of (ok, longest, seqs) \<Rightarrow>
        longest_ok model es longest seqs \<and>
        (if ok then linearizable model es \<and>
            (\<forall>p \<in> set longest. \<exists>q. p = Some q \<and> linearization model es (seqs ! q))
         else (\<exists>k. kill k \<noteq> 0) \<or> (complete \<longrightarrow> \<not> linearizable model es)))"

lemma body_done_verdict:
  assumes wf: "wf_history es" and sw: "search_wf model es a"
    and k: "complete \<longrightarrow> equal_sound model \<and> search_complete model es a"
    and ok: "body_ok model es eq kill reads a (Done r)"
  shows "verdict_ok model es complete kill r"
proof -
  obtain v longest seqs where r: "r = (v, longest, seqs)" by (cases r)
  show ?thesis
  proof (cases v)
    case True
    then have "linearization model es (path_ids es (s_frames a))"
      using ok search_sound [OF wf sw] by (auto simp: body_ok_def r)
    then show ?thesis using ok True by (auto simp: body_ok_def verdict_ok_def r linearizable_def)
  next
    case False
    then show ?thesis using ok search_refutes [OF wf sw] k
      by (auto simp: body_ok_def verdict_ok_def r)
  qed
qed

lemma loop_returns:
  assumes wf: "wf_history es" and safe: "step_safe model es" and eq: "Equal model = Some eq"
    and s: "sim model es st a" and k: "complete \<longrightarrow> equal_sound model \<and> search_complete model es a"
  shows "\<exists>r. checkSingle_loop model computePartial kill (length es) (length es div 2) st = Some (Inr r) \<and>
    verdict_ok model es complete kill r"
  using s k
proof (induction "search_measure a" arbitrary: st a rule: less_induct)
  case less
  note loop = checkSingle_loop.simps [of model computePartial kill "length es" "length es div 2" st]
  have sw: "search_wf model es a" using less.prems(1) by (simp add: sim_def)
  have ok: "body_ok model es eq kill (cs_reads st) a
      (checkSingle_body model computePartial kill (length es) (length es div 2) st)"
    by (rule body_simulates [OF wf safe eq less.prems(1)])
  show ?case
  proof (cases "checkSingle_body model computePartial kill (length es) (length es div 2) st")
    case (Next st')
    then obtain a' where a': "search_step model es eq a a'" "sim model es st' a'"
      using ok by (auto simp: body_ok_def)
    have "complete \<longrightarrow> equal_sound model \<and> search_complete model es a'"
      using less.prems(2) search_step_complete [OF wf _ eq a'(1) sw] by blast
    from less.hyps [OF search_step_measure [OF a'(1)] a'(2) this] show ?thesis using loop Next by simp
  next
    case (Done r)
    then show ?thesis using loop body_done_verdict [OF wf sw less.prems(2)] ok by auto
  next
    case (Fail e)
    then show ?thesis using ok by (simp add: body_ok_def)
  qed
qed

section \<open>The whole of checkSingle\<close>

definition search_start :: "('v, 's) Model \<Rightarrow> 'v entry list \<Rightarrow> 's search" where
  "search_start model es =
     \<lparr>s_pre = [], s_suf = addresses es, s_frames = [], s_state = Init model (), s_cache = []\<rparr>"

lemma search_start_ok:
  "search_wf model es (search_start model es)" "search_complete model es (search_start model es)"
  by (auto simp: search_start_def search_wf_def search_complete_def remaining_def)

text \<open>The list with the head node in front, and the state in which the loop starts.\<close>

lemma checkSingle_init_sim:
  assumes b: "built (h, root, mtch) es"
    and i: "checkSingle_init model h root (length es div 2) = (headEntry, st)"
  shows "headEntry = length es" "sim model es st (search_start model es)"
proof -
  let ?e = "\<lparr>entry_kind = returnEntry, entry_value = None, entry_id = -1, entry_time = 0, entry_clientId = 0\<rparr>
    :: 'a entry"
  let ?n = "new_node None None (-1) :: 'a node"
  let ?m = "insertBefore ((mem h)(length es := ?n)) (length es) (head_opt (addresses es))"
  have A: "links (mem h) (addresses es) \<or> es = []" "node_prev (mem h (length es - 1)) = None"
    "represents (mem h) es" "\<forall>a\<ge>length es. mem h a = new_node None None 0"
    and B: "brk h = length es" "root = head_opt (addresses es)"
    using b by (auto simp: built_def)
  have n: "?n = new_node (entry_value ?e) (match_at (?e # es) (length es)) (entry_id ?e)" by simp
  note C = built_Cons_aux [OF A n refl]
  have "represents ?m es" using C(3) by (auto simp: represents_def less_Suc_eq)
  moreover have "links ?m (length es # addresses es)" using C(1) by simp
  moreover have "cs_mem st = ?m" "cs_entry st = root" "cs_linearized st = newBitset (length es div 2)"
    "cs_cache st = (\<lambda>_. [])" "cs_calls st = []" "cs_longest st = replicate (length es div 2) None"
    "cs_seqs st = []" "cs_state st = Init model ()"
    using i B by (auto simp: checkSingle_init_def alloc_def)
  ultimately show "sim model es st (search_start model es)"
    using search_start_ok(1) [of model es] longest_ok_new [of model es] B(2)
    by (simp add: sim_def search_start_def cache_sim_def)
  show "headEntry = length es" using i B by (simp add: checkSingle_init_def alloc_def)
qed

lemma makeLinkedEntries_length:
  assumes "makeLinkedEntries es = (h, root)"
  shows "node_length (mem h) root = Some (length es)" "\<exists>mtch. built (h, root, mtch) es"
proof -
  obtain h' root' mtch where f: "fold makeLinkedEntries_body (rev es) (empty_heap, None, Map.empty) = (h', root', mtch)"
    by (cases "fold makeLinkedEntries_body (rev es) (empty_heap, None, Map.empty)") auto
  have b: "built (h, root, mtch) es"
    using makeLinkedEntries_built [of es] assms by (simp add: makeLinkedEntries_def f)
  then show "\<exists>mtch. built (h, root, mtch) es" by blast
  show "node_length (mem h) root = Some (length es)"
    using b node_length_loop_links [of "mem h" "addresses es" 0]
    by (cases "es = []") (auto simp: built_def links_def node_length_def node_length_loop.simps)
qed

lemma checkSingle_start_sim:
  "\<exists>st. checkSingle_start model es = Some (length es, length es div 2, st) \<and>
     sim model es st (search_start model es)"
proof -
  obtain h root where m: "makeLinkedEntries es = (h, root)" by (cases "makeLinkedEntries es")
  obtain mtch where b: "built (h, root, mtch) es" using makeLinkedEntries_length [OF m] by blast
  obtain headEntry st where i: "checkSingle_init model h root (length es div 2) = (headEntry, st)"
    by (cases "checkSingle_init model h root (length es div 2)")
  show ?thesis
    using checkSingle_init_sim [OF b i] makeLinkedEntries_length(1) [OF m] m i
    by (simp add: checkSingle_start_def)
qed

lemma checkSingle_returns:
  assumes wf: "wf_history es" and safe: "step_safe model es" and eq: "Equal model = Some eq"
  shows "\<exists>r. checkSingle model es computePartial kill = Some (Inr r) \<and>
    verdict_ok model es (equal_sound model) kill r"
proof -
  obtain st where st: "checkSingle_start model es = Some (length es, length es div 2, st)"
      "sim model es st (search_start model es)"
    using checkSingle_start_sim by blast
  show ?thesis
    using loop_returns [OF wf safe eq st(2), of "equal_sound model"] search_start_ok(2) [of model es] st(1)
    by (simp add: checkSingle_def)
qed

end
