(* ===== verification/Parallel.thy ===== *)
theory Parallel
  imports Checker_Correct
begin

text \<open>
  \<^verbatim>\<open>checkParallel\<close> of \<^verbatim>\<open>porcupine/checker.go\<close>, with \<^verbatim>\<open>checkEvents\<close>, \<^verbatim>\<open>checkOperations\<close> and the
  exported functions of \<^verbatim>\<open>porcupine/porcupine.go\<close>.  One goroutine per partition runs \<^verbatim>\<open>checkSingle\<close>
  and sends its verdict over a buffered channel; the caller selects between the channel and a
  timer, and stops the goroutines through the shared flag \<^verbatim>\<open>kill\<close>.

  The interleaving is explicit.  A configuration \<open>par\<close> holds the phase of every goroutine, the
  channel, the shared slice \<^verbatim>\<open>longest\<close>, the flag and the local variables of the caller; an action
  is one iteration of a goroutine's loop (which reads the flag once and otherwise touches only its
  own data), a channel operation, or an expiry of the timer.  \<open>par_step\<close> executes one action:
  \<open>None\<close> means that it is not enabled.  A schedule is a list of actions, so a claim about every
  schedule is a claim about every interleaving.  The order in which Go ranges over a map is the
  parameter \<open>rng\<close>.
\<close>

section \<open>Configurations and actions\<close>

record 'v linearizationInfo =
  li_history :: "'v entry list list"
  li_partialLinearizations :: "int list list list"

datatype ('v, 's) worker =
    Spawned "'v entry list"
  | Searching nat nat "('v, 's) check_state"
  | Returned bool
  | Exited bool

datatype 'v main_phase = Selecting | Draining | Answered CheckResult "'v linearizationInfo"

record ('v, 's) par =
  p_workers :: "('v, 's) worker list"
  p_results :: "bool list"
  p_longest :: "(nat option list \<times> int list list) list"
  p_kill :: "32 word"
  p_count :: nat
  p_ok :: bool
  p_timedOut :: bool
  p_main :: "'v main_phase"

datatype action = Work nat | Receive | Timer | Drain | Finish

definition par_init :: "'v entry list list \<Rightarrow> ('v, 's) par" where
  "par_init history =
     \<lparr>p_workers = map Spawned history, p_results = [],
      p_longest = replicate (length history) ([], []), p_kill = 0, p_count = 0, p_ok = True,
      p_timedOut = False, p_main = Selecting\<rparr>"

section \<open>Steps\<close>

text \<open>The goroutine of partition \<open>i\<close>.  The send blocks while the channel is full.\<close>

definition worker_step ::
    "('v, 's) Model \<Rightarrow> bool \<Rightarrow> nat \<Rightarrow> nat \<Rightarrow> ('v, 's) par \<Rightarrow> ('v, 's) par result option" where
  "worker_step model computeInfo cap i c =
     (if i < length (p_workers c) then
        (case p_workers c ! i of
           Spawned es \<Rightarrow>
             map_option (\<lambda>(headEntry, n, st).
                 Inr (c\<lparr>p_workers := (p_workers c)[i := Searching headEntry n st]\<rparr>))
               (checkSingle_start model es)
         | Searching headEntry n st \<Rightarrow>
             (case checkSingle_body model computeInfo (\<lambda>_. p_kill c) headEntry n st of
                Fail e \<Rightarrow> Some (Inl e)
              | Next st' \<Rightarrow> Some (Inr (c\<lparr>p_workers := (p_workers c)[i := Searching headEntry n st']\<rparr>))
              | Done (ok, l) \<Rightarrow>
                  Some (Inr (c\<lparr>p_workers := (p_workers c)[i := Returned ok],
                               p_longest := (p_longest c)[i := l]\<rparr>)))
         | Returned ok \<Rightarrow>
             (if length (p_results c) < cap then
                Some (Inr (c\<lparr>p_workers := (p_workers c)[i := Exited ok],
                             p_results := p_results c @ [ok]\<rparr>))
              else None)
         | Exited _ \<Rightarrow> None)
      else None)"

text \<open>The set of distinct non-nil pointers of a slice, ranged over in some order, dereferenced.\<close>

definition collect_partials ::
    "(nat list \<Rightarrow> nat list) \<Rightarrow> nat option list \<times> int list list \<Rightarrow> int list list" where
  "collect_partials rng l =
     (case l of (longest, seqs) \<Rightarrow>
        map (\<lambda>k. seqs ! k)
          (rng (fold (\<lambda>v set. case v of None \<Rightarrow> set | Some k \<Rightarrow> List.insert k set) longest [])))"

definition collect_info ::
    "(nat list \<Rightarrow> nat list) \<Rightarrow> 'v entry list list \<Rightarrow> ('v, 's) par \<Rightarrow> 'v linearizationInfo" where
  "collect_info rng history c =
     \<lparr>li_history = history, li_partialLinearizations = map (collect_partials rng) (p_longest c)\<rparr>"

definition verdict :: "('v, 's) par \<Rightarrow> CheckResult" where
  "verdict c = (if \<not> p_ok c then Illegal else if p_timedOut c then Unknown else Ok)"

definition main_receive :: "bool \<Rightarrow> nat \<Rightarrow> ('v, 's) par \<Rightarrow> ('v, 's) par option" where
  "main_receive computeInfo n c =
     (case p_results c of
        [] \<Rightarrow> None
      | result # rest \<Rightarrow>
          (let c = c\<lparr>p_results := rest, p_count := p_count c + 1, p_ok := p_ok c \<and> result\<rparr> in
           if \<not> p_ok c \<and> \<not> computeInfo then Some (c\<lparr>p_kill := 1, p_main := Draining\<rparr>)
           else if n \<le> p_count c then Some (c\<lparr>p_main := Draining\<rparr>)
           else Some c))"

definition main_step ::
    "(nat list \<Rightarrow> nat list) \<Rightarrow> 'v entry list list \<Rightarrow> bool \<Rightarrow> int \<Rightarrow> action \<Rightarrow> ('v, 's) par
       \<Rightarrow> ('v, 's) par option" where
  "main_step rng history computeInfo timeout a c =
     (case p_main c of
        Selecting \<Rightarrow>
          (case a of
             Receive \<Rightarrow> main_receive computeInfo (length history) c
           | Timer \<Rightarrow> (if timeout > 0
                       then Some (c\<lparr>p_timedOut := True, p_kill := 1, p_main := Draining\<rparr>) else None)
           | _ \<Rightarrow> None)
      | Draining \<Rightarrow>
          (if computeInfo \<and> p_count c < length history then
             (case a of
                Drain \<Rightarrow> (case p_results c of [] \<Rightarrow> None
                           | _ # rest \<Rightarrow> Some (c\<lparr>p_results := rest, p_count := p_count c + 1\<rparr>))
              | _ \<Rightarrow> None)
           else if a = Finish then
             Some (c\<lparr>p_main := Answered (verdict c)
               (if computeInfo then collect_info rng history c
                else \<lparr>li_history = [], li_partialLinearizations = []\<rparr>)\<rparr>)
           else None)
      | Answered _ _ \<Rightarrow> None)"

definition par_step ::
    "(nat list \<Rightarrow> nat list) \<Rightarrow> ('v, 's) Model \<Rightarrow> 'v entry list list \<Rightarrow> bool \<Rightarrow> int \<Rightarrow> action
       \<Rightarrow> ('v, 's) par \<Rightarrow> ('v, 's) par result option" where
  "par_step rng model history computeInfo timeout a c =
     (case a of
        Work i \<Rightarrow> worker_step model computeInfo (length history) i c
      | _ \<Rightarrow> map_option Inr (main_step rng history computeInfo timeout a c))"

fun par_run ::
    "(nat list \<Rightarrow> nat list) \<Rightarrow> ('v, 's) Model \<Rightarrow> 'v entry list list \<Rightarrow> bool \<Rightarrow> int \<Rightarrow> action list
       \<Rightarrow> ('v, 's) par \<Rightarrow> ('v, 's) par result option" where
  "par_run rng model history computeInfo timeout [] c = Some (Inr c)"
| "par_run rng model history computeInfo timeout (a # as) c =
     (case par_step rng model history computeInfo timeout a c of
        None \<Rightarrow> None
      | Some (Inl e) \<Rightarrow> Some (Inl e)
      | Some (Inr c) \<Rightarrow> par_run rng model history computeInfo timeout as c)"

text \<open>
  What \<^verbatim>\<open>checkParallel\<close> returns under a schedule; \<open>None\<close> when the caller has not returned at its
  end, or when an action of the schedule is not enabled.
\<close>

definition checkParallel ::
    "(nat list \<Rightarrow> nat list) \<Rightarrow> ('v, 's) Model \<Rightarrow> 'v entry list list \<Rightarrow> bool \<Rightarrow> int \<Rightarrow> action list
       \<Rightarrow> (CheckResult \<times> 'v linearizationInfo) result option" where
  "checkParallel rng model history computeInfo timeout sched =
     (case par_run rng model history computeInfo timeout sched (par_init history) of
        None \<Rightarrow> None
      | Some (Inl e) \<Rightarrow> Some (Inl e)
      | Some (Inr c) \<Rightarrow> (case p_main c of Answered r info \<Rightarrow> Some (Inr (r, info)) | _ \<Rightarrow> None))"

end
