(* ===== verification/Parallel_Correct.thy ===== *)
theory Parallel_Correct
  imports Parallel
begin

text \<open>
  Correctness of \<^verbatim>\<open>checkParallel\<close> under every interleaving: an invariant of the configurations that
  every enabled action preserves, a measure that every enabled action decreases, and progress: a
  configuration in which the caller has not answered has an enabled action, unless there is no
  partition and no timer.
\<close>

section \<open>One goroutine\<close>

text \<open>
  The number \<open>\<mu>\<close> bounds the number of steps the goroutine can still take.
\<close>

fun worker_ok ::
    "('v, 's) Model \<Rightarrow> 'v entry list \<Rightarrow> 32 word \<Rightarrow> nat option list \<times> int list list
       \<Rightarrow> ('v, 's) worker \<Rightarrow> nat \<Rightarrow> bool" where
  "worker_ok model es kill l (Spawned h) \<mu> \<longleftrightarrow> h = es \<and> search_measure (search_start model es) + 4 \<le> \<mu>"
| "worker_ok model es kill l (Searching h0 n st) \<mu> \<longleftrightarrow> h0 = length es \<and> n = length es div 2 \<and>
     (\<exists>a. sim model es st a \<and> (equal_sound model \<longrightarrow> search_complete model es a) \<and>
        search_measure a + 3 \<le> \<mu>)"
| "worker_ok model es kill l (Returned ok) \<mu> \<longleftrightarrow>
     verdict_ok model es (equal_sound model) (\<lambda>_. kill) (ok, l) \<and> 2 \<le> \<mu>"
| "worker_ok model es kill l (Exited ok) \<mu> \<longleftrightarrow>
     verdict_ok model es (equal_sound model) (\<lambda>_. kill) (ok, l)"

lemma verdict_ok_kill:
  "verdict_ok model es b (\<lambda>_. k) r \<Longrightarrow> k = 0 \<or> k' \<noteq> 0 \<Longrightarrow> verdict_ok model es b (\<lambda>_. k') r"
  by (auto simp: verdict_ok_def split: if_splits)

lemma worker_ok_kill: "worker_ok model es k l w \<mu> \<Longrightarrow> k = 0 \<or> k' \<noteq> 0 \<Longrightarrow> worker_ok model es k' l w \<mu>"
  by (cases w) (auto dest: verdict_ok_kill)

lemma searching_next:
  assumes wf: "wf_history es" and safe: "step_safe model es" and eq: "Equal model = Some eq"
    and w: "worker_ok model es kill l (Searching h0 n st) \<mu>"
  shows "case checkSingle_body model computeInfo (\<lambda>_. kill) h0 n st of
      Fail e \<Rightarrow> False
    | Next st' \<Rightarrow> (\<exists>\<mu>' < \<mu>. worker_ok model es kill l (Searching h0 n st') \<mu>')
    | Done (ok, l') \<Rightarrow> 2 < \<mu> \<and> worker_ok model es kill l' (Returned ok) 2"
proof -
  obtain a where a: "sim model es st a" "equal_sound model \<longrightarrow> search_complete model es a"
      "search_measure a + 3 \<le> \<mu>" and n: "h0 = length es" "n = length es div 2"
    using w by auto
  have sw: "search_wf model es a" using a(1) by (simp add: sim_def)
  have ok: "body_ok model es eq (\<lambda>_. kill) (cs_reads st) a (checkSingle_body model computeInfo (\<lambda>_. kill) h0 n st)"
    unfolding n by (rule body_simulates [OF wf safe eq a(1)])
  show ?thesis
  proof (cases "checkSingle_body model computeInfo (\<lambda>_. kill) h0 n st")
    case (Next st')
    then obtain a' where a': "search_step model es eq a a'" "sim model es st' a'"
      using ok by (auto simp: body_ok_def)
    have "equal_sound model \<longrightarrow> search_complete model es a'"
      using a(2) search_step_complete [OF wf _ eq a'(1) sw] by blast
    then have "worker_ok model es kill l (Searching h0 n st') (search_measure a' + 3)"
      using a' n by auto
    moreover have "search_measure a' + 3 < \<mu>" using search_step_measure [OF a'(1)] a(3) by simp
    ultimately show ?thesis unfolding Next control.case by blast
  next
    case (Done r)
    have "verdict_ok model es (equal_sound model) (\<lambda>_. kill) r"
      using body_done_verdict [OF wf sw _ ok [unfolded Done]] a(2) by blast
    then show ?thesis using a(3) by (cases r) (simp add: Done)
  next
    case (Fail e)
    then show ?thesis using ok by (simp add: body_ok_def)
  qed
qed

section \<open>The invariant\<close>

definition job_ok :: "('v, 's) Model \<Rightarrow> 'v entry list list \<Rightarrow> bool" where
  "job_ok model history \<longleftrightarrow>
     (\<forall>es \<in> set history. wf_history es \<and> step_safe model es) \<and> Equal model \<noteq> None"

fun has_exited :: "('v, 's) worker \<Rightarrow> bool" where
  "has_exited (Exited _) \<longleftrightarrow> True"
| "has_exited _ \<longleftrightarrow> False"

definition some_illegal :: "('v, 's) Model \<Rightarrow> 'v entry list list \<Rightarrow> bool" where
  "some_illegal model history \<longleftrightarrow>
     (equal_sound model \<longrightarrow> (\<exists>es \<in> set history. \<not> linearizable model es))"

definition workers_inv ::
    "('v, 's) Model \<Rightarrow> 'v entry list list \<Rightarrow> ('v, 's) par \<Rightarrow> nat list \<Rightarrow> bool" where
  "workers_inv model history c \<mu>s \<longleftrightarrow>
     length (p_workers c) = length history \<and> length (p_longest c) = length history \<and>
     length \<mu>s = length history \<and>
     (\<forall>i < length history.
        worker_ok model (history ! i) (p_kill c) (p_longest c ! i) (p_workers c ! i) (\<mu>s ! i)) \<and>
     length (filter has_exited (p_workers c)) = p_count c + length (p_results c)"

definition main_inv ::
    "(nat list \<Rightarrow> nat list) \<Rightarrow> ('v, 's) Model \<Rightarrow> 'v entry list list \<Rightarrow> bool \<Rightarrow> int
       \<Rightarrow> ('v, 's) par \<Rightarrow> bool" where
  "main_inv rng model history computeInfo timeout c \<longleftrightarrow>
     (p_timedOut c \<longrightarrow> timeout > 0) \<and>
     (p_main c = Selecting \<longrightarrow> p_kill c = 0 \<and> \<not> p_timedOut c \<and> (p_count c < length history \<or> history = []) \<and>
        (False \<in> set (p_results c) \<longrightarrow> some_illegal model history)) \<and>
     (\<not> p_ok c \<longrightarrow> some_illegal model history) \<and>
     (\<not> p_timedOut c \<and> p_ok c \<and> False \<notin> set (p_results c) \<longrightarrow> Exited False \<notin> set (p_workers c)) \<and>
     (\<not> p_timedOut c \<and> (p_ok c \<or> computeInfo) \<and> p_main c \<noteq> Selecting \<longrightarrow> length history \<le> p_count c) \<and>
     (\<forall>r info. p_main c = Answered r info \<longrightarrow> r = verdict c \<and>
        (computeInfo \<longrightarrow> info = collect_info rng history c \<and> length history \<le> p_count c))"

definition main_measure :: "nat \<Rightarrow> ('v, 's) par \<Rightarrow> nat" where
  "main_measure n c = 2 * (n - p_count c) +
     (case p_main c of Selecting \<Rightarrow> 2 | Draining \<Rightarrow> 1 | Answered _ _ \<Rightarrow> 0)"

lemma all_exited:
  assumes "workers_inv model history c \<mu>s" "length history \<le> p_count c" "i < length history"
  shows "has_exited (p_workers c ! i)"
proof -
  have "length (filter has_exited (p_workers c)) \<ge> length (p_workers c)"
    using assms by (simp add: workers_inv_def)
  then have "filter has_exited (p_workers c) = p_workers c"
    by (metis filter_True length_filter_less linorder_not_less)
  then show ?thesis using assms by (metis filter_id_conv nth_mem workers_inv_def)
qed

lemma count_bound: "workers_inv model history c \<mu>s \<Longrightarrow> p_count c + length (p_results c) \<le> length history"
  unfolding workers_inv_def by (metis length_filter_le)

lemma no_results_left:
  assumes "workers_inv model history c \<mu>s" "length history \<le> p_count c"
  shows "p_results c = []"
proof -
  have "length (p_results c) = 0" using count_bound [OF assms(1)] assms(2) by linarith
  then show ?thesis by simp
qed

definition par_inv ::
    "(nat list \<Rightarrow> nat list) \<Rightarrow> ('v, 's) Model \<Rightarrow> 'v entry list list \<Rightarrow> bool \<Rightarrow> int
       \<Rightarrow> ('v, 's) par \<Rightarrow> nat list \<Rightarrow> bool" where
  "par_inv rng model history computeInfo timeout c \<mu>s \<longleftrightarrow>
     workers_inv model history c \<mu>s \<and> main_inv rng model history computeInfo timeout c"

definition par_measure :: "'v entry list list \<Rightarrow> ('v, 's) par \<Rightarrow> nat list \<Rightarrow> nat" where
  "par_measure history c \<mu>s = sum_list \<mu>s + main_measure (length history) c"

lemma par_inv_init:
  "par_inv rng model history computeInfo timeout (par_init history)
     (map (\<lambda>es. search_measure (search_start model es) + 4) history)"
  by (auto simp: par_inv_def workers_inv_def main_inv_def par_init_def)

section \<open>Steps of a goroutine\<close>

lemma sum_list_update_less:
  "i < length \<mu>s \<Longrightarrow> \<mu> < \<mu>s ! i \<Longrightarrow> sum_list (\<mu>s[i := \<mu>]) < sum_list (\<mu>s :: nat list)"
  by (induction \<mu>s arbitrary: i) (auto split: nat.splits)

text \<open>A step of a goroutine before its send.\<close>

lemma silent_step:
  assumes inv: "par_inv rng model history computeInfo timeout c \<mu>s" and i: "i < length history"
    and new: "worker_ok model (history ! i) (p_kill c) l w \<mu>" "\<mu> < \<mu>s ! i"
    and silent: "\<not> has_exited (p_workers c ! i)" "\<not> has_exited w"
    and c': "c' = c\<lparr>p_workers := (p_workers c)[i := w], p_longest := (p_longest c)[i := l]\<rparr>"
  shows "par_inv rng model history computeInfo timeout c' (\<mu>s[i := \<mu>]) \<and>
    par_measure history c' (\<mu>s[i := \<mu>]) < par_measure history c \<mu>s"
proof -
  have wi: "workers_inv model history c \<mu>s" and mi: "main_inv rng model history computeInfo timeout c"
    using inv by (simp_all add: par_inv_def)
  have "length (filter has_exited ((p_workers c)[i := w])) = length (filter has_exited (p_workers c))"
    using length_filter_update [of i "p_workers c" has_exited w] wi i silent by (simp add: workers_inv_def)
  then have "workers_inv model history c' (\<mu>s[i := \<mu>])"
    using wi i new unfolding c' by (auto simp: workers_inv_def nth_list_update)
  moreover have "\<not> length history \<le> p_count c" using all_exited [OF wi _ i] silent(1) by blast
  then have "main_inv rng model history computeInfo timeout c'"
    using mi silent(2) set_update_subset_insert [of "p_workers c" i w]
    unfolding c' by (auto simp: main_inv_def verdict_def)
  moreover have "sum_list (\<mu>s[i := \<mu>]) < sum_list \<mu>s"
    using wi i new by (auto simp: workers_inv_def intro: sum_list_update_less)
  ultimately show ?thesis by (simp add: par_inv_def par_measure_def main_measure_def c')
qed

text \<open>The send: the channel has room for the verdict of every goroutine.\<close>

lemma send_step:
  assumes inv: "par_inv rng model history computeInfo timeout c \<mu>s" and i: "i < length history"
    and w: "p_workers c ! i = Returned ok"
    and c': "c' = c\<lparr>p_workers := (p_workers c)[i := Exited ok], p_results := p_results c @ [ok]\<rparr>"
  shows "length (p_results c) < length history" "par_inv rng model history computeInfo timeout c' (\<mu>s[i := 0])"
    "par_measure history c' (\<mu>s[i := 0]) < par_measure history c \<mu>s"
proof -
  have wi: "workers_inv model history c \<mu>s" and mi: "main_inv rng model history computeInfo timeout c"
    using inv by (simp_all add: par_inv_def)
  have f: "length (filter has_exited ((p_workers c)[i := Exited ok])) = Suc (length (filter has_exited (p_workers c)))"
    using length_filter_update [of i "p_workers c" has_exited "Exited ok"] wi i w by (simp add: workers_inv_def)
  have wk: "worker_ok model (history ! i) (p_kill c) (p_longest c ! i) (Returned ok) (\<mu>s ! i)"
    using wi i w by (auto simp: workers_inv_def)
  have wi': "workers_inv model history c' (\<mu>s[i := 0])"
    using wi i wk f unfolding c' by (auto simp: workers_inv_def nth_list_update)
  show "length (p_results c) < length history" using count_bound [OF wi'] by (simp add: c')
  have "p_main c = Selecting \<Longrightarrow> \<not> ok \<Longrightarrow> some_illegal model history"
    using mi wk i by (auto simp: main_inv_def verdict_ok_def some_illegal_def)
  moreover have "\<not> length history \<le> p_count c" using all_exited [OF wi _ i] w by fastforce
  ultimately have "main_inv rng model history computeInfo timeout c'"
    using mi set_update_subset_insert [of "p_workers c" i "Exited ok"]
    unfolding c' by (cases ok) (auto simp: main_inv_def verdict_def)
  then show "par_inv rng model history computeInfo timeout c' (\<mu>s[i := 0])"
    using wi' by (simp add: par_inv_def)
  have "sum_list (\<mu>s[i := 0]) < sum_list \<mu>s"
    using wi i wk by (auto simp: workers_inv_def intro: sum_list_update_less)
  then show "par_measure history c' (\<mu>s[i := 0]) < par_measure history c \<mu>s"
    by (simp add: par_measure_def main_measure_def c')
qed

text \<open>An outcome of a step that keeps the invariant and decreases the measure.\<close>

definition step_good ::
    "(nat list \<Rightarrow> nat list) \<Rightarrow> ('v, 's) Model \<Rightarrow> 'v entry list list \<Rightarrow> bool \<Rightarrow> int
       \<Rightarrow> ('v, 's) par \<Rightarrow> nat list \<Rightarrow> ('v, 's) par result \<Rightarrow> bool" where
  "step_good rng model history computeInfo timeout c \<mu>s r \<longleftrightarrow>
     (\<exists>c' \<mu>s'. r = Inr c' \<and> par_inv rng model history computeInfo timeout c' \<mu>s' \<and>
        par_measure history c' \<mu>s' < par_measure history c \<mu>s)"

lemma worker_step_enabled:
  assumes job: "job_ok model history" and inv: "par_inv rng model history computeInfo timeout c \<mu>s"
    and i: "i < length history" "\<not> has_exited (p_workers c ! i)"
  shows "\<exists>r. worker_step model computeInfo (length history) i c = Some r \<and>
    step_good rng model history computeInfo timeout c \<mu>s r"
proof -
  have wi: "workers_inv model history c \<mu>s" using inv by (simp add: par_inv_def)
  then have len: "length (p_workers c) = length history" by (simp add: workers_inv_def)
  obtain eq where eq: "Equal model = Some eq" and wf: "wf_history (history ! i)"
      and safe: "step_safe model (history ! i)"
    using job i by (auto simp: job_ok_def)
  have wk: "worker_ok model (history ! i) (p_kill c) (p_longest c ! i) (p_workers c ! i) (\<mu>s ! i)"
    using wi i(1) by (auto simp: workers_inv_def)
  have silent: "step_good rng model history computeInfo timeout c \<mu>s
      (Inr (c\<lparr>p_workers := (p_workers c)[i := w], p_longest := (p_longest c)[i := l]\<rparr>))"
    if "worker_ok model (history ! i) (p_kill c) l w \<mu>" "\<mu> < \<mu>s ! i" "\<not> has_exited w" for l w \<mu>
    using silent_step [OF inv i(1) that(1,2) i(2) that(3) refl] unfolding step_good_def by blast
  have quiet: "step_good rng model history computeInfo timeout c \<mu>s
      (Inr (c\<lparr>p_workers := (p_workers c)[i := w]\<rparr>))"
    if "worker_ok model (history ! i) (p_kill c) (p_longest c ! i) w \<mu>" "\<mu> < \<mu>s ! i" "\<not> has_exited w" for w \<mu>
    using silent [OF that] by simp
  show ?thesis
  proof (cases "p_workers c ! i")
    case (Spawned h)
    obtain st where "checkSingle_start model (history ! i) =
        Some (length (history ! i), length (history ! i) div 2, st)"
      "sim model (history ! i) st (search_start model (history ! i))"
      using checkSingle_start_sim by blast
    then show ?thesis
      using quiet [of "Searching (length (history ! i)) (length (history ! i) div 2) st"
          "search_measure (search_start model (history ! i)) + 3"] wk Spawned i len search_start_ok(2)
      by (auto simp: worker_step_def)
  next
    case (Searching h0 n st)
    note nx = searching_next [OF wf safe eq wk [unfolded Searching], of computeInfo]
    show ?thesis
    proof (cases "checkSingle_body model computeInfo (\<lambda>_. p_kill c) h0 n st")
      case (Next st')
      then show ?thesis using nx quiet [of "Searching h0 n st'"] Searching i len
        by (auto simp: worker_step_def simp del: worker_ok.simps)
    next
      case (Done r)
      then show ?thesis using nx silent [of "snd r" "Returned (fst r)" 2] Searching i len
        by (auto simp: worker_step_def split: prod.splits simp del: worker_ok.simps)
    next
      case (Fail e)
      then show ?thesis using nx by simp
    qed
  next
    case (Returned ok)
    then show ?thesis using send_step [OF inv i(1) Returned refl] i len
      unfolding step_good_def by (auto simp: worker_step_def)
  next
    case (Exited ok)
    then show ?thesis using i by simp
  qed
qed

section \<open>Steps of the caller\<close>

lemma workers_inv_main:
  assumes "workers_inv model history c \<mu>s" "p_workers c' = p_workers c" "p_longest c' = p_longest c"
    "p_count c' + length (p_results c') = p_count c + length (p_results c)" "p_kill c = 0 \<or> p_kill c' \<noteq> 0"
  shows "workers_inv model history c' \<mu>s"
  using assms worker_ok_kill [OF _ assms(5), where 'a = 'a and 'b = 'b] by (simp add: workers_inv_def)

lemma main_receive_good:
  assumes inv: "par_inv rng model history computeInfo timeout c \<mu>s" and m: "p_main c = Selecting"
    and r: "main_receive computeInfo (length history) c = Some c'"
  shows "step_good rng model history computeInfo timeout c \<mu>s (Inr c')"
proof -
  have wi: "workers_inv model history c \<mu>s" and mi: "main_inv rng model history computeInfo timeout c"
    using inv by (simp_all add: par_inv_def)
  obtain b rest where b: "p_results c = b # rest"
    using r by (auto simp: main_receive_def split: list.splits)
  have k: "p_kill c = 0" using mi m by (simp add: main_inv_def)
  note c' = r [unfolded main_receive_def b, simplified, unfolded Let_def, simplified]
  have "workers_inv model history c' \<mu>s"
    by (rule workers_inv_main [OF wi]) (use b c' k in \<open>auto split: if_splits\<close>)
  moreover have "main_inv rng model history computeInfo timeout c'"
  proof -
    have f: "\<not> p_timedOut c" "False \<in> set (b # rest) \<longrightarrow> some_illegal model history"
      "\<not> p_ok c \<longrightarrow> some_illegal model history"
      "p_ok c \<and> False \<notin> set (b # rest) \<longrightarrow> Exited False \<notin> set (p_workers c)"
      using mi m b by (simp_all add: main_inv_def)
    consider "\<not> (p_ok c \<and> b)" "\<not> computeInfo"
        "c' = c\<lparr>p_results := rest, p_count := Suc (p_count c), p_ok := False, p_kill := 1, p_main := Draining\<rparr>"
      | "p_ok c \<and> b \<or> computeInfo" "length history \<le> Suc (p_count c)"
        "c' = c\<lparr>p_results := rest, p_count := Suc (p_count c), p_ok := p_ok c \<and> b, p_main := Draining\<rparr>"
      | "p_ok c \<and> b \<or> computeInfo" "Suc (p_count c) < length history"
        "c' = c\<lparr>p_results := rest, p_count := Suc (p_count c), p_ok := p_ok c \<and> b\<rparr>"
      using c' by (auto split: if_splits)
    then show ?thesis using f k m by cases (simp add: main_inv_def; blast)+
  qed
  moreover have "main_measure (length history) c' < main_measure (length history) c"
    using count_bound [OF wi] b c' m by (auto simp: main_measure_def split: if_splits)
  ultimately show ?thesis unfolding step_good_def par_inv_def par_measure_def by auto
qed

lemma main_step_good:
  assumes inv: "par_inv rng model history computeInfo timeout c \<mu>s"
    and r: "main_step rng history computeInfo timeout a c = Some c'"
  shows "step_good rng model history computeInfo timeout c \<mu>s (Inr c')"
proof (cases "p_main c = Selecting \<and> a = Receive")
  case True
  then show ?thesis using main_receive_good [OF inv] r by (simp add: main_step_def)
next
  case False
  have wi: "workers_inv model history c \<mu>s" and mi: "main_inv rng model history computeInfo timeout c"
    using inv by (simp_all add: par_inv_def)
  note c' = r [unfolded main_step_def]
  have k: "p_main c = Selecting \<Longrightarrow> p_kill c = 0" using mi by (simp add: main_inv_def)
  have "workers_inv model history c' \<mu>s"
    by (rule workers_inv_main [OF wi])
      (use False c' k in \<open>auto split: main_phase.splits action.splits list.splits if_splits\<close>)
  moreover have "main_inv rng model history computeInfo timeout c'"
  proof -
    consider "p_main c = Selecting" "timeout > 0"
        "c' = c\<lparr>p_timedOut := True, p_kill := 1, p_main := Draining\<rparr>"
      | b rest where "p_main c = Draining" "computeInfo" "p_count c < length history" "p_results c = b # rest"
        "c' = c\<lparr>p_results := rest, p_count := Suc (p_count c)\<rparr>"
      | "p_main c = Draining" "\<not> (computeInfo \<and> p_count c < length history)"
        "c' = c\<lparr>p_main := Answered (verdict c) (if computeInfo then collect_info rng history c
           else \<lparr>li_history = [], li_partialLinearizations = []\<rparr>)\<rparr>"
      using False c' by (fastforce split: main_phase.splits action.splits list.splits if_splits)
    then show ?thesis using mi
      by cases (simp_all add: main_inv_def verdict_def collect_info_def not_less)
  qed
  moreover have "main_measure (length history) c' < main_measure (length history) c"
    using False c' by (auto simp: main_measure_def split: main_phase.splits action.splits list.splits if_splits)
  ultimately show ?thesis unfolding step_good_def par_inv_def par_measure_def by auto
qed

lemma par_step_good:
  assumes job: "job_ok model history" and inv: "par_inv rng model history computeInfo timeout c \<mu>s"
    and r: "par_step rng model history computeInfo timeout a c = Some r"
  shows "step_good rng model history computeInfo timeout c \<mu>s r"
proof (cases "\<exists>i. a = Work i")
  case True
  then obtain i where a: "a = Work i" by blast
  have len: "length (p_workers c) = length history" using inv by (simp add: par_inv_def workers_inv_def)
  have "i < length history" "\<not> has_exited (p_workers c ! i)"
    using r len by (auto simp: a par_step_def worker_step_def split: if_splits worker.splits)
  from worker_step_enabled [OF job inv this] show ?thesis using r by (simp add: a par_step_def)
next
  case False
  then show ?thesis using main_step_good [OF inv, of a] r by (auto simp: par_step_def split: action.splits)
qed

section \<open>Runs\<close>

lemma par_run_good:
  assumes job: "job_ok model history" and inv: "par_inv rng model history computeInfo timeout c \<mu>s"
    and r: "par_run rng model history computeInfo timeout sched c = Some r"
  shows "\<exists>c' \<mu>s'. r = Inr c' \<and> par_inv rng model history computeInfo timeout c' \<mu>s' \<and>
    length sched + par_measure history c' \<mu>s' \<le> par_measure history c \<mu>s"
  using inv r
proof (induction sched arbitrary: c \<mu>s)
  case (Cons a sched)
  from Cons.prems(2) obtain r' where st: "par_step rng model history computeInfo timeout a c = Some r'"
    by (auto split: option.splits)
  from par_step_good [OF job Cons.prems(1) st] obtain c' \<mu>s' where
    c': "r' = Inr c'" "par_inv rng model history computeInfo timeout c' \<mu>s'"
      "par_measure history c' \<mu>s' < par_measure history c \<mu>s"
    by (auto simp: step_good_def)
  then have "par_run rng model history computeInfo timeout sched c' = Some r" using Cons.prems(2) st by simp
  from Cons.IH [OF c'(2) this] c'(3) show ?case by force
qed auto

text \<open>Progress: until the caller answers, some action is enabled.\<close>

lemma par_progress:
  assumes job: "job_ok model history" and inv: "par_inv rng model history computeInfo timeout c \<mu>s"
    and ne: "history \<noteq> [] \<or> timeout > 0" and run: "\<forall>r info. p_main c \<noteq> Answered r info"
  shows "\<exists>a r. par_step rng model history computeInfo timeout a c = Some r"
proof (cases "p_results c = [] \<and> (p_main c = Selecting \<and> history \<noteq> [] \<or>
    p_main c = Draining \<and> computeInfo \<and> p_count c < length history)")
  case True
  have wi: "workers_inv model history c \<mu>s" and mi: "main_inv rng model history computeInfo timeout c"
    using inv by (simp_all add: par_inv_def)
  have "p_count c < length history" using True mi by (auto simp: main_inv_def)
  then have "length (filter has_exited (p_workers c)) < length (p_workers c)"
    using wi True by (simp add: workers_inv_def)
  then obtain w where "w \<in> set (p_workers c)" "\<not> has_exited w"
    by (metis filter_True less_irrefl)
  then obtain i where "i < length history" "\<not> has_exited (p_workers c ! i)"
    using wi by (metis in_set_conv_nth workers_inv_def)
  from worker_step_enabled [OF job inv this] have
    "\<exists>r. par_step rng model history computeInfo timeout (Work i) c = Some r"
    by (auto simp: par_step_def)
  then show ?thesis by blast
next
  case False
  have "\<exists>a \<in> {Receive, Timer, Drain, Finish}. main_step rng history computeInfo timeout a c \<noteq> None"
    using False run ne
    by (cases "p_main c"; cases "p_results c") (auto simp: main_step_def main_receive_def Let_def)
  then show ?thesis by (auto simp: par_step_def split: action.splits intro: exI [of _ Receive] exI [of _ Timer])
qed

section \<open>The answer\<close>

text \<open>Ranging over a map visits every key once, in any order.\<close>

definition ranges_keys :: "(nat list \<Rightarrow> nat list) \<Rightarrow> bool" where
  "ranges_keys rng \<longleftrightarrow> (\<forall>ks. distinct ks \<longrightarrow> mset (rng ks) = mset ks)"

lemma ranges_keysD: "ranges_keys rng \<Longrightarrow> distinct ks \<Longrightarrow> set (rng ks) = set ks"
  by (metis ranges_keys_def set_mset_mset)

lemma pointer_set:
  "distinct acc \<Longrightarrow>
   (let ks = fold (\<lambda>v set. case v of None \<Rightarrow> set | Some k \<Rightarrow> List.insert k set) longest acc in
    distinct ks \<and> set ks = set acc \<union> {k. Some k \<in> set longest})"
proof (induction longest arbitrary: acc)
  case (Cons v longest)
  then show ?case by (cases v) (force simp: Let_def)+
qed simp

lemma collect_partials_set:
  assumes "ranges_keys rng"
  shows "set (collect_partials rng (longest, seqs)) = {seqs ! k | k. Some k \<in> set longest}"
  using ranges_keysD [OF assms] pointer_set [of "[]" longest]
  by (auto simp: collect_partials_def Let_def)

text \<open>
  The answer is right: \<open>Ok\<close> only for partitions that are all linearizable, \<open>Illegal\<close> only when one
  is not, \<open>Unknown\<close> only with a timeout; the partial linearizations reported are such.
\<close>

definition answer_ok ::
    "('v, 's) Model \<Rightarrow> 'v entry list list \<Rightarrow> int \<Rightarrow> CheckResult \<Rightarrow> bool" where
  "answer_ok model history timeout res \<longleftrightarrow>
     (case res of
        Ok \<Rightarrow> \<forall>es \<in> set history. linearizable model es
      | Illegal \<Rightarrow> equal_sound model \<longrightarrow> (\<exists>es \<in> set history. \<not> linearizable model es)
      | Unknown \<Rightarrow> timeout > 0)"

definition info_ok ::
    "('v, 's) Model \<Rightarrow> 'v entry list list \<Rightarrow> CheckResult \<Rightarrow> 'v linearizationInfo \<Rightarrow> bool" where
  "info_ok model history res info \<longleftrightarrow>
     li_history info = history \<and> length (li_partialLinearizations info) = length history \<and>
     (\<forall>i < length history. \<forall>\<sigma> \<in> set (li_partialLinearizations info ! i).
        \<sigma> \<noteq> [] \<and> partial_linearization model (history ! i) \<sigma> \<and>
        (res = Ok \<longrightarrow> linearization model (history ! i) \<sigma>))"

lemma answered_verdict:
  assumes inv: "par_inv rng model history computeInfo timeout c \<mu>s" and m: "p_main c = Answered res info"
  shows "answer_ok model history timeout res"
proof -
  have wi: "workers_inv model history c \<mu>s" and mi: "main_inv rng model history computeInfo timeout c"
    using inv by (simp_all add: par_inv_def)
  have r: "res = verdict c" using mi m by (simp add: main_inv_def)
  have ok: "linearizable model es" if ok: "p_ok c" "\<not> p_timedOut c" and es: "es \<in> set history" for es
  proof -
    have n: "length history \<le> p_count c" using mi m ok by (simp add: main_inv_def)
    have "p_results c = []" by (rule no_results_left [OF wi n])
    then have nf: "Exited False \<notin> set (p_workers c)" using mi m ok by (simp add: main_inv_def)
    obtain i where i: "i < length history" "es = history ! i" using es by (metis in_set_conv_nth)
    obtain b where b: "p_workers c ! i = Exited b"
      using all_exited [OF wi n i(1)] by (cases "p_workers c ! i") auto
    have "p_workers c ! i \<in> set (p_workers c)" using wi i by (simp add: workers_inv_def)
    then have b by (metis b nf)
    then show ?thesis using wi i b by (auto simp: workers_inv_def verdict_ok_def)
  qed
  have bad: "some_illegal model history" if "\<not> p_ok c" using mi that by (simp add: main_inv_def)
  show ?thesis
    using ok bad mi r by (auto simp: answer_ok_def verdict_def main_inv_def some_illegal_def)
qed

lemma answered_info:
  assumes rng: "ranges_keys rng" and inv: "par_inv rng model history True timeout c \<mu>s"
    and m: "p_main c = Answered res info"
  shows "info_ok model history res info"
proof -
  have wi: "workers_inv model history c \<mu>s" and mi: "main_inv rng model history True timeout c"
    using inv by (simp_all add: par_inv_def)
  have r: "res = verdict c" and info: "info = collect_info rng history c" and n: "length history \<le> p_count c"
    using mi m by (simp_all add: main_inv_def)
  have "\<sigma> \<noteq> [] \<and> partial_linearization model (history ! i) \<sigma> \<and>
      (res = Ok \<longrightarrow> linearization model (history ! i) \<sigma>)"
    if i: "i < length history" and \<sigma>: "\<sigma> \<in> set (collect_partials rng (p_longest c ! i))" for i \<sigma>
  proof -
    obtain b where b: "p_workers c ! i = Exited b"
      using all_exited [OF wi n i] by (cases "p_workers c ! i") auto
    obtain longest seqs where l: "p_longest c ! i = (longest, seqs)" by (cases "p_longest c ! i")
    have v: "verdict_ok model (history ! i) (equal_sound model) (\<lambda>_. p_kill c) (b, longest, seqs)"
      using wi i b l by (auto simp: workers_inv_def)
    obtain p where p: "Some p \<in> set longest" "\<sigma> = seqs ! p"
      using \<sigma> collect_partials_set [OF rng] by (auto simp: l)
    have "res = Ok \<Longrightarrow> Exited False \<notin> set (p_workers c)"
      using mi r no_results_left [OF wi n] by (auto simp: main_inv_def verdict_def split: if_splits)
    moreover have "p_workers c ! i \<in> set (p_workers c)" using wi i by (simp add: workers_inv_def)
    ultimately have "res = Ok \<Longrightarrow> b" by (metis b)
    moreover have "b \<longrightarrow> linearization model (history ! i) \<sigma>"
      using v p by (auto simp: verdict_ok_def)
    moreover obtain k where "k < length longest" "longest ! k = Some p"
      using p(1) by (metis in_set_conv_nth)
    then have "partial_linearization model (history ! i) \<sigma> \<and> int k \<in> set \<sigma>"
      using v p(2) by (simp add: verdict_ok_def longest_ok_def)
    then have "\<sigma> \<noteq> [] \<and> partial_linearization model (history ! i) \<sigma>" by auto
    ultimately show ?thesis by blast
  qed
  then show ?thesis using wi by (simp add: info_ok_def info collect_info_def workers_inv_def)
qed

lemma checkParallel_answers:
  assumes job: "job_ok model history" and rng: "ranges_keys rng"
    and r: "checkParallel rng model history computeInfo timeout sched = Some r"
  shows "\<exists>res info. r = Inr (res, info) \<and> answer_ok model history timeout res \<and>
    (computeInfo \<longrightarrow> info_ok model history res info)"
proof -
  obtain r' where run: "par_run rng model history computeInfo timeout sched (par_init history) = Some r'"
    using r by (auto simp: checkParallel_def split: option.splits)
  from par_run_good [OF job par_inv_init run] obtain c \<mu>s where
    c: "r' = Inr c" "par_inv rng model history computeInfo timeout c \<mu>s" by blast
  obtain res info where m: "p_main c = Answered res info" "r = Inr (res, info)"
    using r run c(1) by (auto simp: checkParallel_def split: main_phase.splits)
  show ?thesis
    using answered_verdict [OF c(2) m(1)] answered_info [OF rng _ m(1)] c(2) m(2) by auto
qed

section \<open>Termination\<close>

definition par_bound :: "('v, 's) Model \<Rightarrow> 'v entry list list \<Rightarrow> nat" where
  "par_bound model history =
     (\<Sum>es\<leftarrow>history. search_measure (search_start model es) + 4) + 2 * length history + 2"

lemma par_run_bounded:
  assumes job: "job_ok model history" and ne: "history \<noteq> [] \<or> timeout > 0"
    and r: "par_run rng model history computeInfo timeout sched (par_init history) = Some r"
  shows "length sched \<le> par_bound model history \<and>
    (\<exists>c. r = Inr c \<and> ((\<exists>res info. p_main c = Answered res info) \<or>
       (\<exists>a r'. par_step rng model history computeInfo timeout a c = Some r')))"
proof -
  from par_run_good [OF job par_inv_init r] obtain c \<mu>s where
    c: "r = Inr c" "par_inv rng model history computeInfo timeout c \<mu>s"
      "length sched \<le> par_measure history (par_init history :: ('a, 'b) par)
         (map (\<lambda>es. search_measure (search_start model es) + 4) history)"
    by auto
  then show ?thesis using par_progress [OF job c(2) ne]
    by (auto simp: par_measure_def par_bound_def main_measure_def par_init_def)
qed

lemma par_run_append:
  "par_run rng model history computeInfo timeout (as @ bs) c =
     (case par_run rng model history computeInfo timeout as c of
        Some (Inr c') \<Rightarrow> par_run rng model history computeInfo timeout bs c' | r \<Rightarrow> r)"
  by (induction as arbitrary: c) (auto split: option.splits sum.splits)

lemma par_run_completes:
  assumes job: "job_ok model history" and ne: "history \<noteq> [] \<or> timeout > 0"
    and inv: "par_inv rng model history computeInfo timeout c \<mu>s"
  shows "\<exists>sched c' res info. par_run rng model history computeInfo timeout sched c = Some (Inr c') \<and>
    p_main c' = Answered res info"
  using inv
proof (induction "par_measure history c \<mu>s" arbitrary: c \<mu>s rule: less_induct)
  case less
  show ?case
  proof (cases "\<exists>res info. p_main c = Answered res info")
    case True
    then have "par_run rng model history computeInfo timeout [] c = Some (Inr c) \<and>
      (\<exists>res info. p_main c = Answered res info)" by simp
    then show ?thesis by blast
  next
    case False
    then obtain a r where st: "par_step rng model history computeInfo timeout a c = Some r"
      using par_progress [OF job less.prems ne] by blast
    from par_step_good [OF job less.prems st] obtain c1 \<mu>s1 where
      c1: "r = Inr c1" "par_inv rng model history computeInfo timeout c1 \<mu>s1"
        "par_measure history c1 \<mu>s1 < par_measure history c \<mu>s"
      by (auto simp: step_good_def)
    from less.hyps [OF c1(3,2)] obtain sched c' res info where
      "par_run rng model history computeInfo timeout sched c1 = Some (Inr c')" "p_main c' = Answered res info"
      by blast
    then have "par_run rng model history computeInfo timeout (a # sched) c = Some (Inr c') \<and>
      p_main c' = Answered res info" using st c1(1) by simp
    then show ?thesis by blast
  qed
qed

text \<open>Every run of an unanswered caller can be continued to its answer.\<close>

lemma checkParallel_can_finish:
  assumes job: "job_ok model history" and ne: "history \<noteq> [] \<or> timeout > 0"
    and run: "par_run rng model history computeInfo timeout sched (par_init history) = Some r"
  shows "\<exists>rest res info. checkParallel rng model history computeInfo timeout (sched @ rest) =
    Some (Inr (res, info))"
proof -
  from par_run_good [OF job par_inv_init run] obtain c \<mu>s where
    c: "r = Inr c" "par_inv rng model history computeInfo timeout c \<mu>s" by blast
  from par_run_completes [OF job ne c(2)] obtain rest c' res info where
    "par_run rng model history computeInfo timeout rest c = Some (Inr c')" "p_main c' = Answered res info"
    by blast
  then have "checkParallel rng model history computeInfo timeout (sched @ rest) = Some (Inr (res, info))"
    using run c(1) by (simp add: checkParallel_def par_run_append)
  then show ?thesis by blast
qed

text \<open>Without a partition and without a timer there is nothing to receive: the caller blocks.\<close>

lemma checkParallel_blocks:
  assumes "timeout \<le> 0"
  shows "checkParallel rng model [] computeInfo timeout sched = None"
proof (cases sched)
  case (Cons a as)
  have "par_step rng model [] computeInfo timeout a (par_init []) = None"
    using assms by (cases a)
      (auto simp: par_step_def worker_step_def main_step_def main_receive_def par_init_def)
  then show ?thesis by (simp add: checkParallel_def Cons)
qed (simp add: checkParallel_def par_init_def)

end
