(* ===== verification/Porcupine_API.thy ===== *)
theory Porcupine_API
  imports Parallel_Correct
begin

text \<open>
  \<^verbatim>\<open>checkEvents\<close>, \<^verbatim>\<open>checkOperations\<close> and the exported functions of \<^verbatim>\<open>porcupine/porcupine.go\<close>, on top of
  \<open>checkParallel\<close>; the histories they accept, and what their answers mean for histories of
  operations and of events.  The run-time library the code calls (formatting, sorting, the order of
  a range over a map) is collected in a record.
\<close>

section \<open>Definitions\<close>

record ('v, 's) go_runtime =
  rt_fmt :: "('v, 's) go_fmt"
  rt_sort :: "'v entry list \<Rightarrow> 'v entry list"
  rt_range :: "nat list \<Rightarrow> nat list"

definition checkEvents ::
    "('v, 's) go_runtime \<Rightarrow> ('v, 's) Model \<Rightarrow> 'v Event list \<Rightarrow> bool \<Rightarrow> int \<Rightarrow> action list
       \<Rightarrow> (CheckResult \<times> 'v linearizationInfo) result option" where
  "checkEvents rt model history verbose timeout sched =
     (let model = fillDefault (rt_fmt rt) model in
      case call_PartitionEvent model history of
        Inl e \<Rightarrow> Some (Inl e)
      | Inr partitions \<Rightarrow>
          (let l = map (\<lambda>subhistory. convertEntries (renumber subhistory)) partitions
           in checkParallel (rt_range rt) model l verbose timeout sched))"

definition checkOperations ::
    "('v, 's) go_runtime \<Rightarrow> ('v, 's) Model \<Rightarrow> 'v Operation list \<Rightarrow> bool \<Rightarrow> int \<Rightarrow> action list
       \<Rightarrow> (CheckResult \<times> 'v linearizationInfo) result option" where
  "checkOperations rt model history verbose timeout sched =
     (let model = fillDefault (rt_fmt rt) model in
      case call_Partition model history of
        Inl e \<Rightarrow> Some (Inl e)
      | Inr partitions \<Rightarrow>
          (let l = map (makeEntries (rt_sort rt)) partitions
           in checkParallel (rt_range rt) model l verbose timeout sched))"

definition CheckOperations ::
    "('v, 's) go_runtime \<Rightarrow> ('v, 's) Model \<Rightarrow> 'v Operation list \<Rightarrow> action list \<Rightarrow> bool result option" where
  "CheckOperations rt model history sched =
     map_option (map_sum id (\<lambda>(res, _). res = Ok)) (checkOperations rt model history False 0 sched)"

definition CheckOperationsTimeout ::
    "('v, 's) go_runtime \<Rightarrow> ('v, 's) Model \<Rightarrow> 'v Operation list \<Rightarrow> int \<Rightarrow> action list
       \<Rightarrow> CheckResult result option" where
  "CheckOperationsTimeout rt model history timeout sched =
     map_option (map_sum id fst) (checkOperations rt model history False timeout sched)"

definition CheckOperationsVerbose ::
    "('v, 's) go_runtime \<Rightarrow> ('v, 's) Model \<Rightarrow> 'v Operation list \<Rightarrow> int \<Rightarrow> action list
       \<Rightarrow> (CheckResult \<times> 'v linearizationInfo) result option" where
  "CheckOperationsVerbose rt model history timeout sched =
     checkOperations rt model history True timeout sched"

definition CheckEvents ::
    "('v, 's) go_runtime \<Rightarrow> ('v, 's) Model \<Rightarrow> 'v Event list \<Rightarrow> action list \<Rightarrow> bool result option" where
  "CheckEvents rt model history sched =
     map_option (map_sum id (\<lambda>(res, _). res = Ok)) (checkEvents rt model history False 0 sched)"

definition CheckEventsTimeout ::
    "('v, 's) go_runtime \<Rightarrow> ('v, 's) Model \<Rightarrow> 'v Event list \<Rightarrow> int \<Rightarrow> action list
       \<Rightarrow> CheckResult result option" where
  "CheckEventsTimeout rt model history timeout sched =
     map_option (map_sum id fst) (checkEvents rt model history False timeout sched)"

definition CheckEventsVerbose ::
    "('v, 's) go_runtime \<Rightarrow> ('v, 's) Model \<Rightarrow> 'v Event list \<Rightarrow> int \<Rightarrow> action list
       \<Rightarrow> (CheckResult \<times> 'v linearizationInfo) result option" where
  "CheckEventsVerbose rt model history timeout sched =
     checkEvents rt model history True timeout sched"

definition runtime_ok :: "('v, 's) go_runtime \<Rightarrow> bool" where
  "runtime_ok rt \<longleftrightarrow> sorts_by_time (rt_sort rt) \<and> ranges_keys (rt_range rt)"

section \<open>Histories of operations\<close>

definition call_entry :: "nat \<Rightarrow> 'v Operation \<Rightarrow> 'v entry" where
  "call_entry k op = \<lparr>entry_kind = callEntry, entry_value = op_Input op, entry_id = int k,
     entry_time = op_Call op, entry_clientId = op_ClientId op\<rparr>"

definition ret_entry :: "nat \<Rightarrow> 'v Operation \<Rightarrow> 'v entry" where
  "ret_entry k op = \<lparr>entry_kind = returnEntry, entry_value = op_Output op, entry_id = int k,
     entry_time = op_Return op, entry_clientId = op_ClientId op\<rparr>"

lemma entry_of_simps [simp]:
  "entry_kind (call_entry k op) = callEntry" "entry_kind (ret_entry k op) = returnEntry"
  "entry_id (call_entry k op) = int k" "entry_id (ret_entry k op) = int k"
  "entry_time (call_entry k op) = op_Call op" "entry_time (ret_entry k op) = op_Return op"
  "entry_value (call_entry k op) = op_Input op" "entry_value (ret_entry k op) = op_Output op"
  by (simp_all add: call_entry_def ret_entry_def)

lemma makeEntries_loop_conv:
  "makeEntries_loop ops (int n) es =
     es @ concat (map (\<lambda>(k, op). [call_entry k op, ret_entry k op]) (enumerate n ops))"
proof (induction ops arbitrary: n es)
  case (Cons op ops)
  have "int n + 1 = int (Suc n)" by simp
  then show ?case
    using Cons [of "Suc n"] by (simp only: makeEntries_loop.simps Let_def)
      (simp add: call_entry_def ret_entry_def)
qed simp

definition op_entries :: "'v Operation list \<Rightarrow> 'v entry list" where
  "op_entries ops = concat (map (\<lambda>(k, op). [call_entry k op, ret_entry k op]) (enumerate 0 ops))"

lemma makeEntries_op_entries: "makeEntries srt ops = srt (op_entries ops)"
  using makeEntries_loop_conv [of ops 0 "[]"] by (simp add: makeEntries_def op_entries_def)

lemma op_entries_filter:
  "filter (\<lambda>e. entry_kind e = callEntry) (op_entries ops) = map (\<lambda>(k, op). call_entry k op) (enumerate 0 ops)"
  "filter (\<lambda>e. entry_kind e = returnEntry) (op_entries ops) = map (\<lambda>(k, op). ret_entry k op) (enumerate 0 ops)"
proof -
  have "filter (\<lambda>e. entry_kind e = callEntry) (concat (map (\<lambda>(k, op). [call_entry k op, ret_entry k op]) xs)) =
      map (\<lambda>(k, op). call_entry k op) xs"
    "filter (\<lambda>e. entry_kind e = returnEntry) (concat (map (\<lambda>(k, op). [call_entry k op, ret_entry k op]) xs)) =
      map (\<lambda>(k, op). ret_entry k op) xs" for xs :: "(nat \<times> 'a Operation) list"
    by (induction xs) auto
  then show "filter (\<lambda>e. entry_kind e = callEntry) (op_entries ops) = map (\<lambda>(k, op). call_entry k op) (enumerate 0 ops)"
    "filter (\<lambda>e. entry_kind e = returnEntry) (op_entries ops) = map (\<lambda>(k, op). ret_entry k op) (enumerate 0 ops)"
    by (simp_all add: op_entries_def)
qed

lemma op_entries_ids:
  "map entry_id (filter (\<lambda>e. entry_kind e = callEntry) (op_entries ops)) = map int [0..<length ops]"
  "map entry_id (filter (\<lambda>e. entry_kind e = returnEntry) (op_entries ops)) = map int [0..<length ops]"
proof -
  have "map int (map fst (enumerate 0 ops)) = map (\<lambda>x. int (fst x)) (enumerate 0 ops)"
    by (simp only: map_map comp_def)
  then have "map (\<lambda>x. int (fst x)) (enumerate 0 ops) = map int [0..<length ops]" by simp
  then show "map entry_id (filter (\<lambda>e. entry_kind e = callEntry) (op_entries ops)) = map int [0..<length ops]"
    "map entry_id (filter (\<lambda>e. entry_kind e = returnEntry) (op_entries ops)) = map int [0..<length ops]"
    unfolding op_entries_filter by (simp_all add: comp_def case_prod_unfold)
qed

lemma op_entries_set:
  "set (op_entries ops) = (\<Union>k < length ops. {call_entry k (ops ! k), ret_entry k (ops ! k)})"
proof -
  have "set (enumerate 0 ops) = (\<lambda>k. (k, ops ! k)) ` {..<length ops}"
    by (auto simp: in_set_enumerate_eq)
  then show ?thesis by (auto simp: op_entries_def)
qed

lemma op_entries_length: "length (op_entries ops) = 2 * length ops"
  by (simp add: op_entries_def length_concat comp_def case_prod_unfold sum_list_triv)

text \<open>An operation returns after it was called; the histories a Go slice can hold.\<close>

definition wf_operations :: "'v Operation list \<Rightarrow> bool" where
  "wf_operations ops \<longleftrightarrow> (\<forall>op \<in> set ops. op_Call op < op_Return op) \<and> length ops < 2 ^ 62"

lemma sorted_time_nth:
  assumes "sorts_by_time srt" "p < q" "q < length (srt es)"
  shows "entry_time (srt es ! p) \<le> entry_time (srt es ! q)"
  using assms sorted_wrt_nth_less [of "\<lambda>a b. \<not> byTime_Less b a" "srt es" p q]
  by (auto simp: sorts_by_time_def byTime_Less_def)

lemma makeEntries_perm:
  assumes "sorts_by_time srt"
  shows "mset (makeEntries srt ops) = mset (op_entries ops)" "set (makeEntries srt ops) = set (op_entries ops)"
    "length (makeEntries srt ops) = 2 * length ops"
proof -
  show m: "mset (makeEntries srt ops) = mset (op_entries ops)"
    using assms by (simp add: makeEntries_op_entries sorts_by_time_def)
  from mset_eq_setD [OF m] show "set (makeEntries srt ops) = set (op_entries ops)" .
  from mset_eq_length [OF m] show "length (makeEntries srt ops) = 2 * length ops"
    by (simp add: op_entries_length)
qed

lemma makeEntries_ids:
  assumes "sorts_by_time srt"
  shows "mset (map entry_id (filter (\<lambda>e. entry_kind e = kd) (makeEntries srt ops))) = mset (map int [0..<length ops])"
proof -
  have "mset (map entry_id (filter (\<lambda>e. entry_kind e = kd) (makeEntries srt ops))) =
      mset (map entry_id (filter (\<lambda>e. entry_kind e = kd) (op_entries ops)))"
    unfolding mset_map mset_filter using makeEntries_perm(1) [OF assms, of ops] by simp
  then show ?thesis by (cases kd) (simp_all add: op_entries_ids)
qed

lemma makeEntries_wf:
  assumes srt: "sorts_by_time srt" and ops: "wf_operations ops"
  shows "wf_history (makeEntries srt ops)"
proof -
  let ?es = "makeEntries srt ops"
  note perm = makeEntries_perm [OF srt, of ops]
  have ids: "distinct (map entry_id (filter (\<lambda>e. entry_kind e = kd) ?es)) \<and>
      set (map entry_id (filter (\<lambda>e. entry_kind e = kd) ?es)) = set (map int [0..<length ops])" for kd
    using makeEntries_ids [OF srt, of kd ops]
    by (metis (no_types) distinct_map distinct_upt inj_on_of_nat mset_eq_imp_distinct_iff mset_eq_setD)
  have "\<exists>p<q. is_call_of (entry_id (?es ! q)) (?es ! p)"
    if q: "q < length ?es" "entry_kind (?es ! q) = returnEntry" for q
  proof -
    have "?es ! q \<in> set (op_entries ops)" using q(1) perm(2) nth_mem by blast
    then obtain k where k: "k < length ops" "?es ! q = ret_entry k (ops ! k)"
      using q(2) by (auto simp: op_entries_set)
    then have "call_entry k (ops ! k) \<in> set ?es" by (auto simp: perm(2) op_entries_set)
    then obtain p where p: "p < length ?es" "?es ! p = call_entry k (ops ! k)"
      by (metis in_set_conv_nth)
    have "p < q"
    proof (rule ccontr)
      assume "\<not> p < q"
      then have "q < p" using p k by (metis entry_of_simps(1,2) entryKind.distinct(1) linorder_neqE_nat)
      then have "op_Return (ops ! k) \<le> op_Call (ops ! k)"
        using sorted_time_nth [OF srt, of q p "op_entries ops"] p k by (simp add: makeEntries_op_entries)
      moreover have "op_Call (ops ! k) < op_Return (ops ! k)" using ops k(1) by (simp add: wf_operations_def)
      ultimately show False by simp
    qed
    then show ?thesis using p k by (auto simp: is_call_of_def)
  qed
  then show ?thesis using ids perm(3) ops by (simp add: wf_history_def wf_operations_def)
qed

section \<open>Linearizability of a history of operations\<close>

text \<open>
  An order of the operations in which none comes before one that returned before it was called, and
  which the model accepts.
\<close>

fun op_legal :: "('v, 's) Model \<Rightarrow> 'v Operation list \<Rightarrow> 's \<Rightarrow> nat list \<Rightarrow> bool" where
  "op_legal model ops s [] \<longleftrightarrow> True"
| "op_legal model ops s (k # \<tau>) \<longleftrightarrow>
     (case Step model s (op_Input (ops ! k)) (op_Output (ops ! k)) of
        Inr (ok, s') \<Rightarrow> ok \<and> op_legal model ops s' \<tau> | Inl _ \<Rightarrow> False)"

definition op_linearization :: "('v, 's) Model \<Rightarrow> 'v Operation list \<Rightarrow> nat list \<Rightarrow> bool" where
  "op_linearization model ops \<tau> \<longleftrightarrow>
     distinct \<tau> \<and> set \<tau> = {..<length ops} \<and>
     sorted_wrt (\<lambda>i j. \<not> op_Return (ops ! j) < op_Call (ops ! i)) \<tau> \<and>
     op_legal model ops (Init model ()) \<tau>"

definition op_linearizable :: "('v, 's) Model \<Rightarrow> 'v Operation list \<Rightarrow> bool" where
  "op_linearizable model ops \<longleftrightarrow> (\<exists>\<tau>. op_linearization model ops \<tau>)"

definition ops_safe :: "('v, 's) Model \<Rightarrow> 'v Operation list \<Rightarrow> bool" where
  "ops_safe model ops \<longleftrightarrow>
     (\<forall>op \<in> set ops. \<forall>s. \<exists>x. Step model s (op_Input op) (op_Output op) = Inr x)"

text \<open>No operation returns at the very instant at which another one is called.\<close>

definition no_ties :: "'v Operation list \<Rightarrow> bool" where
  "no_ties ops \<longleftrightarrow> (\<forall>a \<in> set ops. \<forall>b \<in> set ops. op_Return a \<noteq> op_Call b)"

lemma wf_value_mem:
  assumes "wf_history es" "e \<in> set es"
  shows "entry_kind e = callEntry \<Longrightarrow> call_value es (entry_id e) = entry_value e"
    and "entry_kind e = returnEntry \<Longrightarrow> ret_value es (entry_id e) = entry_value e"
proof -
  obtain a where a: "a < length es" "e = rev es ! a" using nth_rev_set [OF assms(2)] by blast
  show "entry_kind e = callEntry \<Longrightarrow> call_value es (entry_id e) = entry_value e"
    using wf_call_value [OF assms(1) a(1)] a by (simp add: is_call_def id_at_def)
  show "entry_kind e = returnEntry \<Longrightarrow> ret_value es (entry_id e) = entry_value e"
    using wf_ret_value [OF assms(1) a(1)] a by (simp add: is_call_def id_at_def)
qed

lemma makeEntries_values:
  assumes srt: "sorts_by_time srt" and ops: "wf_operations ops" and k: "k < length ops"
  shows "call_value (makeEntries srt ops) (int k) = op_Input (ops ! k)"
    "ret_value (makeEntries srt ops) (int k) = op_Output (ops ! k)"
proof -
  have "call_entry k (ops ! k) \<in> set (makeEntries srt ops)" "ret_entry k (ops ! k) \<in> set (makeEntries srt ops)"
    using k by (auto simp: makeEntries_perm(2) [OF srt] op_entries_set)
  note v = wf_value_mem [OF makeEntries_wf [OF srt ops] this(1)] wf_value_mem [OF makeEntries_wf [OF srt ops] this(2)]
  show "call_value (makeEntries srt ops) (int k) = op_Input (ops ! k)"
    "ret_value (makeEntries srt ops) (int k) = op_Output (ops ! k)"
    using v(1,4) by simp_all
qed

lemma makeEntries_op_ids:
  assumes srt: "sorts_by_time srt" and ops: "wf_operations ops"
  shows "op_ids (makeEntries srt ops) = int ` {..<length ops}"
  using wf_ids(1) [OF makeEntries_wf [OF srt ops]] makeEntries_perm(3) [OF srt, of ops]
    image_int_atLeastLessThan [of 0 "length ops"] by (simp add: lessThan_atLeast0)

lemma makeEntries_at:
  assumes srt: "sorts_by_time srt" and k: "k < length ops"
  shows "p < length (makeEntries srt ops) \<Longrightarrow>
      is_call_of (int k) (makeEntries srt ops ! p) \<longleftrightarrow> makeEntries srt ops ! p = call_entry k (ops ! k)"
    "p < length (makeEntries srt ops) \<Longrightarrow>
      is_ret_of (int k) (makeEntries srt ops ! p) \<longleftrightarrow> makeEntries srt ops ! p = ret_entry k (ops ! k)"
proof -
  assume "p < length (makeEntries srt ops)"
  then have "makeEntries srt ops ! p \<in> set (op_entries ops)" using makeEntries_perm(2) [OF srt] nth_mem by blast
  then show "is_call_of (int k) (makeEntries srt ops ! p) \<longleftrightarrow> makeEntries srt ops ! p = call_entry k (ops ! k)"
    "is_ret_of (int k) (makeEntries srt ops ! p) \<longleftrightarrow> makeEntries srt ops ! p = ret_entry k (ops ! k)"
    by (auto simp: op_entries_set is_call_of_def is_ret_of_def call_entry_def ret_entry_def)
qed

lemma makeEntries_precedes:
  assumes srt: "sorts_by_time srt" and i: "i < length ops" and j: "j < length ops"
  shows "precedes (makeEntries srt ops) (int j) (int i) \<Longrightarrow> op_Return (ops ! j) \<le> op_Call (ops ! i)"
    and "op_Return (ops ! j) < op_Call (ops ! i) \<Longrightarrow> precedes (makeEntries srt ops) (int j) (int i)"
proof -
  let ?es = "makeEntries srt ops"
  show "op_Return (ops ! j) \<le> op_Call (ops ! i)" if pr: "precedes ?es (int j) (int i)"
  proof -
    obtain p q where pq: "p < q" "q < length ?es" "is_ret_of (int j) (?es ! p)" "is_call_of (int i) (?es ! q)"
      using pr unfolding precedes_def by blast
    have "?es ! p = ret_entry j (ops ! j)" "?es ! q = call_entry i (ops ! i)"
      using pq makeEntries_at [OF srt i, of q] makeEntries_at [OF srt j, of p] by auto
    then show ?thesis
      using sorted_time_nth [OF srt, of p q "op_entries ops"] pq(1,2) by (simp add: makeEntries_op_entries)
  qed
  show "precedes ?es (int j) (int i)" if lt: "op_Return (ops ! j) < op_Call (ops ! i)"
  proof -
    have "ret_entry j (ops ! j) \<in> set ?es" "call_entry i (ops ! i) \<in> set ?es"
      using i j by (auto simp: makeEntries_perm(2) [OF srt] op_entries_set)
    then obtain p q where pq: "p < length ?es" "?es ! p = ret_entry j (ops ! j)"
        "q < length ?es" "?es ! q = call_entry i (ops ! i)"
      by (metis in_set_conv_nth)
    have "\<not> q < p" using sorted_time_nth [OF srt, of q p "op_entries ops"] pq lt
      by (auto simp: makeEntries_op_entries)
    moreover have "p \<noteq> q" using pq by (metis entry_of_simps(1,2) entryKind.distinct(1))
    ultimately have "p < q" by simp
    moreover have "is_ret_of (int j) (?es ! p)" "is_call_of (int i) (?es ! q)"
      using pq by (simp_all add: is_ret_of_def is_call_of_def)
    ultimately show ?thesis using pq(3) unfolding precedes_def by blast
  qed
qed

lemma makeEntries_legal:
  assumes srt: "sorts_by_time srt" and ops: "wf_operations ops" and "set \<tau> \<subseteq> {..<length ops}"
  shows "legal model (makeEntries srt ops) s (map int \<tau>) \<longleftrightarrow> op_legal model ops s \<tau>"
  using assms(3)
  by (induction \<tau> arbitrary: s) (auto simp: op_step_def makeEntries_values [OF srt ops] split: sum.splits)

lemma makeEntries_linearization:
  assumes srt: "sorts_by_time srt" and ops: "wf_operations ops"
  shows "linearization model (makeEntries srt ops) (map int \<tau>) \<Longrightarrow> op_linearization model ops \<tau>"
    and "no_ties ops \<Longrightarrow> op_linearization model ops \<tau> \<Longrightarrow> linearization model (makeEntries srt ops) (map int \<tau>)"
proof -
  have sub: "set (map int \<tau>) = int ` {..<length ops} \<longleftrightarrow> set \<tau> = {..<length ops}"
    using inj_image_eq_iff [of int "set \<tau>" "{..<length ops}"] by simp
  assume lin: "linearization model (makeEntries srt ops) (map int \<tau>)"
  then have s: "set \<tau> = {..<length ops}" using makeEntries_op_ids [OF srt ops] sub by (simp add: linearization_def)
  have "sorted_wrt (\<lambda>i j. \<not> precedes (makeEntries srt ops) (int j) (int i)) \<tau>"
    using lin by (simp add: linearization_def sorted_wrt_map)
  then have "sorted_wrt (\<lambda>i j. \<not> op_Return (ops ! j) < op_Call (ops ! i)) \<tau>"
    by (rule sorted_wrt_mono_rel [rotated]) (use makeEntries_precedes(2) [OF srt] s in auto)
  then show "op_linearization model ops \<tau>"
    using lin s makeEntries_legal [OF srt ops, of \<tau> model] by (simp add: op_linearization_def linearization_def distinct_map)
next
  assume nt: "no_ties ops" and lin: "op_linearization model ops \<tau>"
  then have s: "set \<tau> = {..<length ops}" by (simp add: op_linearization_def)
  have "sorted_wrt (\<lambda>i j. \<not> op_Return (ops ! j) < op_Call (ops ! i)) \<tau>"
    using lin by (simp add: op_linearization_def)
  then have "sorted_wrt (\<lambda>i j. \<not> precedes (makeEntries srt ops) (int j) (int i)) \<tau>"
  proof (rule sorted_wrt_mono_rel [rotated])
    fix i j assume "i \<in> set \<tau>" "j \<in> set \<tau>" and nl: "\<not> op_Return (ops ! j) < op_Call (ops ! i)"
    then have "i < length ops" "j < length ops" using s by auto
    moreover have "op_Return (ops ! j) \<noteq> op_Call (ops ! i)" using nt calculation by (simp add: no_ties_def)
    ultimately show "\<not> precedes (makeEntries srt ops) (int j) (int i)"
      using makeEntries_precedes(1) [OF srt, of i ops j] nl by auto
  qed
  then show "linearization model (makeEntries srt ops) (map int \<tau>)"
    using lin s makeEntries_legal [OF srt ops, of \<tau> model] makeEntries_op_ids [OF srt ops]
    by (simp add: op_linearization_def linearization_def distinct_map sorted_wrt_map)
qed

lemma makeEntries_linearizable:
  assumes srt: "sorts_by_time srt" and ops: "wf_operations ops"
  shows "linearizable model (makeEntries srt ops) \<Longrightarrow> op_linearizable model ops"
    and "no_ties ops \<Longrightarrow> op_linearizable model ops \<Longrightarrow> linearizable model (makeEntries srt ops)"
proof -
  assume "linearizable model (makeEntries srt ops)"
  then obtain \<sigma> where \<sigma>: "linearization model (makeEntries srt ops) \<sigma>" by (auto simp: linearizable_def)
  then have "set \<sigma> = int ` {..<length ops}" using makeEntries_op_ids [OF srt ops] by (simp add: linearization_def)
  then have "map int (map nat \<sigma>) = \<sigma>" unfolding map_map by (intro map_idI) auto
  then have "op_linearization model ops (map nat \<sigma>)" using makeEntries_linearization(1) [OF srt ops] \<sigma> by metis
  then show "op_linearizable model ops" by (auto simp: op_linearizable_def)
qed (use makeEntries_linearization(2) [OF srt ops] in \<open>auto simp: linearizable_def op_linearizable_def\<close>)

section \<open>The answers on histories of operations\<close>

lemma fillDefault_spec [simp]:
  "legal (fillDefault fm m) es s \<sigma> = legal m es s \<sigma>"
  "linearizable (fillDefault fm m) es = linearizable m es"
  "step_safe (fillDefault fm m) es = step_safe m es"
  "op_linearizable (fillDefault fm m) ops = op_linearizable m ops"
proof -
  have *: "op_step (fillDefault fm m) es = op_step m es" by (simp add: op_step_def fun_eq_iff)
  have l: "legal (fillDefault fm m) es s \<sigma> = legal m es s \<sigma>" for s \<sigma>
    by (induction \<sigma> arbitrary: s) (auto simp: * split: sum.splits)
  then show "legal (fillDefault fm m) es s \<sigma> = legal m es s \<sigma>" .
  show "linearizable (fillDefault fm m) es = linearizable m es"
    by (simp add: linearizable_def linearization_def l)
  show "step_safe (fillDefault fm m) es = step_safe m es" by (simp add: step_safe_def *)
  have o: "op_legal (fillDefault fm m) ops s \<tau> = op_legal m ops s \<tau>" for s \<tau>
    by (induction \<tau> arbitrary: s) (auto split: sum.splits)
  show "op_linearizable (fillDefault fm m) ops = op_linearizable m ops"
    by (simp add: op_linearizable_def op_linearization_def o)
qed

text \<open>
  The model's equality is sound: it is not given (states are then compared), or it only identifies
  states that allow the same steps.
\<close>

definition model_equal_sound :: "('v, 's) Model \<Rightarrow> bool" where
  "model_equal_sound model \<longleftrightarrow> Equal model = None \<or> equal_sound model"

lemma fillDefault_equal_sound: "model_equal_sound m \<Longrightarrow> equal_sound (fillDefault fm m)"
  by (auto simp: model_equal_sound_def equal_sound_def ShallowEqual_def split: option.splits)

lemma makeEntries_step_safe:
  assumes srt: "sorts_by_time srt" and ops: "wf_operations ops" and "ops_safe model ops"
  shows "step_safe model (makeEntries srt ops)"
  using assms(3) makeEntries_values [OF srt ops]
  by (auto simp: step_safe_def makeEntries_op_ids [OF srt ops] op_step_def ops_safe_def)

definition partitions_ok :: "('v, 's) Model \<Rightarrow> 'v Operation list list \<Rightarrow> bool" where
  "partitions_ok model parts \<longleftrightarrow> (\<forall>ops \<in> set parts. wf_operations ops \<and> ops_safe model ops)"

lemma makeEntries_job:
  assumes "runtime_ok rt" "partitions_ok model parts"
  shows "job_ok (fillDefault fm model) (map (makeEntries (rt_sort rt)) parts)"
  using assms makeEntries_wf [of "rt_sort rt"] makeEntries_step_safe [of "rt_sort rt" _ model]
  by (auto simp: job_ok_def partitions_ok_def runtime_ok_def)

lemma op_answers:
  assumes rt: "runtime_ok rt" and parts: "partitions_ok model parts"
    and a: "answer_ok (fillDefault fm model) (map (makeEntries (rt_sort rt)) parts) timeout res"
  shows "res = Ok \<Longrightarrow> \<forall>ops \<in> set parts. op_linearizable model ops"
    and "res = Illegal \<Longrightarrow> model_equal_sound model \<Longrightarrow> \<forall>ops \<in> set parts. no_ties ops \<Longrightarrow>
      \<exists>ops \<in> set parts. \<not> op_linearizable model ops"
    and "res = Unknown \<Longrightarrow> timeout > 0"
proof -
  have srt: "sorts_by_time (rt_sort rt)" using rt by (simp add: runtime_ok_def)
  have wf: "ops \<in> set parts \<Longrightarrow> wf_operations ops" for ops using parts by (simp add: partitions_ok_def)
  show "res = Ok \<Longrightarrow> \<forall>ops \<in> set parts. op_linearizable model ops"
    using a makeEntries_linearizable(1) [OF srt wf] by (auto simp: answer_ok_def)
  show "\<exists>ops \<in> set parts. \<not> op_linearizable model ops"
    if "res = Illegal" "model_equal_sound model" "\<forall>ops \<in> set parts. no_ties ops"
    using a that makeEntries_linearizable(2) [OF srt wf, of _ model] fillDefault_equal_sound [of model fm]
    by (auto simp: answer_ok_def)
  show "res = Unknown \<Longrightarrow> timeout > 0" using a by (simp add: answer_ok_def)
qed

lemma checkOperations_answers:
  assumes rt: "runtime_ok rt" and p: "call_Partition (fillDefault (rt_fmt rt) model) history = Inr parts"
    and parts: "partitions_ok model parts"
    and r: "checkOperations rt model history verbose timeout sched = Some r"
  shows "\<exists>res info. r = Inr (res, info) \<and>
    answer_ok (fillDefault (rt_fmt rt) model) (map (makeEntries (rt_sort rt)) parts) timeout res \<and>
    (verbose \<longrightarrow> info_ok (fillDefault (rt_fmt rt) model) (map (makeEntries (rt_sort rt)) parts) res info)"
proof (rule checkParallel_answers [OF makeEntries_job [OF rt parts]])
  show "ranges_keys (rt_range rt)" using rt by (simp add: runtime_ok_def)
  show "checkParallel (rt_range rt) (fillDefault (rt_fmt rt) model) (map (makeEntries (rt_sort rt)) parts)
      verbose timeout sched = Some r"
    using r p by (simp add: checkOperations_def Let_def)
qed

section \<open>Histories of events\<close>

text \<open>Every identifier that occurs has one call and one return, the call first.\<close>

definition wf_events :: "'v Event list \<Rightarrow> bool" where
  "wf_events evs \<longleftrightarrow>
     length evs < 2 ^ 63 \<and>
     distinct (map ev_Id (filter (\<lambda>v. ev_Kind v = CallEvent) evs)) \<and>
     distinct (map ev_Id (filter (\<lambda>v. ev_Kind v = ReturnEvent) evs)) \<and>
     set (map ev_Id (filter (\<lambda>v. ev_Kind v = CallEvent) evs)) =
       set (map ev_Id (filter (\<lambda>v. ev_Kind v = ReturnEvent) evs)) \<and>
     (\<forall>q < length evs. ev_Kind (evs ! q) = ReturnEvent \<longrightarrow>
        (\<exists>p < q. ev_Kind (evs ! p) = CallEvent \<and> ev_Id (evs ! p) = ev_Id (evs ! q)))"

text \<open>Renumbering replaces the identifiers by the first numbers, one to one.\<close>

lemma renumber_loop_conv:
  assumes "bij_betw (\<lambda>x. the (m x)) (dom m) {0..<int n}"
  shows "\<exists>g k. renumber_loop evs m (int n) acc = acc @ map (\<lambda>v. v\<lparr>ev_Id := g (ev_Id v)\<rparr>) evs \<and>
    (\<forall>x \<in> dom m. g x = the (m x)) \<and> bij_betw g (dom m \<union> ev_Id ` set evs) {0..<int k}"
  using assms
proof (induction evs arbitrary: m n acc)
  case Nil
  then show ?case by (intro exI [of _ "\<lambda>x. the (m x)"] exI [of _ n]) simp
next
  case (Cons v evs)
  show ?case
  proof (cases "m (ev_Id v)")
    case None
    let ?m = "m(ev_Id v \<mapsto> int n)"
    have "bij_betw (\<lambda>x. the (?m x)) (insert (ev_Id v) (dom m)) (insert (int n) {0..<int n})"
    proof (rule bij_betw_combine [of _ "{ev_Id v}" "{int n}" "dom m" "{0..<int n}", simplified])
      show "bij_betw (\<lambda>x. the (?m x)) (dom m) {0..<int n}"
        by (rule iffD1 [OF bij_betw_cong Cons.prems]) (use None in auto)
    qed (auto simp: bij_betw_def)
    moreover have "insert (int n) {0..<int n} = {0..<int (Suc n)}" by auto
    ultimately have "bij_betw (\<lambda>x. the (?m x)) (dom ?m) {0..<int (Suc n)}" by simp
    from Cons.IH [OF this, of "acc @ [v\<lparr>ev_Id := int n\<rparr>]"] obtain g k where
      g: "renumber_loop evs ?m (int (Suc n)) (acc @ [v\<lparr>ev_Id := int n\<rparr>]) =
          (acc @ [v\<lparr>ev_Id := int n\<rparr>]) @ map (\<lambda>v. v\<lparr>ev_Id := g (ev_Id v)\<rparr>) evs"
        "\<forall>x \<in> dom ?m. g x = the (?m x)" "bij_betw g (dom ?m \<union> ev_Id ` set evs) {0..<int k}"
      by blast
    have "\<forall>x \<in> dom m. g x = the (m x)" "g (ev_Id v) = int n" using g(2) None by (auto simp: domI)
    then show ?thesis using g(1,3) None by (intro exI [of _ g] exI [of _ k]) (simp add: add.commute)
  next
    case (Some r)
    from Cons.IH [OF Cons.prems, of "acc @ [v\<lparr>ev_Id := r\<rparr>]"] obtain g k where
      g: "renumber_loop evs m (int n) (acc @ [v\<lparr>ev_Id := r\<rparr>]) =
          (acc @ [v\<lparr>ev_Id := r\<rparr>]) @ map (\<lambda>v. v\<lparr>ev_Id := g (ev_Id v)\<rparr>) evs"
        "\<forall>x \<in> dom m. g x = the (m x)" "bij_betw g (dom m \<union> ev_Id ` set evs) {0..<int k}"
      by blast
    have "ev_Id v \<in> dom m" using Some by auto
    then have "g (ev_Id v) = r" "insert (ev_Id v) (dom m \<union> ev_Id ` set evs) = dom m \<union> ev_Id ` set evs"
      using g(2) Some by auto
    then show ?thesis using g Some by (intro exI [of _ g] exI [of _ k]) simp
  qed
qed

lemma renumber_conv:
  "\<exists>g k. renumber evs = map (\<lambda>v. v\<lparr>ev_Id := g (ev_Id v)\<rparr>) evs \<and> bij_betw g (ev_Id ` set evs) {0..<int k}"
  using renumber_loop_conv [of Map.empty 0 evs "[]"] by (simp add: renumber_def bij_betw_def)

definition event_entry :: "int \<Rightarrow> 'v Event \<Rightarrow> 'v entry" where
  "event_entry i v = \<lparr>entry_kind = (if ev_Kind v = ReturnEvent then returnEntry else callEntry),
     entry_value = ev_Value v, entry_id = ev_Id v, entry_time = i, entry_clientId = ev_ClientId v\<rparr>"

lemma event_entry_simps [simp]:
  "entry_kind (event_entry i v) = callEntry \<longleftrightarrow> ev_Kind v = CallEvent"
  "entry_kind (event_entry i v) = returnEntry \<longleftrightarrow> ev_Kind v = ReturnEvent"
  "entry_id (event_entry i v) = ev_Id v"
  "entry_value (event_entry i v) = ev_Value v"
  by (cases "ev_Kind v"; simp add: event_entry_def)+

lemma convertEntries_conv:
  "convertEntries evs = map (\<lambda>(k, v). event_entry (int k) v) (enumerate 0 evs)"
proof -
  have "convertEntries_loop evs (int n) acc = acc @ map (\<lambda>(k, v). event_entry (int k) v) (enumerate n evs)" for n acc
  proof (induction evs arbitrary: n acc)
    case (Cons v evs)
    have "convertEntries_loop (v # evs) (int n) acc =
        convertEntries_loop evs (int (Suc n)) (acc @ [event_entry (int n) v])"
      by (simp add: event_entry_def Let_def add.commute)
    then show ?case using Cons [of "Suc n"] by simp
  qed simp
  from this [of 0 "[]"] show ?thesis by (simp add: convertEntries_def)
qed

lemma convertEntries_nth:
  "length (convertEntries evs) = length evs"
  "q < length evs \<Longrightarrow> convertEntries evs ! q = event_entry (int q) (evs ! q)"
  by (simp_all add: convertEntries_conv nth_enumerate_eq)

lemma convertEntries_ids:
  "map entry_id (filter (\<lambda>e. entry_kind e = callEntry) (convertEntries evs)) =
     map ev_Id (filter (\<lambda>v. ev_Kind v = CallEvent) evs)"
  "map entry_id (filter (\<lambda>e. entry_kind e = returnEntry) (convertEntries evs)) =
     map ev_Id (filter (\<lambda>v. ev_Kind v = ReturnEvent) evs)"
proof -
  have "map entry_id (filter (\<lambda>e. entry_kind e = callEntry)
        (map (\<lambda>(k, v). event_entry (int k) v) (enumerate n evs))) =
      map ev_Id (filter (\<lambda>v. ev_Kind v = CallEvent) evs)"
    "map entry_id (filter (\<lambda>e. entry_kind e = returnEntry)
        (map (\<lambda>(k, v). event_entry (int k) v) (enumerate n evs))) =
      map ev_Id (filter (\<lambda>v. ev_Kind v = ReturnEvent) evs)" for n
    by (induction evs arbitrary: n) auto
  then show "map entry_id (filter (\<lambda>e. entry_kind e = callEntry) (convertEntries evs)) =
      map ev_Id (filter (\<lambda>v. ev_Kind v = CallEvent) evs)"
    "map entry_id (filter (\<lambda>e. entry_kind e = returnEntry) (convertEntries evs)) =
      map ev_Id (filter (\<lambda>v. ev_Kind v = ReturnEvent) evs)"
    by (simp_all add: convertEntries_conv)
qed

lemma wf_events_ids:
  assumes "wf_events evs"
  shows "set (map ev_Id (filter (\<lambda>v. ev_Kind v = CallEvent) evs)) = ev_Id ` set evs"
    "set (map ev_Id (filter (\<lambda>v. ev_Kind v = ReturnEvent) evs)) = ev_Id ` set evs"
    "length evs = 2 * card (ev_Id ` set evs)"
proof -
  let ?C = "map ev_Id (filter (\<lambda>v. ev_Kind v = CallEvent) evs)"
  let ?R = "map ev_Id (filter (\<lambda>v. ev_Kind v = ReturnEvent) evs)"
  have eq: "set ?C = set ?R" and d: "distinct ?C" "distinct ?R" using assms by (simp_all add: wf_events_def)
  have "ev_Kind v = CallEvent \<or> ev_Kind v = ReturnEvent" for v :: "'a Event" by (cases "ev_Kind v") auto
  then have "ev_Id ` set evs = set ?C \<union> set ?R" by auto
  then show C: "set ?C = ev_Id ` set evs" and R: "set ?R = ev_Id ` set evs" using eq by auto
  have k: "(ev_Kind v \<noteq> CallEvent) = (ev_Kind v = ReturnEvent)" for v :: "'a Event" by (cases "ev_Kind v") auto
  have "length ?C + length ?R = length evs"
    using sum_length_filter_compl [of "\<lambda>v. ev_Kind v = CallEvent" evs] by (simp add: k)
  moreover have "length ?C = card (ev_Id ` set evs)" using distinct_card [OF d(1)] C by simp
  moreover have "length ?R = card (ev_Id ` set evs)" using distinct_card [OF d(2)] R by simp
  ultimately show "length evs = 2 * card (ev_Id ` set evs)" by simp
qed

lemma renumbered_ids:
  "map ev_Id (filter (\<lambda>v. ev_Kind v = kd) (map (\<lambda>v. v\<lparr>ev_Id := g (ev_Id v)\<rparr>) evs)) =
     map g (map ev_Id (filter (\<lambda>v. ev_Kind v = kd) evs))"
  by (induction evs) auto

lemma convertEntries_wf:
  assumes "wf_events evs"
  shows "wf_history (convertEntries (renumber evs))"
proof -
  obtain g k where g: "renumber evs = map (\<lambda>v. v\<lparr>ev_Id := g (ev_Id v)\<rparr>) evs"
      "bij_betw g (ev_Id ` set evs) {0..<int k}"
    using renumber_conv by blast
  note ids = wf_events_ids [OF assms]
  have k: "length evs = 2 * k" using ids(3) bij_betw_same_card [OF g(2)] by simp
  have inj: "inj_on g (ev_Id ` set evs)" "g ` ev_Id ` set evs = {0..<int k}"
    using g(2) by (auto simp: bij_betw_def)
  have im: "set (map int [0..<k]) = {0..<int k}" using image_int_atLeastLessThan [of 0 k] by simp
  have d: "distinct (map g (map ev_Id (filter (\<lambda>v. ev_Kind v = kd) evs)))"
    "set (map g (map ev_Id (filter (\<lambda>v. ev_Kind v = kd) evs))) = {0..<int k}" for kd
  proof -
    have "set (map ev_Id (filter (\<lambda>v. ev_Kind v = kd) evs)) = ev_Id ` set evs"
      using ids(1,2) by (cases kd) auto
    moreover have "distinct (map ev_Id (filter (\<lambda>v. ev_Kind v = kd) evs))"
      using assms by (cases kd) (auto simp: wf_events_def)
    ultimately show "distinct (map g (map ev_Id (filter (\<lambda>v. ev_Kind v = kd) evs)))"
      "set (map g (map ev_Id (filter (\<lambda>v. ev_Kind v = kd) evs))) = {0..<int k}"
      using inj by (simp_all only: distinct_map [of g] set_map [of g])
  qed
  have "\<exists>p<q. is_call_of (entry_id (convertEntries (renumber evs) ! q)) (convertEntries (renumber evs) ! p)"
    if q: "q < length evs" "entry_kind (convertEntries (renumber evs) ! q) = returnEntry" for q
  proof -
    have "ev_Kind (evs ! q) = ReturnEvent" using q by (simp add: g(1) convertEntries_nth)
    then obtain p where p: "p < q" "ev_Kind (evs ! p) = CallEvent" "ev_Id (evs ! p) = ev_Id (evs ! q)"
      using assms q(1) unfolding wf_events_def by blast
    then have "is_call_of (entry_id (convertEntries (renumber evs) ! q)) (convertEntries (renumber evs) ! p)"
      using q(1) by (simp add: g(1) convertEntries_nth is_call_of_def)
    then show ?thesis using p(1) by blast
  qed
  moreover have len: "length (convertEntries (renumber evs)) = length evs"
    by (simp add: g(1) convertEntries_nth)
  ultimately show ?thesis
    unfolding wf_history_def Let_def convertEntries_ids len
    using d im k assms by (simp add: g(1) renumbered_ids wf_events_def del: map_map set_map)
qed

text \<open>Renumbering does not change which histories are linearizable.\<close>

lemma relabel_value:
  assumes "inj_on g I" "i \<in> I" "ev_Id ` set evs \<subseteq> I"
  shows "call_value (convertEntries (map (\<lambda>v. v\<lparr>ev_Id := g (ev_Id v)\<rparr>) evs)) (g i) = call_value (convertEntries evs) i"
    "ret_value (convertEntries (map (\<lambda>v. v\<lparr>ev_Id := g (ev_Id v)\<rparr>) evs)) (g i) = ret_value (convertEntries evs) i"
proof -
  let ?c = "\<lambda>n evs. map (\<lambda>(k, v). event_entry (int k) v) (enumerate n evs)"
  have "value_of (is_call_of (g i)) (?c n (map (\<lambda>v. v\<lparr>ev_Id := g (ev_Id v)\<rparr>) evs)) = value_of (is_call_of i) (?c n evs) \<and>
    value_of (is_ret_of (g i)) (?c n (map (\<lambda>v. v\<lparr>ev_Id := g (ev_Id v)\<rparr>) evs)) = value_of (is_ret_of i) (?c n evs)" for n
    using assms(3)
  proof (induction evs arbitrary: n)
    case (Cons v evs)
    have "g (ev_Id v) = g i \<longleftrightarrow> ev_Id v = i" using assms(1,2) Cons.prems by (auto dest: inj_onD)
    then show ?case using Cons.IH [of "Suc n"] Cons.prems
      by (auto simp: value_of_def is_call_of_def is_ret_of_def)
  qed (simp add: value_of_def)
  from this [of 0] show
    "call_value (convertEntries (map (\<lambda>v. v\<lparr>ev_Id := g (ev_Id v)\<rparr>) evs)) (g i) = call_value (convertEntries evs) i"
    "ret_value (convertEntries (map (\<lambda>v. v\<lparr>ev_Id := g (ev_Id v)\<rparr>) evs)) (g i) = ret_value (convertEntries evs) i"
    by (simp_all add: call_value_def ret_value_def convertEntries_conv)
qed

lemma relabel_precedes:
  assumes "inj_on g I" "i \<in> I" "j \<in> I" "ev_Id ` set evs \<subseteq> I"
  shows "precedes (convertEntries (map (\<lambda>v. v\<lparr>ev_Id := g (ev_Id v)\<rparr>) evs)) (g j) (g i) \<longleftrightarrow>
    precedes (convertEntries evs) j i"
proof -
  have *: "g (ev_Id (evs ! p)) = g x \<longleftrightarrow> ev_Id (evs ! p) = x" if "x \<in> I" "p < length evs" for p x
  proof -
    have "ev_Id (evs ! p) \<in> I" using assms(4) nth_mem [OF that(2)] by auto
    then show ?thesis using inj_on_eq_iff [OF assms(1) _ that(1)] by simp
  qed
  show ?thesis unfolding precedes_def
    by (intro ex_cong1) (auto simp: convertEntries_nth is_ret_of_def is_call_of_def * [OF assms(2)] * [OF assms(3)])
qed

lemma relabel_op_ids:
  "op_ids (convertEntries (map (\<lambda>v. v\<lparr>ev_Id := g (ev_Id v)\<rparr>) evs)) = g ` op_ids (convertEntries evs)"
proof -
  have "op_ids es = set (map entry_id (filter (\<lambda>e. entry_kind e = callEntry) es))" for es :: "'a entry list"
    by (auto simp: op_ids_def)
  then show ?thesis by (simp add: convertEntries_ids renumbered_ids del: set_map) (simp add: image_image)
qed

lemma op_ids_events: "op_ids (convertEntries evs) \<subseteq> ev_Id ` set evs"
  by (auto simp: op_ids_def convertEntries_conv in_set_enumerate_eq)

lemma relabel_linearization:
  assumes g: "inj_on g (ev_Id ` set evs)" and \<sigma>: "set \<sigma> \<subseteq> ev_Id ` set evs"
  shows "linearization model (convertEntries (map (\<lambda>v. v\<lparr>ev_Id := g (ev_Id v)\<rparr>) evs)) (map g \<sigma>) \<longleftrightarrow>
    linearization model (convertEntries evs) \<sigma>"
proof -
  let ?es' = "convertEntries (map (\<lambda>v. v\<lparr>ev_Id := g (ev_Id v)\<rparr>) evs)"
  have "distinct (map g \<sigma>) \<longleftrightarrow> distinct \<sigma>" using inj_on_subset [OF g \<sigma>] by (auto simp: distinct_map)
  moreover have "set (map g \<sigma>) = op_ids ?es' \<longleftrightarrow> set \<sigma> = op_ids (convertEntries evs)"
    using inj_on_image_eq_iff [OF g \<sigma> op_ids_events] by (simp add: relabel_op_ids)
  moreover have "sorted_wrt (\<lambda>i j. \<not> precedes ?es' j i) (map g \<sigma>) \<longleftrightarrow>
      sorted_wrt (\<lambda>i j. \<not> precedes (convertEntries evs) j i) \<sigma>"
    unfolding sorted_wrt_map
    by (intro iffI; rule sorted_wrt_mono_rel [rotated], assumption)
      (use relabel_precedes [OF g subsetD [OF \<sigma>] subsetD [OF \<sigma>] subset_refl] in auto)
  moreover have "legal model ?es' s (map g \<sigma>) \<longleftrightarrow> legal model (convertEntries evs) s \<sigma>" for s
    using \<sigma>
  proof (induction \<sigma> arbitrary: s)
    case (Cons i \<sigma>)
    then have "op_step model ?es' s (g i) = op_step model (convertEntries evs) s i" for s
      using relabel_value [OF g _ subset_refl] by (simp add: op_step_def)
    then show ?case using Cons by (auto split: sum.splits)
  qed simp
  ultimately show ?thesis by (simp add: linearization_def)
qed

lemma renumber_linearizable:
  "linearizable model (convertEntries (renumber evs)) \<longleftrightarrow> linearizable model (convertEntries evs)"
proof -
  obtain g k where g: "renumber evs = map (\<lambda>v. v\<lparr>ev_Id := g (ev_Id v)\<rparr>) evs"
      "bij_betw g (ev_Id ` set evs) {0..<int k}"
    using renumber_conv by blast
  then have inj: "inj_on g (ev_Id ` set evs)" by (simp add: bij_betw_def)
  show ?thesis
  proof
    assume "linearizable model (convertEntries (renumber evs))"
    then obtain \<sigma> where \<sigma>: "linearization model (convertEntries (renumber evs)) \<sigma>" by (auto simp: linearizable_def)
    then have "set \<sigma> = g ` op_ids (convertEntries evs)" by (simp add: linearization_def g(1) relabel_op_ids)
    then have "\<sigma> \<in> map g ` lists (op_ids (convertEntries evs))" unfolding lists_image [symmetric] by auto
    then obtain \<tau> where \<tau>: "\<sigma> = map g \<tau>" "set \<tau> \<subseteq> op_ids (convertEntries evs)" by auto
    then have "linearization model (convertEntries evs) \<tau>"
      using relabel_linearization [OF inj, of \<tau> model] \<sigma> op_ids_events by (auto simp: g(1))
    then show "linearizable model (convertEntries evs)" by (auto simp: linearizable_def)
  next
    assume "linearizable model (convertEntries evs)"
    then obtain \<tau> where \<tau>: "linearization model (convertEntries evs) \<tau>" by (auto simp: linearizable_def)
    then have "set \<tau> \<subseteq> ev_Id ` set evs" using op_ids_events by (auto simp: linearization_def)
    then have "linearization model (convertEntries (renumber evs)) (map g \<tau>)"
      using relabel_linearization [OF inj, of \<tau> model] \<tau> by (simp add: g(1))
    then show "linearizable model (convertEntries (renumber evs))" by (auto simp: linearizable_def)
  qed
qed

section \<open>The answers on histories of events\<close>

definition event_partitions_ok :: "('v, 's) Model \<Rightarrow> 'v Event list list \<Rightarrow> bool" where
  "event_partitions_ok model parts \<longleftrightarrow>
     (\<forall>evs \<in> set parts. wf_events evs \<and> step_safe model (convertEntries (renumber evs)))"

lemma checkEvents_answers:
  assumes rt: "runtime_ok rt" and p: "call_PartitionEvent (fillDefault (rt_fmt rt) model) history = Inr parts"
    and parts: "event_partitions_ok model parts"
    and r: "checkEvents rt model history verbose timeout sched = Some r"
  shows "\<exists>res info. r = Inr (res, info) \<and>
    answer_ok (fillDefault (rt_fmt rt) model) (map (\<lambda>s. convertEntries (renumber s)) parts) timeout res \<and>
    (verbose \<longrightarrow> info_ok (fillDefault (rt_fmt rt) model) (map (\<lambda>s. convertEntries (renumber s)) parts) res info)"
proof (rule checkParallel_answers)
  show "job_ok (fillDefault (rt_fmt rt) model) (map (\<lambda>s. convertEntries (renumber s)) parts)"
    using parts convertEntries_wf by (auto simp: job_ok_def event_partitions_ok_def)
  show "ranges_keys (rt_range rt)" using rt by (simp add: runtime_ok_def)
  show "checkParallel (rt_range rt) (fillDefault (rt_fmt rt) model) (map (\<lambda>s. convertEntries (renumber s)) parts)
      verbose timeout sched = Some r"
    using r p by (simp add: checkEvents_def Let_def)
qed

section \<open>The calls return\<close>

lemma checkOperations_finishes:
  assumes rt: "runtime_ok rt" and p: "call_Partition (fillDefault (rt_fmt rt) model) history = Inr parts"
    and parts: "partitions_ok model parts" and ne: "parts \<noteq> [] \<or> timeout > 0"
  shows "\<exists>sched res info. checkOperations rt model history verbose timeout sched = Some (Inr (res, info))"
proof -
  note job = makeEntries_job [OF rt parts, of "rt_fmt rt"]
  have ne': "map (makeEntries (rt_sort rt)) parts \<noteq> [] \<or> timeout > 0" using ne by simp
  obtain sched res info where "checkParallel (rt_range rt) (fillDefault (rt_fmt rt) model)
      (map (makeEntries (rt_sort rt)) parts) verbose timeout sched = Some (Inr (res, info))"
    using checkParallel_can_finish [OF job ne' par_run.simps(1)] by blast
  then have "checkOperations rt model history verbose timeout sched = Some (Inr (res, info))"
    using p by (simp add: checkOperations_def Let_def)
  then show ?thesis by blast
qed

lemma checkEvents_finishes:
  assumes p: "call_PartitionEvent (fillDefault (rt_fmt rt) model) history = Inr parts"
    and parts: "event_partitions_ok model parts" and ne: "parts \<noteq> [] \<or> timeout > 0"
  shows "\<exists>sched res info. checkEvents rt model history verbose timeout sched = Some (Inr (res, info))"
proof -
  have job: "job_ok (fillDefault (rt_fmt rt) model) (map (\<lambda>s. convertEntries (renumber s)) parts)"
    using parts convertEntries_wf by (auto simp: job_ok_def event_partitions_ok_def)
  have ne': "map (\<lambda>s. convertEntries (renumber s)) parts \<noteq> [] \<or> timeout > 0" using ne by simp
  obtain sched res info where "checkParallel (rt_range rt) (fillDefault (rt_fmt rt) model)
      (map (\<lambda>s. convertEntries (renumber s)) parts) verbose timeout sched = Some (Inr (res, info))"
    using checkParallel_can_finish [OF job ne' par_run.simps(1)] by blast
  then have "checkEvents rt model history verbose timeout sched = Some (Inr (res, info))"
    using p by (simp add: checkEvents_def Let_def)
  then show ?thesis by blast
qed

end
