(* ===== verification/Kv_Model.thy ===== *)
theory Kv_Model
  imports Porcupine_API "HOL-Library.AList" "HOL-Library.List_Lexorder" "HOL-Library.Char_ord"
begin

text \<open>
  \<^verbatim>\<open>models/kv.go\<close>: the model of a key/value store that the tests of the labs check histories
  against.  Its \<^verbatim>\<open>Partition\<close> splits a history by key, and its \<^verbatim>\<open>Step\<close> models a single key.  The
  contract stated for \<^verbatim>\<open>Partition\<close> in \<^verbatim>\<open>porcupine/model.go\<close> (a history is linearizable if and
  only if each partition is) is proved for it against a model of the whole store, through the
  locale \<open>keyed\<close>.
\<close>

section \<open>The model\<close>

record KvInput =
  ki_Op :: "8 word"
  ki_Key :: string
  ki_Value :: string

record KvOutput =
  ko_Value :: string

text \<open>The dynamic types of the inputs and outputs in a history.\<close>

datatype kv_value = KvIn KvInput | KvOut KvOutput

fun as_KvInput :: "kv_value iface \<Rightarrow> KvInput result" where
  "as_KvInput (Some (KvIn i)) = Inr i"
| "as_KvInput _ = Inl TypeAssertion"

fun as_KvOutput :: "kv_value iface \<Rightarrow> KvOutput result" where
  "as_KvOutput (Some (KvOut out)) = Inr out"
| "as_KvOutput _ = Inl TypeAssertion"

definition kv_group ::
    "kv_value Operation \<Rightarrow> (string \<times> kv_value Operation list) list
       \<Rightarrow> (string \<times> kv_value Operation list) list result" where
  "kv_group v m =
     bindE (as_KvInput (op_Input v)) (\<lambda>inp.
       let key = ki_Key inp;
           old = (case map_of m key of None \<Rightarrow> [] | Some l \<Rightarrow> l)
       in Inr (AList.update key (old @ [v]) m))"

definition kv_Partition :: "kv_value Operation list \<Rightarrow> kv_value Operation list list result" where
  "kv_Partition history =
     bindE (foldE kv_group history []) (\<lambda>m.
       let keys = sort (map fst m)
       in Inr (map (\<lambda>k. case map_of m k of None \<Rightarrow> [] | Some l \<Rightarrow> l) keys))"

definition kv_Init :: "unit \<Rightarrow> string" where
  "kv_Init _ = ''''"

definition kv_Step :: "string \<Rightarrow> kv_value iface \<Rightarrow> kv_value iface \<Rightarrow> (bool \<times> string) result" where
  "kv_Step st input output =
     bindE (as_KvInput input) (\<lambda>inp.
     bindE (as_KvOutput output) (\<lambda>out.
       if ki_Op inp = 0 then Inr (ko_Value out = st, st)
       else if ki_Op inp = 1 then Inr (True, ki_Value inp)
       else Inr (True, st @ ki_Value inp)))"

definition kv_DescribeOperation :: "kv_value iface \<Rightarrow> kv_value iface \<Rightarrow> string result" where
  "kv_DescribeOperation input output =
     bindE (as_KvInput input) (\<lambda>inp.
     bindE (as_KvOutput output) (\<lambda>out.
       if ki_Op inp = 0 then Inr (''get('' @ [CHR 0x27] @ ki_Key inp @ [CHR 0x27] @ '') -> '' @ [CHR 0x27] @ ko_Value out @ [CHR 0x27])
       else if ki_Op inp = 1 then Inr (''put('' @ [CHR 0x27] @ ki_Key inp @ [CHR 0x27] @ '', '' @ [CHR 0x27] @ ki_Value inp @ [CHR 0x27] @ '')'')
       else if ki_Op inp = 2 then Inr (''append('' @ [CHR 0x27] @ ki_Key inp @ [CHR 0x27] @ '', '' @ [CHR 0x27] @ ki_Value inp @ [CHR 0x27] @ '')'')
       else Inr ''<invalid>''))"

definition KvModel :: "(kv_value, string) Model" where
  "KvModel = \<lparr>Partition = Some kv_Partition, PartitionEvent = None, Init = kv_Init, Step = kv_Step,
     Equal = None, DescribeOperation = Some kv_DescribeOperation, DescribeState = None\<rparr>"

lemma KvModel_simps [simp]:
  "Partition KvModel = Some kv_Partition" "Init KvModel = kv_Init" "Step KvModel = kv_Step"
  "Equal KvModel = None" "DescribeOperation KvModel = Some kv_DescribeOperation"
  by (simp_all add: KvModel_def)

section \<open>Orders of a set of operations\<close>

text \<open>Linearizations of the operations \<open>f i\<close> for \<open>i\<close> in a set.\<close>

fun legal_on :: "('v, 's) Model \<Rightarrow> (nat \<Rightarrow> 'v Operation) \<Rightarrow> 's \<Rightarrow> nat list \<Rightarrow> bool" where
  "legal_on model f s [] \<longleftrightarrow> True"
| "legal_on model f s (i # \<tau>) \<longleftrightarrow>
     (case Step model s (op_Input (f i)) (op_Output (f i)) of
        Inr (ok, s') \<Rightarrow> ok \<and> legal_on model f s' \<tau> | Inl _ \<Rightarrow> False)"

definition real_time :: "(nat \<Rightarrow> 'v Operation) \<Rightarrow> nat \<Rightarrow> nat \<Rightarrow> bool" where
  "real_time f i j \<longleftrightarrow> \<not> op_Return (f j) < op_Call (f i)"

definition lin_on :: "('v, 's) Model \<Rightarrow> (nat \<Rightarrow> 'v Operation) \<Rightarrow> nat set \<Rightarrow> nat list \<Rightarrow> bool" where
  "lin_on model f I \<tau> \<longleftrightarrow>
     distinct \<tau> \<and> set \<tau> = I \<and> sorted_wrt (real_time f) \<tau> \<and> legal_on model f (Init model ()) \<tau>"

lemma legal_on_map: "legal_on model f s (map g \<tau>) \<longleftrightarrow> legal_on model (f \<circ> g) s \<tau>"
  by (induction \<tau> arbitrary: s) (auto split: sum.splits)

lemma op_legal_on: "op_legal model ops s \<tau> \<longleftrightarrow> legal_on model (nth ops) s \<tau>"
  by (induction \<tau> arbitrary: s) (auto split: sum.splits)

lemma legal_on_cong: "(\<And>i. i \<in> set \<tau> \<Longrightarrow> f i = g i) \<Longrightarrow> legal_on model f s \<tau> \<longleftrightarrow> legal_on model g s \<tau>"
  by (induction \<tau> arbitrary: s) (auto split: sum.splits)

lemma op_linearizable_on: "op_linearizable model ops \<longleftrightarrow> (\<exists>\<tau>. lin_on model (nth ops) {..<length ops} \<tau>)"
  by (simp add: op_linearizable_def op_linearization_def lin_on_def op_legal_on real_time_def [abs_def])

text \<open>A sublist of operations given by distinct indices.\<close>

lemma op_linearizable_sub:
  assumes d: "distinct idx"
  shows "op_linearizable model (map f idx) \<longleftrightarrow> (\<exists>\<tau>. lin_on model f (set idx) \<tau>)"
proof -
  have inj: "inj_on (nth idx) {..<length idx}" using d by (simp add: inj_on_nth)
  have im: "nth idx ` {..<length idx} = set idx" by (auto simp: set_conv_nth)
  have conv: "lin_on model (nth (map f idx)) {..<length idx} \<tau> \<longleftrightarrow> lin_on model f (set idx) (map (nth idx) \<tau>)"
    if s: "set \<tau> \<subseteq> {..<length idx}" for \<tau>
  proof -
    have "distinct (map (nth idx) \<tau>) \<longleftrightarrow> distinct \<tau>" using inj_on_subset [OF inj s] by (auto simp: distinct_map)
    moreover have "set (map (nth idx) \<tau>) = set idx \<longleftrightarrow> set \<tau> = {..<length idx}"
      using inj_on_image_eq_iff [OF inj s subset_refl] by (simp add: im)
    moreover have "sorted_wrt (real_time f) (map (nth idx) \<tau>) \<longleftrightarrow> sorted_wrt (real_time (nth (map f idx))) \<tau>"
      unfolding sorted_wrt_map
      by (intro iffI; rule sorted_wrt_mono_rel [rotated], assumption) (use s in \<open>auto simp: real_time_def subset_iff\<close>)
    moreover have "legal_on model f s' (map (nth idx) \<tau>) \<longleftrightarrow> legal_on model (nth (map f idx)) s' \<tau>" for s'
      unfolding legal_on_map by (rule legal_on_cong) (use s in auto)
    ultimately show ?thesis by (simp add: lin_on_def)
  qed
  have "\<exists>\<tau>. lin_on model (nth (map f idx)) {..<length idx} \<tau>" if \<sigma>: "lin_on model f (set idx) \<sigma>" for \<sigma>
  proof -
    have "\<sigma> \<in> map (nth idx) ` lists {..<length idx}"
      unfolding lists_image [symmetric] im using \<sigma> by (auto simp: lin_on_def)
    then show ?thesis using conv \<sigma> by auto
  qed
  moreover have "\<exists>\<sigma>. lin_on model f (set idx) \<sigma>" if \<tau>: "lin_on model (nth (map f idx)) {..<length idx} \<tau>" for \<tau>
  proof -
    have "set \<tau> \<subseteq> {..<length idx}" using \<tau> by (simp add: lin_on_def)
    from conv [OF this] \<tau> show ?thesis by blast
  qed
  ultimately show ?thesis unfolding op_linearizable_on length_map by blast
qed

section \<open>Linearization points\<close>

text \<open>
  Along a linearization, the latest call so far is a point in time at which each operation can take
  effect: it does not decrease, and it lies between the call and the return of the operation.
\<close>

definition point :: "(nat \<Rightarrow> 'v Operation) \<Rightarrow> nat list \<Rightarrow> nat \<Rightarrow> int" where
  "point f \<tau> i = Max ((\<lambda>j. op_Call (f j)) ` set (i # takeWhile (\<lambda>j. j \<noteq> i) \<tau>))"

lemma point_lower: "op_Call (f i) \<le> point f \<tau> i"
  by (simp add: point_def)

lemma point_upper:
  assumes "sorted_wrt (real_time f) \<tau>" "i \<in> set \<tau>" "op_Call (f i) \<le> op_Return (f i)"
  shows "point f \<tau> i \<le> op_Return (f i)"
proof -
  obtain ys zs where \<tau>: "\<tau> = ys @ i # zs" "i \<notin> set ys" using split_list_first [OF assms(2)] by blast
  have "takeWhile (\<lambda>j. j \<noteq> i) \<tau> = ys"
    unfolding \<tau>(1) by (subst takeWhile_append2) (use \<tau>(2) in auto)
  then have "\<forall>j \<in> set (takeWhile (\<lambda>j. j \<noteq> i) \<tau>). real_time f j i"
    using assms(1) by (simp add: \<tau>(1) sorted_wrt_append)
  then show ?thesis using assms(3) by (auto simp: point_def real_time_def not_less)
qed

lemma point_sorted:
  assumes "distinct \<tau>"
  shows "sorted (map (point f \<tau>) \<tau>)"
  unfolding sorted_iff_nth_mono_less
proof (intro allI impI)
  fix p q assume pq: "p < q" "q < length (map (point f \<tau>) \<tau>)"
  have pre: "takeWhile (\<lambda>j. j \<noteq> \<tau> ! r) \<tau> = take r \<tau>" if "r < length \<tau>" for r
    using that assms by (intro takeWhile_eq_take_P_nth) (auto simp: nth_eq_iff_index_eq)
  have "set (\<tau> ! p # take p \<tau>) \<subseteq> set (take q \<tau>)"
    using pq set_take_subset_set_take [of p q \<tau>] by (auto simp: in_set_conv_nth)
  then have "set (\<tau> ! p # take p \<tau>) \<subseteq> set (\<tau> ! q # take q \<tau>)" by auto
  then show "map (point f \<tau>) \<tau> ! p \<le> map (point f \<tau>) \<tau> ! q"
    using pq pre [of p] pre [of q] unfolding point_def by (auto intro!: Max_mono image_mono)
qed

section \<open>Models of one key and of the store\<close>

locale keyed =
  fixes model :: "('v, 's) Model"
    and store :: "('v, 'k \<Rightarrow> 's) Model"
    and key :: "'v Operation \<Rightarrow> 'k"
  assumes store_Init: "Init store () = (\<lambda>_. Init model ())"
    and store_Step: "Step store s (op_Input op) (op_Output op) =
      bindE (Step model (s (key op)) (op_Input op) (op_Output op)) (\<lambda>(ok, t). Inr (ok, s(key op := t)))"
begin

lemma legal_split:
  "legal_on store f s \<sigma> \<longleftrightarrow> (\<forall>k. legal_on model f (s k) (filter (\<lambda>i. key (f i) = k) \<sigma>))"
proof (induction \<sigma> arbitrary: s)
  case (Cons i \<sigma>)
  show ?case
  proof (cases "Step model (s (key (f i))) (op_Input (f i)) (op_Output (f i))")
    case (Inl e)
    then show ?thesis by (auto simp: store_Step intro!: exI [of _ "key (f i)"])
  next
    case (Inr r)
    obtain ok t where r: "r = (ok, t)" by (cases r)
    have "legal_on store f s (i # \<sigma>) \<longleftrightarrow> ok \<and> legal_on store f (s(key (f i) := t)) \<sigma>"
      using Inr by (simp add: store_Step r)
    also have "\<dots> \<longleftrightarrow> ok \<and> (\<forall>k. legal_on model f ((s(key (f i) := t)) k) (filter (\<lambda>i. key (f i) = k) \<sigma>))"
      by (simp only: Cons.IH)
    also have "\<dots> \<longleftrightarrow> (\<forall>k. legal_on model f (s k) (filter (\<lambda>j. key (f j) = k) (i # \<sigma>)))"
      using Inr by (auto simp: r split: if_splits)
    finally show ?thesis .
  qed
qed simp

lemma store_to_key:
  assumes "lin_on store f I \<sigma>"
  shows "lin_on model f {i \<in> I. key (f i) = k} (filter (\<lambda>i. key (f i) = k) \<sigma>)"
  using assms legal_split [of f "\<lambda>_. Init model ()" \<sigma>]
  by (auto simp: lin_on_def store_Init sorted_wrt_filter)

lemma keys_to_store:
  assumes fin: "finite I" and wf: "\<And>i. i \<in> I \<Longrightarrow> op_Call (f i) \<le> op_Return (f i)"
    and lin: "\<And>k. k \<in> (key \<circ> f) ` I \<Longrightarrow> lin_on model f {i \<in> I. key (f i) = k} (\<tau> k)"
  shows "\<exists>\<sigma>. lin_on store f I \<sigma>"
proof -
  define T where "T k = (if k \<in> (key \<circ> f) ` I then \<tau> k else [])" for k
  have lin: "lin_on model f {i \<in> I. key (f i) = k} (T k)" for k
    using lin by (auto simp: T_def lin_on_def)
  obtain ks where ks: "set ks = (key \<circ> f) ` I" "distinct ks"
    using finite_distinct_list [of "(key \<circ> f) ` I"] fin by auto
  define pt where "pt i = point f (T (key (f i))) i" for i
  define \<sigma> where "\<sigma> = sort_key pt (concat (map T ks))"
  have T: "distinct (T k)" "set (T k) = {i \<in> I. key (f i) = k}" "sorted_wrt (real_time f) (T k)"
    "legal_on model f (Init model ()) (T k)" for k
    using lin [of k] by (simp_all add: lin_on_def)
  have fil: "filter (\<lambda>i. key (f i) = k) (concat (map T ks)) = T k" for k
  proof -
    have "filter (\<lambda>i. key (f i) = k) (T k') = (if k' = k then T k else [])" for k'
      using T(2) [of k'] by (auto simp: filter_id_conv filter_empty_conv)
    then have "filter (\<lambda>i. key (f i) = k) (concat (map T ks)) = concat (map (\<lambda>k'. if k' = k then T k else []) ks)"
      by (simp add: filter_concat comp_def)
    also have "\<dots> = (if k \<in> set ks then T k else [])"
      using ks(2) by (induction ks) auto
    finally show ?thesis using ks(1) by (simp add: T_def)
  qed
  have sub: "filter (\<lambda>i. key (f i) = k) \<sigma> = T k" for k
  proof -
    have "map pt (T k) = map (point f (T k)) (T k)" using T(2) [of k] by (auto simp: pt_def)
    then have "sorted (map pt (T k))" using point_sorted [OF T(1)] by metis
    then show ?thesis by (simp add: \<sigma>_def filter_sort fil sort_key_id_if_sorted)
  qed
  have set: "set \<sigma> = I" using ks(1) T(2) by (auto simp: \<sigma>_def)
  have "distinct (concat (map T ks))"
    using ks(2) T(1,2) by (induction ks) (auto simp: distinct_concat)
  then have dist: "distinct \<sigma>" by (simp add: \<sigma>_def)
  have bounds: "op_Call (f i) \<le> pt i \<and> pt i \<le> op_Return (f i)" if "i \<in> I" for i
    using point_lower point_upper [OF T(3)] wf that T(2) by (auto simp: pt_def)
  have "sorted_wrt (\<lambda>i j. pt i \<le> pt j) \<sigma>" using sorted_sort_key [of pt] by (simp add: \<sigma>_def sorted_map)
  then have "sorted_wrt (real_time f) \<sigma>"
  proof (rule sorted_wrt_mono_rel [rotated])
    fix i j assume "i \<in> set \<sigma>" "j \<in> set \<sigma>" "pt i \<le> pt j"
    then show "real_time f i j" using bounds [of i] bounds [of j] by (simp add: set real_time_def)
  qed
  moreover have "legal_on store f (Init store ()) \<sigma>"
    unfolding store_Init legal_split sub using T(4) by blast
  ultimately show ?thesis using set dist by (auto simp: lin_on_def)
qed

theorem locality:
  assumes "finite I" "\<And>i. i \<in> I \<Longrightarrow> op_Call (f i) \<le> op_Return (f i)"
  shows "(\<exists>\<sigma>. lin_on store f I \<sigma>) \<longleftrightarrow>
    (\<forall>k \<in> (key \<circ> f) ` I. \<exists>\<tau>. lin_on model f {i \<in> I. key (f i) = k} \<tau>)"
proof
  show "\<exists>\<sigma>. lin_on store f I \<sigma>" if "\<forall>k \<in> (key \<circ> f) ` I. \<exists>\<tau>. lin_on model f {i \<in> I. key (f i) = k} \<tau>"
    using bchoice [OF that] keys_to_store [of I f] assms by blast
qed (use store_to_key in blast)

end

section \<open>The whole store\<close>

text \<open>The specification: a store of all keys, each holding the empty string at first.\<close>

definition kv_store_step ::
    "(string \<Rightarrow> string) \<Rightarrow> kv_value iface \<Rightarrow> kv_value iface \<Rightarrow> (bool \<times> (string \<Rightarrow> string)) result" where
  "kv_store_step s input output =
     bindE (as_KvInput input) (\<lambda>inp.
     bindE (as_KvOutput output) (\<lambda>out.
       let k = ki_Key inp in
       if ki_Op inp = 0 then Inr (ko_Value out = s k, s)
       else if ki_Op inp = 1 then Inr (True, s(k := ki_Value inp))
       else Inr (True, s(k := s k @ ki_Value inp))))"

definition KvStore :: "(kv_value, string \<Rightarrow> string) Model" where
  "KvStore = \<lparr>Partition = None, PartitionEvent = None, Init = (\<lambda>_. \<lambda>_. []), Step = kv_store_step,
     Equal = None, DescribeOperation = None, DescribeState = None\<rparr>"

definition kv_key :: "kv_value Operation \<Rightarrow> string" where
  "kv_key op = (case as_KvInput (op_Input op) of Inr inp \<Rightarrow> ki_Key inp | Inl _ \<Rightarrow> [])"

interpretation kv: keyed KvModel KvStore kv_key
proof
  show "Init KvStore () = (\<lambda>_. Init KvModel ())" by (simp add: KvStore_def kv_Init_def)
  show "Step KvStore s (op_Input op) (op_Output op) =
      bindE (Step KvModel (s (kv_key op)) (op_Input op) (op_Output op))
        (\<lambda>(ok, t). Inr (ok, s(kv_key op := t)))" for s op
    by (cases "as_KvInput (op_Input op)"; cases "as_KvOutput (op_Output op)")
      (auto simp: KvStore_def kv_store_step_def kv_Step_def kv_key_def Let_def)
qed

section \<open>The partition\<close>

definition kv_typed :: "kv_value Operation list \<Rightarrow> bool" where
  "kv_typed ops \<longleftrightarrow> (\<forall>op \<in> set ops. (\<exists>i. op_Input op = Some (KvIn i)) \<and> (\<exists>out. op_Output op = Some (KvOut out)))"

definition groups :: "(string \<times> kv_value Operation list) list \<Rightarrow> kv_value Operation list \<Rightarrow> bool" where
  "groups m ops \<longleftrightarrow> distinct (map fst m) \<and> fst ` set m = kv_key ` set ops \<and>
     (\<forall>k \<in> kv_key ` set ops. map_of m k = Some (filter (\<lambda>op. kv_key op = k) ops))"

lemma kv_group_ok:
  assumes "groups m ops" "op_Input v = Some (KvIn i)"
  shows "\<exists>m'. kv_group v m = Inr m' \<and> groups m' (ops @ [v])"
proof -
  let ?k = "kv_key v"
  have k: "ki_Key i = ?k" using assms(2) by (simp add: kv_key_def)
  have "(case map_of m ?k of None \<Rightarrow> [] | Some l \<Rightarrow> l) = filter (\<lambda>op. kv_key op = ?k) ops"
  proof (cases "?k \<in> kv_key ` set ops")
    case True
    then have "map_of m ?k = Some (filter (\<lambda>op. kv_key op = ?k) ops)"
      using assms(1) unfolding groups_def by blast
    then show ?thesis by simp
  next
    case False
    then have "?k \<notin> fst ` set m" using assms(1) by (simp add: groups_def)
    moreover have "filter (\<lambda>op. kv_key op = ?k) ops = []" using False by (auto simp: filter_empty_conv dest: sym)
    ultimately show ?thesis by (simp add: map_of_eq_None_iff [THEN iffD2])
  qed
  then have "kv_group v m = Inr (AList.update ?k (filter (\<lambda>op. kv_key op = ?k) ops @ [v]) m)"
    using assms(2) by (simp add: kv_group_def k Let_def)
  moreover have "groups (AList.update ?k (filter (\<lambda>op. kv_key op = ?k) ops @ [v]) m) (ops @ [v])"
    using assms(1) unfolding groups_def by (auto simp: distinct_update dom_update update_conv')
  ultimately show ?thesis by blast
qed

lemma kv_groups:
  assumes "kv_typed ops"
  shows "\<exists>m. foldE kv_group ops [] = Inr m \<and> groups m ops"
  using assms
proof (induction ops rule: rev_induct)
  case (snoc v ops)
  then obtain m where m: "foldE kv_group ops [] = Inr m" "groups m ops" by (auto simp: kv_typed_def)
  obtain i where "op_Input v = Some (KvIn i)" using snoc.prems by (auto simp: kv_typed_def)
  from kv_group_ok [OF m(2) this] m(1) show ?case by (auto simp: foldE_append)
qed (simp add: groups_def)

lemma kv_Partition_groups:
  assumes "kv_typed ops"
  shows "kv_Partition ops = Inr (map (\<lambda>k. filter (\<lambda>op. kv_key op = k) ops)
    (sorted_list_of_set (kv_key ` set ops)))"
proof -
  obtain m where m: "foldE kv_group ops [] = Inr m" "groups m ops" using kv_groups [OF assms] by blast
  have "sort (map fst m) = sorted_list_of_set (set (map fst m))"
    using m(2) by (simp add: groups_def sorted_list_of_set_sort_remdups distinct_remdups_id del: set_map)
  also have "set (map fst m) = kv_key ` set ops" using m(2) by (simp add: groups_def)
  finally have "sort (map fst m) = sorted_list_of_set (kv_key ` set ops)" .
  moreover have "map (\<lambda>k. case map_of m k of None \<Rightarrow> [] | Some l \<Rightarrow> l) (sorted_list_of_set (kv_key ` set ops)) =
      map (\<lambda>k. filter (\<lambda>op. kv_key op = k) ops) (sorted_list_of_set (kv_key ` set ops))"
    using m(2) by (auto simp: groups_def)
  ultimately show ?thesis by (simp add: kv_Partition_def m(1) Let_def)
qed

text \<open>The contract of \<^verbatim>\<open>Partition\<close>.\<close>

lemma kv_partition_sound:
  assumes typed: "kv_typed ops" and wf: "wf_operations ops"
    and parts: "kv_Partition ops = Inr parts"
  shows "op_linearizable KvStore ops \<longleftrightarrow> (\<forall>p \<in> set parts. op_linearizable KvModel p)"
proof -
  define idx where "idx k = filter (\<lambda>i. kv_key (ops ! i) = k) [0..<length ops]" for k
  have fil: "filter (\<lambda>op. kv_key op = k) ops = map (nth ops) (idx k)" for k
    using filter_map [of "\<lambda>op. kv_key op = k" "nth ops" "[0..<length ops]"]
    by (simp add: map_nth idx_def comp_def)
  have keys: "set (sorted_list_of_set (kv_key ` set ops)) = (kv_key \<circ> nth ops) ` {..<length ops}"
  proof -
    have "set ops = nth ops ` {..<length ops}" by (auto simp: set_conv_nth)
    then show ?thesis by (simp add: image_comp)
  qed
  have part: "op_linearizable KvModel (filter (\<lambda>op. kv_key op = k) ops) \<longleftrightarrow>
      (\<exists>\<tau>. lin_on KvModel (nth ops) {i \<in> {..<length ops}. kv_key (ops ! i) = k} \<tau>)" for k
  proof -
    have "set (idx k) = {i \<in> {..<length ops}. kv_key (ops ! i) = k}" "distinct (idx k)" by (auto simp: idx_def)
    then show ?thesis unfolding fil using op_linearizable_sub [of "idx k" KvModel "nth ops"] by simp
  qed
  have "op_Call (ops ! i) \<le> op_Return (ops ! i)" if "i < length ops" for i
    using wf that by (auto simp: wf_operations_def less_imp_le)
  then have "op_linearizable KvStore ops \<longleftrightarrow> (\<forall>k \<in> (kv_key \<circ> nth ops) ` {..<length ops}.
      \<exists>\<tau>. lin_on KvModel (nth ops) {i \<in> {..<length ops}. kv_key (ops ! i) = k} \<tau>)"
    unfolding op_linearizable_on by (intro kv.locality) simp_all
  then show ?thesis using parts unfolding kv_Partition_groups [OF typed] keys [symmetric] part [symmetric] by auto
qed

lemma kv_ops_safe: "kv_typed ops \<Longrightarrow> ops_safe KvModel ops"
  by (force simp: ops_safe_def kv_typed_def kv_Step_def)

lemma kv_parts_ok:
  assumes "kv_typed ops" "wf_operations ops" "no_ties ops" "kv_Partition ops = Inr parts"
  shows "partitions_ok KvModel parts" "\<forall>p \<in> set parts. no_ties p"
proof -
  have sub: "\<exists>k. p = filter (\<lambda>op. kv_key op = k) ops" if "p \<in> set parts" for p
    using assms(4) that unfolding kv_Partition_groups [OF assms(1)] by auto
  have "wf_operations p \<and> kv_typed p \<and> no_ties p" if p: "p \<in> set parts" for p
  proof -
    obtain k where "p = filter (\<lambda>op. kv_key op = k) ops" using sub [OF p] by blast
    moreover have "length (filter (\<lambda>op. kv_key op = k) ops) < 2 ^ 62"
      using assms(2) by (simp add: wf_operations_def le_less_trans [OF length_filter_le])
    ultimately show ?thesis using assms(1-3) by (auto simp: wf_operations_def kv_typed_def no_ties_def)
  qed
  then show "partitions_ok KvModel parts" "\<forall>p \<in> set parts. no_ties p"
    by (auto simp: partitions_ok_def kv_ops_safe)
qed

lemma kv_model_equal_sound: "model_equal_sound KvModel"
  by (simp add: model_equal_sound_def)

end
