(* ===== verification/Visualization.thy ===== *)
theory Visualization
  imports Porcupine_API
begin

text \<open>
  \<^verbatim>\<open>computeVisualizationData\<close> of \<^verbatim>\<open>porcupine/visualization.go\<close>: it replays every partial
  linearization that \<^verbatim>\<open>checkParallel\<close> reported and panics when the model rejects a step.  The
  theorem is that it never does for the information that the checker returns.  \<^verbatim>\<open>Visualize\<close> and
  \<^verbatim>\<open>VisualizePath\<close> write the result into the HTML page.

  \<^verbatim>\<open>sort.Slice\<close> sorts the partial linearizations in place, so the caller's information changes: the
  model returns it.  The sorting routine is a parameter with its documented contract.
\<close>

record historyElement =
  he_ClientId :: int
  he_Start :: int
  he_End :: int
  he_Description :: string

record linearizationStep =
  ls_Index :: int
  ls_StateDescription :: string

record partitionVisualizationData =
  pv_History :: "historyElement list"
  pv_PartialLinearizations :: "linearizationStep list list"
  pv_Largest :: "int \<rightharpoonup> int"

definition sorts_by_length :: "(int list list \<Rightarrow> int list list) \<Rightarrow> bool" where
  "sorts_by_length srt \<longleftrightarrow>
     (\<forall>ps. mset (srt ps) = mset ps \<and> sorted_wrt (\<lambda>a b. \<not> length a < length b) (srt ps))"

text \<open>The maps \<^verbatim>\<open>callValue\<close> and \<^verbatim>\<open>returnValue\<close>: a missing key reads as \<^verbatim>\<open>nil\<close>.\<close>

type_synonym 'v value_map = "int \<Rightarrow> 'v iface"

definition viz_entry ::
    "('v, 's) Model \<Rightarrow> 'v entry \<Rightarrow> historyElement list \<times> 'v value_map \<times> 'v value_map
       \<Rightarrow> (historyElement list \<times> 'v value_map \<times> 'v value_map) result" where
  "viz_entry model elem = (\<lambda>(history, callValue, returnValue).
     (case entry_kind elem of
        callEntry \<Rightarrow>
          bindE (int_get history (entry_id elem)) (\<lambda>h.
          bindE (int_set history (entry_id elem)
              (h\<lparr>he_ClientId := entry_clientId elem, he_Start := entry_time elem\<rparr>)) (\<lambda>history.
          Inr (history, callValue(entry_id elem := entry_value elem), returnValue)))
      | returnEntry \<Rightarrow>
          bindE (int_get history (entry_id elem)) (\<lambda>h.
          bindE (call_DescribeOperation model (callValue (entry_id elem)) (entry_value elem)) (\<lambda>d.
          bindE (int_set history (entry_id elem)
              (h\<lparr>he_End := entry_time elem, he_Description := d\<rparr>)) (\<lambda>history.
          Inr (history, callValue, returnValue(entry_id elem := entry_value elem)))))))"

text \<open>
  One partial linearization: \<open>i\<close> is its index and \<open>len\<close> its length.  \<^verbatim>\<open>largestSize\<close> reads as zero for
  a missing key.
\<close>

fun viz_steps ::
    "('v, 's) Model \<Rightarrow> 'v value_map \<Rightarrow> 'v value_map \<Rightarrow> int \<Rightarrow> nat \<Rightarrow> int list \<Rightarrow> 's \<Rightarrow> linearizationStep list
       \<Rightarrow> (int \<rightharpoonup> int) \<times> (int \<Rightarrow> nat)
       \<Rightarrow> (linearizationStep list \<times> (int \<rightharpoonup> int) \<times> (int \<Rightarrow> nat)) result" where
  "viz_steps model cv rv i len [] state lin (largestIndex, largestSize) =
     Inr (lin, largestIndex, largestSize)"
| "viz_steps model cv rv i len (histId # rest) state lin (largestIndex, largestSize) =
     bindE (Step model state (cv histId) (rv histId)) (\<lambda>(ok, state).
     if \<not> ok
     then Inl (ExplicitPanic ''valid partial linearization returned non-ok result from model step'')
     else
       bindE (call_DescribeState model state) (\<lambda>stateDesc.
       viz_steps model cv rv i len rest state
         (lin @ [\<lparr>ls_Index = histId, ls_StateDescription = stateDesc\<rparr>])
         (if largestSize histId < len
          then (largestIndex(histId \<mapsto> i), largestSize(histId := len))
          else (largestIndex, largestSize))))"

fun viz_partials ::
    "('v, 's) Model \<Rightarrow> 'v value_map \<Rightarrow> 'v value_map \<Rightarrow> int \<Rightarrow> int list list \<Rightarrow> linearizationStep list list
       \<Rightarrow> (int \<rightharpoonup> int) \<times> (int \<Rightarrow> nat) \<Rightarrow> (linearizationStep list list \<times> (int \<rightharpoonup> int)) result" where
  "viz_partials model cv rv i [] lins largest = Inr (lins, fst largest)"
| "viz_partials model cv rv i (partial # rest) lins largest =
     bindE (viz_steps model cv rv i (length partial) partial (Init model ()) [] largest) (\<lambda>(lin, largest).
       viz_partials model cv rv (i + 1) rest (lins @ [lin]) largest)"

definition viz_partition ::
    "(int list list \<Rightarrow> int list list) \<Rightarrow> ('v, 's) Model \<Rightarrow> 'v linearizationInfo \<Rightarrow> nat
       \<Rightarrow> (partitionVisualizationData \<times> int list list) result" where
  "viz_partition srt model info p =
     bindE (slice_get (li_history info) p) (\<lambda>es.
     bindE (foldE (viz_entry model) es
       (replicate (length es div 2) \<lparr>he_ClientId = 0, he_Start = 0, he_End = 0, he_Description = []\<rparr>,
        \<lambda>_. None, \<lambda>_. None)) (\<lambda>(history, callValue, returnValue).
     bindE (slice_get (li_partialLinearizations info) p) (\<lambda>partials.
     let partials = srt partials in
     bindE (viz_partials model callValue returnValue 0 partials [] (Map.empty, \<lambda>_. 0)) (\<lambda>(lins, largest).
     Inr (\<lparr>pv_History = history, pv_PartialLinearizations = lins, pv_Largest = largest\<rparr>, partials)))))"

fun viz_loop ::
    "(int list list \<Rightarrow> int list list) \<Rightarrow> ('v, 's) Model \<Rightarrow> nat list \<Rightarrow> 'v linearizationInfo
       \<Rightarrow> partitionVisualizationData list
       \<Rightarrow> (partitionVisualizationData list \<times> 'v linearizationInfo) result" where
  "viz_loop srt model [] info data = Inr (data, info)"
| "viz_loop srt model (p # ps) info data =
     bindE (viz_partition srt model info p) (\<lambda>(d, partials).
       viz_loop srt model ps
         (info\<lparr>li_partialLinearizations := (li_partialLinearizations info)[p := partials]\<rparr>) (data @ [d]))"

definition computeVisualizationData ::
    "('v, 's) go_fmt \<Rightarrow> (int list list \<Rightarrow> int list list) \<Rightarrow> ('v, 's) Model \<Rightarrow> 'v linearizationInfo
       \<Rightarrow> (partitionVisualizationData list \<times> 'v linearizationInfo) result" where
  "computeVisualizationData fm srt model info =
     viz_loop srt (fillDefault fm model) [0..<length (li_history info)] info []"

section \<open>Output\<close>

text \<open>
  \<^verbatim>\<open>Fprintf\<close> with the page as its format, which has a single verb: the data replaces the first \<^verbatim>\<open>%s\<close>.  The page
  itself (\<open>html\<close>), \<^verbatim>\<open>json.Marshal\<close> (\<open>None\<close>: an error) and the file system are arguments: \<open>write s\<close> is \<open>None\<close> if writing \<open>s\<close> to
  the output succeeds, and otherwise the error.
\<close>

fun expand_verb :: "string \<Rightarrow> string \<Rightarrow> string" where
  "expand_verb [] arg = []"
| "expand_verb (c # cs) arg =
     (if c = CHR ''%'' \<and> take 1 cs = ''s'' then arg @ drop 1 cs else c # expand_verb cs arg)"

definition Visualize ::
    "('v, 's) go_fmt \<Rightarrow> (int list list \<Rightarrow> int list list) \<Rightarrow> (partitionVisualizationData list \<Rightarrow> 'e + string) \<Rightarrow> string
       \<Rightarrow> ('v, 's) Model \<Rightarrow> 'v linearizationInfo \<Rightarrow> (string \<Rightarrow> 'e option) \<Rightarrow> 'e option result" where
  "Visualize fm srt marshal html model info write =
     bindE (computeVisualizationData fm srt model info) (\<lambda>(data, info).
     case marshal data of
       Inl err \<Rightarrow> Inr (Some err)
     | Inr jsonData \<Rightarrow>
         (case write (expand_verb html jsonData) of Some err \<Rightarrow> Inr (Some err) | None \<Rightarrow> Inr None))"

text \<open>\<open>create path\<close> is the file or an error; a file is what writing to it gives.\<close>

definition VisualizePath ::
    "('v, 's) go_fmt \<Rightarrow> (int list list \<Rightarrow> int list list) \<Rightarrow> (partitionVisualizationData list \<Rightarrow> 'e + string) \<Rightarrow> string
       \<Rightarrow> (string \<Rightarrow> 'e + (string \<Rightarrow> 'e option)) \<Rightarrow> ('v, 's) Model \<Rightarrow> 'v linearizationInfo \<Rightarrow> string \<Rightarrow> 'e option result" where
  "VisualizePath fm srt marshal html create model info path =
     (case create path of
        Inl err \<Rightarrow> Inr (Some err)
      | Inr f \<Rightarrow> Visualize fm srt marshal html model info f)"

lemma expand_verb_split:
  assumes "CHR ''%'' \<notin> set pre"
  shows "expand_verb (pre @ ''%s'' @ post) arg = pre @ arg @ post"
  using assms by (induction pre) auto

section \<open>The recorded values\<close>

text \<open>The model can describe every operation of the history.\<close>

definition describe_safe :: "('v, 's) Model \<Rightarrow> 'v entry list \<Rightarrow> bool" where
  "describe_safe model es \<longleftrightarrow>
     (\<forall>i \<in> op_ids es. \<exists>d. call_DescribeOperation model (call_value es i) (ret_value es i) = Inr d)"

definition viz_inv ::
    "('v, 's) Model \<Rightarrow> 'v entry list \<Rightarrow> nat \<Rightarrow> historyElement list \<times> 'v value_map \<times> 'v value_map \<Rightarrow> bool" where
  "viz_inv model es k = (\<lambda>(history, cv, rv).
     length history = length es div 2 \<and>
     (\<forall>p < k. entry_kind (es ! p) = callEntry \<longrightarrow>
        cv (entry_id (es ! p)) = entry_value (es ! p) \<and>
        he_ClientId (history ! nat (entry_id (es ! p))) = entry_clientId (es ! p) \<and>
        he_Start (history ! nat (entry_id (es ! p))) = entry_time (es ! p)) \<and>
     (\<forall>p < k. entry_kind (es ! p) = returnEntry \<longrightarrow>
        rv (entry_id (es ! p)) = entry_value (es ! p) \<and>
        he_End (history ! nat (entry_id (es ! p))) = entry_time (es ! p) \<and>
        call_DescribeOperation model (call_value es (entry_id (es ! p))) (entry_value (es ! p)) =
          Inr (he_Description (history ! nat (entry_id (es ! p))))))"

lemma wf_same_kind_unique:
  assumes "wf_history es" "p < length es" "q < length es" "entry_kind (es ! p) = entry_kind (es ! q)"
    "entry_id (es ! p) = entry_id (es ! q)"
  shows "p = q"
  by (rule distinct_map_filter_nth [where f = entry_id and P = "\<lambda>e. entry_kind e = entry_kind (es ! q)" and xs = es])
    (use assms in \<open>cases "entry_kind (es ! q)"; auto simp: wf_history_def Let_def\<close>)+

lemma wf_id_bounds:
  assumes "wf_history es" "p < length es"
  shows "0 \<le> entry_id (es ! p)" "nat (entry_id (es ! p)) < length es div 2"
    "entry_id (es ! p) \<in> op_ids es"
proof -
  have "entry_id (es ! p) \<in> {0..<int (length es div 2)}"
  proof (cases "entry_kind (es ! p)")
    case callEntry
    then have "entry_id (es ! p) \<in> op_ids es" using assms(2) by (auto simp: op_ids_def)
    then show ?thesis using wf_ids(1) [OF assms(1)] by simp
  next
    case returnEntry
    then have "entry_id (es ! p) \<in> entry_id ` {e \<in> set es. entry_kind e = returnEntry}" using assms(2) by auto
    then show ?thesis using wf_ids(2) [OF assms(1)] by simp
  qed
  then show "0 \<le> entry_id (es ! p)" "nat (entry_id (es ! p)) < length es div 2"
    "entry_id (es ! p) \<in> op_ids es" using wf_ids(1) [OF assms(1)] by auto
qed

lemma wf_nat_id_eq:
  assumes "wf_history es" "p < length es" "q < length es"
  shows "nat (entry_id (es ! p)) = nat (entry_id (es ! q)) \<longleftrightarrow> entry_id (es ! p) = entry_id (es ! q)"
  using wf_id_bounds(1) [OF assms(1)] assms(2,3) by (auto simp: nat_eq_iff)

lemma viz_entry_call:
  assumes wf: "wf_history es" and k: "k < length es" "entry_kind (es ! k) = callEntry" and inv: "viz_inv model es k st"
  shows "\<exists>st'. viz_entry model (es ! k) st = Inr st' \<and> viz_inv model es (Suc k) st'"
proof -
  obtain history cv rv where st: "st = (history, cv, rv)" by (cases st)
  note b = wf_id_bounds [OF wf k(1)]
  have len: "length history = length es div 2" using inv by (simp add: viz_inv_def st)
  let ?i = "entry_id (es ! k)"
  let ?st = "(history[nat ?i := (history ! nat ?i)\<lparr>he_ClientId := entry_clientId (es ! k), he_Start := entry_time (es ! k)\<rparr>],
    cv(?i := entry_value (es ! k)), rv)"
  have step: "viz_entry model (es ! k) st = Inr ?st"
    using b len k(2) by (simp add: viz_entry_def st)
  have other: "p < k \<Longrightarrow> entry_kind (es ! p) = callEntry \<Longrightarrow>
      entry_id (es ! p) \<noteq> ?i \<and> nat ?i \<noteq> nat (entry_id (es ! p))" for p
    using wf_same_kind_unique [OF wf, of p k] wf_nat_id_eq [OF wf, of p k] k by auto
  have "viz_inv model es (Suc k) ?st"
    using inv b len other k
    by (simp add: viz_inv_def st less_Suc_eq nth_list_update)
  with step show ?thesis by blast
qed

lemma viz_entry_ret:
  assumes wf: "wf_history es" and k: "k < length es" "entry_kind (es ! k) = returnEntry" and inv: "viz_inv model es k st"
    and d: "describe_safe model es"
  shows "\<exists>st'. viz_entry model (es ! k) st = Inr st' \<and> viz_inv model es (Suc k) st'"
proof -
  obtain history cv rv where st: "st = (history, cv, rv)" by (cases st)
  note b = wf_id_bounds [OF wf k(1)]
  have len: "length history = length es div 2" using inv by (simp add: viz_inv_def st)
  let ?i = "entry_id (es ! k)"
  have rv: "ret_value es ?i = entry_value (es ! k)" using wf_value_mem(2) [OF wf nth_mem [OF k(1)] k(2)] .
  obtain p where p: "p < k" "is_call_of ?i (es ! p)" using wf k by (auto simp: wf_history_def Let_def)
  then have "cv ?i = call_value es ?i"
    using inv wf_value_mem(1) [OF wf nth_mem, of p] k(1) by (auto simp: viz_inv_def st is_call_of_def)
  moreover obtain ds where ds: "call_DescribeOperation model (call_value es ?i) (entry_value (es ! k)) = Inr ds"
    using d b(3) rv by (auto simp: describe_safe_def)
  let ?st = "(history[nat ?i := (history ! nat ?i)\<lparr>he_End := entry_time (es ! k), he_Description := ds\<rparr>],
    cv, rv(?i := entry_value (es ! k)))"
  have "viz_entry model (es ! k) st = Inr ?st"
    using b len k(2) ds calculation by (simp add: viz_entry_def st)
  moreover have other: "p < k \<Longrightarrow> entry_kind (es ! p) = returnEntry \<Longrightarrow>
      entry_id (es ! p) \<noteq> ?i \<and> nat ?i \<noteq> nat (entry_id (es ! p))" for p
    using wf_same_kind_unique [OF wf, of p k] wf_nat_id_eq [OF wf, of p k] k by auto
  have "viz_inv model es (Suc k) ?st"
    using inv b len other k ds
    by (simp add: viz_inv_def st less_Suc_eq nth_list_update)
  ultimately show ?thesis by blast
qed

lemma viz_entries:
  assumes wf: "wf_history es" and d: "describe_safe model es" and k: "k \<le> length es"
    and st0: "length h0 = length es div 2"
  shows "\<exists>st. foldE (viz_entry model) (take k es) (h0, \<lambda>_. None, \<lambda>_. None) = Inr st \<and> viz_inv model es k st"
  using k
proof (induction k)
  case 0
  then show ?case using st0 by (simp add: viz_inv_def)
next
  case (Suc k)
  then obtain st where st: "foldE (viz_entry model) (take k es) (h0, \<lambda>_. None, \<lambda>_. None) = Inr st"
      "viz_inv model es k st" by auto
  have "\<exists>st'. viz_entry model (es ! k) st = Inr st' \<and> viz_inv model es (Suc k) st'"
    using viz_entry_call [OF wf _ _ st(2)] viz_entry_ret [OF wf _ _ st(2) d] Suc.prems
    by (cases "entry_kind (es ! k)") auto
  then show ?case using st Suc.prems by (auto simp: take_Suc_conv_app_nth foldE_append)
qed

section \<open>Replaying the partial linearizations\<close>

lemma viz_inv_values:
  assumes wf: "wf_history es" and inv: "viz_inv model es (length es) (history, cv, rv)" and i: "i \<in> op_ids es"
  shows "cv i = call_value es i" "rv i = ret_value es i"
proof -
  obtain p where "p < length es" "entry_kind (es ! p) = callEntry" "entry_id (es ! p) = i"
    using i by (auto simp: op_ids_def in_set_conv_nth)
  then show "cv i = call_value es i"
    using inv wf_value_mem(1) [OF wf nth_mem, of p] by (auto simp: viz_inv_def)
  have "i \<in> entry_id ` {e \<in> set es. entry_kind e = returnEntry}"
    using i by (simp only: wf_ids [OF wf])
  then obtain p where "p < length es" "entry_kind (es ! p) = returnEntry" "entry_id (es ! p) = i"
    by (auto simp: in_set_conv_nth)
  then show "rv i = ret_value es i"
    using inv wf_value_mem(2) [OF wf nth_mem, of p] by (auto simp: viz_inv_def)
qed

text \<open>
  \<open>largest_inv\<close>: for the partial linearizations \<open>ps\<close> seen so far, the maps record a longest one that
  contains the operation, and its length.
\<close>

definition largest_inv :: "int list list \<Rightarrow> (int \<rightharpoonup> int) \<times> (int \<Rightarrow> nat) \<Rightarrow> bool" where
  "largest_inv ps = (\<lambda>(li, ls). \<forall>h.
     (case li h of
        None \<Rightarrow> ls h = 0 \<and> (\<forall>p \<in> set ps. h \<notin> set p)
      | Some i \<Rightarrow> 0 \<le> i \<and> nat i < length ps \<and> h \<in> set (ps ! nat i) \<and> ls h = length (ps ! nat i) \<and>
          (\<forall>p \<in> set ps. h \<in> set p \<longrightarrow> length p \<le> ls h)))"

definition note_largest :: "int \<Rightarrow> nat \<Rightarrow> int \<Rightarrow> (int \<rightharpoonup> int) \<times> (int \<Rightarrow> nat) \<Rightarrow> (int \<rightharpoonup> int) \<times> (int \<Rightarrow> nat)" where
  "note_largest i len h = (\<lambda>(li, ls). if ls h < len then (li(h \<mapsto> i), ls(h := len)) else (li, ls))"

lemma viz_steps_ok:
  assumes "\<forall>h \<in> set hs. cv h = call_value es h \<and> rv h = ret_value es h" "legal model es s hs"
    "DescribeState model = Some ds"
  shows "\<exists>steps. viz_steps model cv rv i len hs s lin largest =
      Inr (lin @ steps, fold (note_largest i len) hs largest) \<and> map ls_Index steps = hs"
  using assms(1,2)
proof (induction hs arbitrary: s lin largest)
  case (Cons h hs)
  obtain li ls where l: "largest = (li, ls)" by (cases largest)
  obtain s' where s': "Step model s (cv h) (rv h) = Inr (True, s')" "legal model es s' hs"
    using Cons.prems by (auto simp: op_step_def split: sum.splits)
  have "viz_steps model cv rv i len (h # hs) s lin largest =
      viz_steps model cv rv i len hs s' (lin @ [\<lparr>ls_Index = h, ls_StateDescription = ds s'\<rparr>]) (note_largest i len h largest)"
    using s' assms(3) by (simp add: l note_largest_def call_DescribeState_def)
  moreover from Cons.IH [OF _ s'(2), of "lin @ [\<lparr>ls_Index = h, ls_StateDescription = ds s'\<rparr>]" "note_largest i len h largest"]
    Cons.prems obtain steps where
    "viz_steps model cv rv i len hs s' (lin @ [\<lparr>ls_Index = h, ls_StateDescription = ds s'\<rparr>]) (note_largest i len h largest) =
      Inr ((lin @ [\<lparr>ls_Index = h, ls_StateDescription = ds s'\<rparr>]) @ steps,
        fold (note_largest i len) hs (note_largest i len h largest))" "map ls_Index steps = hs"
    by auto
  ultimately show ?case by (intro exI [of _ "\<lparr>ls_Index = h, ls_StateDescription = ds s'\<rparr> # steps"]) simp
next
  case Nil
  then show ?case by (cases largest) simp
qed

lemma note_largest_fold:
  "fold (note_largest i len) hs (li, ls) =
     (\<lambda>h. if h \<in> set hs \<and> ls h < len then Some i else li h, \<lambda>h. if h \<in> set hs \<and> ls h < len then len else ls h)"
proof (induction hs arbitrary: li ls)
  case (Cons h hs)
  show ?case by (cases "ls h < len") (auto simp: note_largest_def [of i len h] Cons fun_eq_iff)
qed simp

lemma largest_inv_snoc:
  assumes "largest_inv ps largest" "p \<noteq> []"
  shows "largest_inv (ps @ [p]) (fold (note_largest (int (length ps)) (length p)) p largest)"
proof -
  obtain li ls where l: "largest = (li, ls)" by (cases largest)
  have *: "case li h of None \<Rightarrow> ls h = 0 \<and> (\<forall>p \<in> set ps. h \<notin> set p)
      | Some i \<Rightarrow> 0 \<le> i \<and> nat i < length ps \<and> h \<in> set (ps ! nat i) \<and> ls h = length (ps ! nat i) \<and>
          (\<forall>p \<in> set ps. h \<in> set p \<longrightarrow> length p \<le> ls h)" for h
    using assms(1) by (simp add: largest_inv_def l)
  show ?thesis unfolding largest_inv_def l note_largest_fold split
  proof
    fix h
    show "case if h \<in> set p \<and> ls h < length p then Some (int (length ps)) else li h of
        None \<Rightarrow> (if h \<in> set p \<and> ls h < length p then length p else ls h) = 0 \<and> (\<forall>p \<in> set (ps @ [p]). h \<notin> set p)
      | Some i \<Rightarrow> 0 \<le> i \<and> nat i < length (ps @ [p]) \<and> h \<in> set ((ps @ [p]) ! nat i) \<and>
          (if h \<in> set p \<and> ls h < length p then length p else ls h) = length ((ps @ [p]) ! nat i) \<and>
          (\<forall>pa \<in> set (ps @ [p]). h \<in> set pa \<longrightarrow> length pa \<le> (if h \<in> set p \<and> ls h < length p then length p else ls h))"
      using * [of h] assms(2) by (cases "li h") (auto simp: nth_append not_less dest: leD)
  qed
qed

lemma viz_partials_ok:
  assumes ok: "\<forall>p \<in> set ps. p \<noteq> [] \<and> legal model es (Init model ()) p \<and> set p \<subseteq> op_ids es"
    and v: "\<forall>h \<in> op_ids es. cv h = call_value es h \<and> rv h = ret_value es h"
    and ds: "DescribeState model = Some ds" and l: "largest_inv done largest"
  shows "\<exists>more largest'. viz_partials model cv rv (int (length done)) ps lins largest = Inr (lins @ more, fst largest') \<and>
    map (map ls_Index) more = ps \<and> largest_inv (done @ ps) largest'"
  using ok l
proof (induction ps arbitrary: "done" lins largest)
  case Nil
  then show ?case by (intro exI [of _ "[]"] exI [of _ largest]) simp
next
  case (Cons p ps)
  have hs: "\<forall>h \<in> set p. cv h = call_value es h \<and> rv h = ret_value es h" using Cons.prems(1) v by auto
  let ?l = "fold (note_largest (int (length done)) (length p)) p largest"
  obtain steps where steps: "viz_steps model cv rv (int (length done)) (length p) p (Init model ()) [] largest =
      Inr (steps, ?l)" "map ls_Index steps = p"
    using viz_steps_ok [OF hs _ ds, of "Init model ()" "int (length done)" "length p" "[]" largest] Cons.prems(1) by auto
  have "largest_inv (done @ [p]) ?l" using largest_inv_snoc Cons.prems by simp
  from Cons.IH [OF _ this, of "lins @ [steps]"] Cons.prems(1) obtain more largest' where
    "viz_partials model cv rv (int (length (done @ [p]))) ps (lins @ [steps]) ?l = Inr ((lins @ [steps]) @ more, fst largest')"
    "map (map ls_Index) more = ps" "largest_inv ((done @ [p]) @ ps) largest'" by auto
  then show ?case using steps by (intro exI [of _ "steps # more"] exI [of _ largest']) (simp add: add.commute)
qed

section \<open>The whole computation\<close>

text \<open>What is drawn for one partition whose partial linearizations are \<open>partials\<close> in that order.\<close>

definition viz_ok ::
    "('v, 's) Model \<Rightarrow> 'v entry list \<Rightarrow> int list list \<Rightarrow> partitionVisualizationData \<Rightarrow> bool" where
  "viz_ok model es partials d \<longleftrightarrow>
     map (map ls_Index) (pv_PartialLinearizations d) = partials \<and>
     (\<exists>cv rv. viz_inv model es (length es) (pv_History d, cv, rv)) \<and>
     (\<exists>ls. largest_inv partials (pv_Largest d, ls))"

lemma viz_partition_ok:
  assumes wf: "wf_history es" and d: "describe_safe model es" and ds: "DescribeState model \<noteq> None"
    and srt: "sorts_by_length srt" and p: "p < length (li_history info)" "li_history info ! p = es"
      "length (li_partialLinearizations info) = length (li_history info)"
    and ok: "\<forall>\<sigma> \<in> set (li_partialLinearizations info ! p). \<sigma> \<noteq> [] \<and> partial_linearization model es \<sigma>"
  shows "\<exists>v. viz_partition srt model info p = Inr (v, srt (li_partialLinearizations info ! p)) \<and>
    viz_ok model es (srt (li_partialLinearizations info ! p)) v"
proof -
  let ?ps = "srt (li_partialLinearizations info ! p)"
  let ?h0 = "replicate (length es div 2) \<lparr>he_ClientId = 0, he_Start = 0, he_End = 0, he_Description = []\<rparr>"
  have set: "set ?ps = set (li_partialLinearizations info ! p)"
    using srt unfolding sorts_by_length_def by (metis set_mset_mset)
  obtain history cv rv where st: "foldE (viz_entry model) es (?h0, \<lambda>_. None, \<lambda>_. None) = Inr (history, cv, rv)"
      "viz_inv model es (length es) (history, cv, rv)"
    using viz_entries [OF wf d order_refl, of ?h0] by auto
  obtain f where f: "DescribeState model = Some f" using ds by auto
  have "\<forall>\<sigma> \<in> set ?ps. \<sigma> \<noteq> [] \<and> legal model es (Init model ()) \<sigma> \<and> set \<sigma> \<subseteq> op_ids es"
    using ok by (auto simp: set partial_linearization_def)
  from viz_partials_ok [OF this _ f, of cv rv "[]" "(Map.empty, \<lambda>_. 0)" "[]"] viz_inv_values [OF wf st(2)]
  obtain lins largest where
    l: "viz_partials model cv rv 0 ?ps [] (Map.empty, \<lambda>_. 0) = Inr (lins, fst largest)"
      "map (map ls_Index) lins = ?ps" "largest_inv ?ps largest"
    by (auto simp: largest_inv_def)
  then show ?thesis
    using st p by (auto simp: viz_partition_def viz_ok_def Let_def intro: exI [of _ "snd largest"])
qed

definition viz_ready :: "('v, 's) Model \<Rightarrow> 'v linearizationInfo \<Rightarrow> bool" where
  "viz_ready model info \<longleftrightarrow>
     length (li_partialLinearizations info) = length (li_history info) \<and>
     (\<forall>p < length (li_history info). wf_history (li_history info ! p) \<and> describe_safe model (li_history info ! p) \<and>
        (\<forall>\<sigma> \<in> set (li_partialLinearizations info ! p).
           \<sigma> \<noteq> [] \<and> partial_linearization model (li_history info ! p) \<sigma>))"

lemma viz_loop_ok:
  assumes r: "viz_ready model info" and ds: "DescribeState model \<noteq> None" and srt: "sorts_by_length srt"
    and ps: "set ps \<subseteq> {..<length (li_history info)}" "distinct ps"
  shows "\<exists>more. viz_loop srt model ps info data = Inr (data @ more,
      info\<lparr>li_partialLinearizations := fold (\<lambda>p l. l[p := srt (li_partialLinearizations info ! p)]) ps
        (li_partialLinearizations info)\<rparr>) \<and>
    list_all2 (\<lambda>p v. viz_ok model (li_history info ! p) (srt (li_partialLinearizations info ! p)) v) ps more"
  using r ps
proof (induction ps arbitrary: info data)
  case (Cons p ps)
  let ?s = "srt (li_partialLinearizations info ! p)"
  let ?info = "info\<lparr>li_partialLinearizations := (li_partialLinearizations info)[p := ?s]\<rparr>"
  have p: "p < length (li_history info)" "length (li_partialLinearizations info) = length (li_history info)"
    using Cons.prems by (auto simp: viz_ready_def)
  obtain v where v: "viz_partition srt model info p = Inr (v, ?s)" "viz_ok model (li_history info ! p) ?s v"
    using viz_partition_ok [OF _ _ ds srt p(1) refl p(2)] Cons.prems(1) p(1) by (auto simp: viz_ready_def)
  have "set ?s = set (li_partialLinearizations info ! p)"
    using srt unfolding sorts_by_length_def by (metis set_mset_mset)
  then have "set (li_partialLinearizations ?info ! q) = set (li_partialLinearizations info ! q)"
    if "q < length (li_history info)" for q
    using p that by (cases "q = p") simp_all
  then have "viz_ready model ?info" using Cons.prems(1) by (simp add: viz_ready_def)
  from Cons.IH [OF this, of "data @ [v]"] Cons.prems obtain more where
    more: "viz_loop srt model ps ?info (data @ [v]) = Inr ((data @ [v]) @ more,
        ?info\<lparr>li_partialLinearizations := fold (\<lambda>q l. l[q := srt (li_partialLinearizations ?info ! q)]) ps
          (li_partialLinearizations ?info)\<rparr>)"
      "list_all2 (\<lambda>q v. viz_ok model (li_history ?info ! q) (srt (li_partialLinearizations ?info ! q)) v) ps more"
    by auto
  have same: "q \<in> set ps \<Longrightarrow> li_partialLinearizations ?info ! q = li_partialLinearizations info ! q" for q
    using Cons.prems(3) by (cases "q = p") auto
  have "fold (\<lambda>q l. l[q := srt (li_partialLinearizations ?info ! q)]) ps (li_partialLinearizations ?info) =
      fold (\<lambda>q l. l[q := srt (li_partialLinearizations info ! q)]) ps (li_partialLinearizations ?info)"
    by (rule fold_cong) (use same in auto)
  moreover have "list_all2 (\<lambda>q v. viz_ok model (li_history info ! q) (srt (li_partialLinearizations info ! q)) v) ps more"
    using more(2) by (rule list.rel_mono_strong) (use same in auto)
  ultimately show ?case using more(1) v by (intro exI [of _ "v # more"]) simp
qed simp

lemma fold_sort_all:
  "fold (\<lambda>p l. l[p := srt (xs ! p)]) [0..<length xs] xs = map srt xs"
proof -
  have "k \<le> length xs \<Longrightarrow> fold (\<lambda>p l. l[p := srt (xs ! p)]) [0..<k] xs = map srt (take k xs) @ drop k xs" for k
  proof (induction k)
    case (Suc k)
    then have "drop k xs = xs ! k # drop (Suc k) xs" by (simp add: Cons_nth_drop_Suc)
    then show ?case using Suc by (simp add: list_update_append take_Suc_conv_app_nth)
  qed simp
  from this [of "length xs"] show ?thesis by simp
qed

lemma computeVisualizationData_returns:
  assumes r: "viz_ready (fillDefault fm model) info" and srt: "sorts_by_length srt"
  shows "\<exists>data. computeVisualizationData fm srt model info =
      Inr (data, info\<lparr>li_partialLinearizations := map srt (li_partialLinearizations info)\<rparr>) \<and>
    list_all2 (\<lambda>p v. viz_ok (fillDefault fm model) (li_history info ! p) (srt (li_partialLinearizations info ! p)) v)
      [0..<length (li_history info)] data"
proof -
  have "length (li_history info) = length (li_partialLinearizations info)" using r by (simp add: viz_ready_def)
  then have "fold (\<lambda>p l. l[p := srt (li_partialLinearizations info ! p)]) [0..<length (li_history info)]
      (li_partialLinearizations info) = map srt (li_partialLinearizations info)"
    by (simp add: fold_sort_all)
  then show ?thesis
    using viz_loop_ok [OF r _ srt, of "[0..<length (li_history info)]" "[]"]
    by (auto simp: computeVisualizationData_def lessThan_atLeast0)
qed

end
