(* ===== verification/Demo.thy ===== *)
theory Demo
  imports Kv_Model Visualization
begin

text \<open>
  Small concrete histories and a concrete run-time library, on which the theorems of the
  development are applied: two clients of a key/value store, once with a linearizable history and
  once with a stale read.
\<close>

definition demo_rt :: "(kv_value, string) go_runtime" where
  "demo_rt = \<lparr>rt_fmt = \<lparr>fmt_value = (\<lambda>_. []), fmt_state = (\<lambda>_. [])\<rparr>,
     rt_sort = sort_key entry_time, rt_range = (\<lambda>ks. ks)\<rparr>"

definition kv_op ::
    "8 word \<Rightarrow> string \<Rightarrow> string \<Rightarrow> string \<Rightarrow> int \<Rightarrow> int \<Rightarrow> kv_value Operation" where
  "kv_op opn k v out call ret =
     \<lparr>op_ClientId = 0, op_Input = Some (KvIn \<lparr>ki_Op = opn, ki_Key = k, ki_Value = v\<rparr>), op_Call = call,
      op_Output = Some (KvOut \<lparr>ko_Value = out\<rparr>), op_Return = ret\<rparr>"

definition demo_ops :: "kv_value Operation list" where
  "demo_ops = [kv_op 1 ''x'' ''1'' [] 0 5, kv_op 0 ''x'' [] ''1'' 3 9, kv_op 2 ''y'' ''2'' [] 4 6]"

text \<open>The read starts after the write has returned and still misses it.\<close>

definition stale_ops :: "kv_value Operation list" where
  "stale_ops = [kv_op 1 ''x'' ''1'' [] 0 5, kv_op 0 ''x'' [] [] 6 9]"

definition demo_sched :: "action list" where
  "demo_sched = replicate 5 (Work 0) @ replicate 4 (Work 1) @ [Receive, Receive, Finish]"

definition demo_model :: "(kv_value, string) Model" where
  "demo_model = fillDefault (rt_fmt demo_rt) KvModel"

definition demo_entries :: "kv_value entry list" where
  "demo_entries = makeEntries (sort_key entry_time) (take 2 demo_ops)"

definition stale_entries :: "kv_value entry list" where
  "stale_entries = makeEntries (sort_key entry_time) stale_ops"

lemmas demo_op_defs = demo_ops_def stale_ops_def kv_op_def

lemma demo_runtime: "runtime_ok demo_rt"
  by (simp add: runtime_ok_def demo_rt_def sort_key_sorts_by_time ranges_keys_def)

lemma demo_ops_ok: "kv_typed demo_ops" "wf_operations demo_ops" "no_ties demo_ops" "demo_ops \<noteq> []"
  by (simp_all add: demo_op_defs kv_typed_def wf_operations_def no_ties_def)

lemma stale_ops_ok: "kv_typed stale_ops" "wf_operations stale_ops" "no_ties stale_ops" "stale_ops \<noteq> []"
  by (simp_all add: demo_op_defs kv_typed_def wf_operations_def no_ties_def)

lemma demo_take_ok: "kv_typed (take 2 demo_ops)" "wf_operations (take 2 demo_ops)"
  by (simp_all add: demo_op_defs kv_typed_def wf_operations_def)

lemma demo_model_ok: "equal_sound demo_model" "Equal demo_model = Some ShallowEqual"
  using fillDefault_equal_sound [OF kv_model_equal_sound] by (simp_all add: demo_model_def)

lemma demo_entries_ok: "wf_history demo_entries" "step_safe demo_model demo_entries"
  using makeEntries_wf [OF sort_key_sorts_by_time demo_take_ok(2)]
    makeEntries_step_safe [OF sort_key_sorts_by_time demo_take_ok(2) kv_ops_safe [OF demo_take_ok(1)]]
  by (simp_all add: demo_entries_def demo_model_def)

lemma stale_entries_ok: "wf_history stale_entries" "step_safe demo_model stale_entries"
  using makeEntries_wf [OF sort_key_sorts_by_time stale_ops_ok(2)]
    makeEntries_step_safe [OF sort_key_sorts_by_time stale_ops_ok(2) kv_ops_safe [OF stale_ops_ok(1)]]
  by (simp_all add: stale_entries_def demo_model_def)

lemma demo_job: "job_ok demo_model [demo_entries, stale_entries]"
  using demo_entries_ok stale_entries_ok by (simp add: job_ok_def demo_model_ok)

lemma demo_ranges: "ranges_keys (\<lambda>ks. ks)"
  by (simp add: ranges_keys_def)

lemma demo_sorts_by_length: "sorts_by_length (sort_key (\<lambda>p. - int (length p)))"
proof -
  have "sorted_wrt (\<lambda>a b. \<not> length a < length b) (sort_key (\<lambda>p. - int (length p)) ps)" for ps :: "int list list"
    using sorted_sort_key [of "\<lambda>p. - int (length p)" ps] by (simp add: sorted_map not_less)
  then show ?thesis by (simp add: sorts_by_length_def)
qed

end
