(* ===== verification/Porcupine_Properties.thy ===== *)
theory Porcupine_Properties
  imports Demo
begin

text \<open>
  What the linearizability checker \<^verbatim>\<open>porcupine\<close> guarantees, component by component, each theorem with
  an application to a concrete history.
\<close>

section \<open>The search\<close>

text \<open>C2.
  On a well-formed history, for a model whose step function does not panic and whose equality is
  sound, \<^verbatim>\<open>checkSingle\<close> with the flag \<^verbatim>\<open>kill\<close> never raised terminates without a panic and returns
  \<open>true\<close> if and only if the history is linearizable.
\<close>

theorem checkSingle_decides:
  assumes "wf_history es" "step_safe model es" "equal_sound model"
  shows "\<exists>longest seqs. checkSingle model es computePartial (\<lambda>_. 0) =
    Some (Inr (linearizable model es, longest, seqs))"
proof -
  obtain eq where eq: "Equal model = Some eq" using assms(3) by (auto simp: equal_sound_def)
  show ?thesis
    using checkSingle_returns [OF assms(1,2) eq, of computePartial "\<lambda>_. 0"] assms(3)
    by (auto simp: verdict_ok_def split: if_splits)
qed

theorem checkSingle_decides_witness:
  "linearizable demo_model demo_entries \<and> \<not> linearizable demo_model stale_entries"
proof -
  have "map_option (map_sum id fst) (checkSingle demo_model demo_entries False (\<lambda>_. 0)) = Some (Inr True)"
    by code_simp
  moreover have "map_option (map_sum id fst) (checkSingle demo_model stale_entries False (\<lambda>_. 0)) = Some (Inr False)"
    by code_simp
  ultimately show ?thesis
    using checkSingle_decides [OF demo_entries_ok demo_model_ok(1), of False]
      checkSingle_decides [OF stale_entries_ok demo_model_ok(1), of False]
    by auto
qed

text \<open>C5.
  Whatever values \<^verbatim>\<open>checkSingle\<close> reads from the flag \<^verbatim>\<open>kill\<close>, and for any equality, it terminates
  without a panic, answers \<open>true\<close> only for a linearizable history, and every sequence it records for
  an operation is a partial linearization that contains the operation.
\<close>

theorem checkSingle_under_kill:
  assumes "wf_history es" "step_safe model es" "Equal model = Some eq"
  shows "\<exists>ok longest seqs. checkSingle model es computePartial kill = Some (Inr (ok, longest, seqs)) \<and>
    (ok \<longrightarrow> linearizable model es) \<and> length longest = length es div 2 \<and>
    (\<forall>k < length longest. \<forall>p. longest ! k = Some p \<longrightarrow>
       p < length seqs \<and> int k \<in> set (seqs ! p) \<and> partial_linearization model es (seqs ! p))"
  using checkSingle_returns [OF assms, of computePartial kill]
  by (auto simp: verdict_ok_def longest_ok_def split: if_splits)

theorem checkSingle_under_kill_witness:
  "\<exists>ok longest seqs. checkSingle demo_model stale_entries True (\<lambda>k. if k < 2 then 0 else 1) =
      Some (Inr (ok, longest, seqs)) \<and> (ok \<longrightarrow> linearizable demo_model stale_entries) \<and> length longest = 2"
proof -
  have "length stale_entries div 2 = 2" by code_simp
  then show ?thesis
    using checkSingle_under_kill [OF stale_entries_ok demo_model_ok(2), of True "\<lambda>k. if k < 2 then 0 else 1"]
    by auto
qed

section \<open>The goroutines\<close>

text \<open>C3.
  Under every interleaving of its goroutines, and whenever the timer fires, \<^verbatim>\<open>checkParallel\<close> does not
  panic; it answers \<open>Ok\<close> only if every partition is linearizable, \<open>Illegal\<close> (for a sound equality)
  only if some partition is not, \<open>Unknown\<close> only if there is a timeout; with \<^verbatim>\<open>computeInfo\<close> every
  reported sequence is a partial linearization of its partition, and a linearization when the answer
  is \<open>Ok\<close>.
\<close>

theorem checkParallel_safe:
  assumes "job_ok model history" "ranges_keys rng"
    and "checkParallel rng model history computeInfo timeout sched = Some r"
  shows "\<exists>res info. r = Inr (res, info) \<and> answer_ok model history timeout res \<and>
    (computeInfo \<longrightarrow> info_ok model history res info)"
  by (rule checkParallel_answers [OF assms])

theorem checkParallel_safe_witness:
  "answer_ok demo_model [demo_entries, stale_entries] 0 Illegal"
proof -
  let ?sched = "replicate 5 (Work 0) @ replicate 6 (Work 1) @ [Receive, Receive, Finish]"
  have "map_option (map_sum id fst)
      (checkParallel (\<lambda>ks. ks) demo_model [demo_entries, stale_entries] True 0 ?sched) = Some (Inr Illegal)"
    by code_simp
  from result_fstD [OF this] obtain info where
    "checkParallel (\<lambda>ks. ks) demo_model [demo_entries, stale_entries] True 0 ?sched = Some (Inr (Illegal, info))" ..
  from checkParallel_safe [OF demo_job demo_ranges this] show ?thesis by auto
qed

text \<open>C4.
  \<^verbatim>\<open>checkParallel\<close> terminates: no interleaving has more than \<open>par_bound\<close> steps, and as long as the
  caller has not answered some step is enabled, provided there is a partition or a timeout.  There
  is no deadlock and no infinite run.
\<close>

theorem checkParallel_terminates:
  assumes "job_ok model history" "history \<noteq> [] \<or> timeout > 0"
    and "par_run rng model history computeInfo timeout sched (par_init history) = Some r"
  shows "length sched \<le> par_bound model history \<and>
    (\<exists>c. r = Inr c \<and> ((\<exists>res info. p_main c = Answered res info) \<or>
       (\<exists>a r'. par_step rng model history computeInfo timeout a c = Some r')))"
  by (rule par_run_bounded [OF assms])

theorem checkParallel_terminates_witness:
  "\<exists>c. par_run (\<lambda>ks. ks) demo_model [demo_entries, stale_entries] False 0 [Work 0, Work 1] (par_init [demo_entries, stale_entries]) =
      Some (Inr c) \<and> 2 \<le> par_bound demo_model [demo_entries, stale_entries]"
proof -
  let ?r = "par_run (\<lambda>ks. ks) demo_model [demo_entries, stale_entries] False 0 [Work 0, Work 1] (par_init [demo_entries, stale_entries])"
  have "?r \<noteq> None" by code_simp
  then obtain r where r: "?r = Some r" by blast
  have ne: "[demo_entries, stale_entries] \<noteq> [] \<or> (0 :: int) > 0" by simp
  from checkParallel_terminates [OF demo_job ne r] r show ?thesis by auto
qed

text \<open>C14.
  Without a partition and without a timeout, \<^verbatim>\<open>checkParallel\<close> never returns: no goroutine exists that
  could send on the channel, and the loop only leaves after a receive.
\<close>

theorem checkParallel_no_partition_blocks:
  assumes "timeout \<le> 0"
  shows "checkParallel rng model [] computeInfo timeout sched = None"
  by (rule checkParallel_blocks [OF assms])

theorem checkParallel_no_partition_blocks_witness:
  "\<forall>sched. CheckOperations demo_rt KvModel [] sched = None"
proof -
  have p: "kv_Partition [] = Inr []" by code_simp
  show ?thesis
    using checkParallel_no_partition_blocks [of 0 "rt_range demo_rt" "fillDefault (rt_fmt demo_rt) KvModel" False]
    by (simp add: CheckOperations_def checkOperations_def call_Partition_def p)
qed

section \<open>Histories of events\<close>

text \<open>C7.
  For a well-formed history of events and a model without a partition of events, \<^verbatim>\<open>CheckEvents\<close>
  returns, and it can only return whether the history, with the identifiers the caller gave, is
  linearizable.
\<close>

theorem CheckEvents_correct:
  assumes "runtime_ok rt" "wf_events evs" "PartitionEvent model = None" "model_equal_sound model"
    and "step_safe model (convertEntries (renumber evs))"
  shows "(\<exists>sched. CheckEvents rt model evs sched = Some r) \<longleftrightarrow> r = Inr (linearizable model (convertEntries evs))"
proof -
  let ?m = "fillDefault (rt_fmt rt) model" and ?h = "map (\<lambda>s. convertEntries (renumber s)) [evs]"
  have p: "call_PartitionEvent ?m evs = Inr [evs]"
    using assms(3) by (simp add: call_PartitionEvent_def NoPartitionEvent_def)
  have parts: "event_partitions_ok model [evs]" using assms by (simp add: event_partitions_ok_def)
  have only: "r = Inr (linearizable model (convertEntries evs))"
    if ev: "CheckEvents rt model evs sched = Some r" for sched r
  proof -
    obtain r' where r': "checkEvents rt model evs False 0 sched = Some r'" using ev by (auto simp: CheckEvents_def)
    from checkEvents_answers [OF assms(1) p parts r'] obtain res info where
      res: "r' = Inr (res, info)" "answer_ok ?m ?h 0 res" by blast
    have "res = Ok \<longleftrightarrow> linearizable model (convertEntries evs)"
      using res(2) fillDefault_equal_sound [OF assms(4), of "rt_fmt rt"] renumber_linearizable [of model evs]
      by (cases res) (auto simp: answer_ok_def)
    then show ?thesis using ev r' res(1) by (simp add: CheckEvents_def)
  qed
  obtain sched res info where "checkEvents rt model evs False 0 sched = Some (Inr (res, info))"
    using checkEvents_finishes [OF p parts] by blast
  then have "\<exists>r. CheckEvents rt model evs sched = Some r" by (simp add: CheckEvents_def)
  then show ?thesis using only by blast
qed

definition demo_events :: "kv_value Event list" where
  "demo_events =
     [\<lparr>ev_ClientId = 0, ev_Kind = CallEvent, ev_Value = op_Input (demo_ops ! 0), ev_Id = 70\<rparr>,
      \<lparr>ev_ClientId = 1, ev_Kind = CallEvent, ev_Value = op_Input (demo_ops ! 1), ev_Id = 31\<rparr>,
      \<lparr>ev_ClientId = 0, ev_Kind = ReturnEvent, ev_Value = op_Output (demo_ops ! 0), ev_Id = 70\<rparr>,
      \<lparr>ev_ClientId = 1, ev_Kind = ReturnEvent, ev_Value = op_Output (demo_ops ! 1), ev_Id = 31\<rparr>]"

lemma demo_events_ok: "wf_events demo_events" "step_safe KvModel (convertEntries (renumber demo_events))"
proof -
  have "\<forall>q < length demo_events. ev_Kind (demo_events ! q) = ReturnEvent \<longrightarrow>
      (\<exists>p < q. ev_Kind (demo_events ! p) = CallEvent \<and> ev_Id (demo_events ! p) = ev_Id (demo_events ! q))"
    by code_simp
  then show "wf_events demo_events" by (simp add: wf_events_def demo_events_def)
  show "step_safe KvModel (convertEntries (renumber demo_events))"
    unfolding step_safe_def op_step_def
    by (auto simp: call_value_def ret_value_def value_of_def is_call_of_def is_ret_of_def convertEntries_def
        renumber_def demo_events_def demo_op_defs kv_Step_def op_ids_def)
qed

theorem CheckEvents_correct_witness:
  "\<exists>sched. CheckEvents demo_rt KvModel demo_events sched = Some (Inr (linearizable KvModel (convertEntries demo_events)))"
  using CheckEvents_correct [OF demo_runtime demo_events_ok(1) _ kv_model_equal_sound demo_events_ok(2)]
  by (simp add: KvModel_def)

section \<open>Histories of operations\<close>

text \<open>C9.
  For operations that return after they are called, the entries that \<^verbatim>\<open>makeEntries\<close> produces with any
  sorting routine that meets the contract of \<^verbatim>\<open>sort.Sort\<close> form a well-formed history; a
  linearization of them orders the operations by real time, and when no call coincides with a
  return the two notions of linearizability agree.
\<close>

theorem makeEntries_correct:
  assumes "sorts_by_time srt" "wf_operations ops"
  shows "wf_history (makeEntries srt ops) \<and>
    (linearizable model (makeEntries srt ops) \<longrightarrow> op_linearizable model ops) \<and>
    (no_ties ops \<longrightarrow> (linearizable model (makeEntries srt ops) \<longleftrightarrow> op_linearizable model ops))"
  using makeEntries_wf [OF assms] makeEntries_linearizable [OF assms] by blast

theorem makeEntries_correct_witness:
  "op_linearizable KvModel (take 2 demo_ops) \<longleftrightarrow> linearizable KvModel (makeEntries (sort_key entry_time) (take 2 demo_ops))"
proof -
  have "no_ties (take 2 demo_ops)" by (simp add: no_ties_def demo_op_defs)
  then show ?thesis using makeEntries_correct [OF sort_key_sorts_by_time demo_take_ok(2), of KvModel] by blast
qed

text \<open>C10.
  \<^verbatim>\<open>renumber\<close> replaces the identifiers of a well-formed history of events by the numbers below the
  number of operations and leaves the events otherwise unchanged and in order; the result is
  well-formed and linearizable exactly if the original is.
\<close>

theorem renumber_correct:
  assumes "wf_events evs"
  shows "wf_history (convertEntries (renumber evs)) \<and>
    (linearizable model (convertEntries (renumber evs)) \<longleftrightarrow> linearizable model (convertEntries evs)) \<and>
    (\<exists>g. inj_on g (ev_Id ` set evs) \<and> renumber evs = map (\<lambda>v. v\<lparr>ev_Id := g (ev_Id v)\<rparr>) evs)"
  using convertEntries_wf [OF assms] renumber_linearizable [of model evs] renumber_conv [of evs]
  by (auto simp: bij_betw_def)

theorem renumber_correct_witness:
  "wf_history (convertEntries (renumber demo_events)) \<and>
   (linearizable KvModel (convertEntries (renumber demo_events)) \<longleftrightarrow> linearizable KvModel (convertEntries demo_events))"
  using renumber_correct [OF demo_events_ok(1), of KvModel] by blast

text \<open>C6.
  \<^verbatim>\<open>Partition\<close> of the key/value model meets the contract stated in \<^verbatim>\<open>model.go\<close>: it splits a history
  by key, and the history is linearizable for the whole store if and only if every partition is
  linearizable for a single key.
\<close>

theorem kv_partition_contract:
  assumes "kv_typed ops" "wf_operations ops"
  shows "\<exists>parts. kv_Partition ops = Inr parts \<and>
    (op_linearizable KvStore ops \<longleftrightarrow> (\<forall>p \<in> set parts. op_linearizable KvModel p)) \<and>
    (\<forall>p \<in> set parts. \<exists>k. p = filter (\<lambda>op. kv_key op = k) ops)"
  using kv_partition_sound [OF assms] kv_Partition_groups [OF assms(1)] by auto

theorem kv_partition_contract_witness:
  "\<exists>parts. kv_Partition demo_ops = Inr parts \<and>
    (op_linearizable KvStore demo_ops \<longleftrightarrow> (\<forall>p \<in> set parts. op_linearizable KvModel p))"
  using kv_partition_contract [OF demo_ops_ok(1,2)] by blast

section \<open>The data structures of the search\<close>

text \<open>C11.
  \<^verbatim>\<open>lift\<close> takes a call and its return out of the doubly linked list and \<^verbatim>\<open>unlift\<close> puts them back:
  neither panics, the list in between is the list without the two nodes, and the list afterwards is
  the original one, with values, identifiers and matches of all nodes unchanged.
\<close>

theorem lift_unlift:
  assumes "links m (P @ e # B @ r # C)" "P \<noteq> []" "distinct (P @ e # B @ r # C)" "node_match (m e) = Some r"
  shows "\<exists>m1 m2. lift m e = Inr m1 \<and> links m1 (P @ B @ C) \<and> unlift m1 e = Inr m2 \<and>
    links m2 (P @ e # B @ r # C) \<and> same_static m m2"
proof -
  obtain m1 where m1: "lift m e = Inr m1" "links m1 (P @ B @ C)" "same_static m m1" "parked m1 P e B r C"
    using lift_ok [OF assms] by blast
  then have "node_match (m1 e) = Some r" using assms(4) by (simp add: same_static_def)
  from unlift_ok [OF m1(2) assms(2,3) this m1(4)] m1 show ?thesis by (auto simp: same_static_def)
qed

definition demo_mem :: "nat \<Rightarrow> string node" where
  "demo_mem = (\<lambda>_. new_node None None 0)
     (0 := \<lparr>node_value = None, node_match = None, node_id = -1, node_next = Some 1, node_prev = None\<rparr>,
      1 := \<lparr>node_value = Some ''in'', node_match = Some 2, node_id = 0, node_next = Some 2, node_prev = Some 0\<rparr>,
      2 := \<lparr>node_value = Some ''out'', node_match = None, node_id = 0, node_next = None, node_prev = Some 1\<rparr>)"

theorem lift_unlift_witness:
  "\<exists>m1 m2. lift demo_mem 1 = Inr m1 \<and> links m1 [0] \<and> unlift m1 1 = Inr m2 \<and> links m2 [0, 1, 2]"
  using lift_unlift [of demo_mem "[0]" 1 "[]" 2 "[]"] by (auto simp: demo_mem_def links_def)

text \<open>C12.
  \<^verbatim>\<open>makeLinkedEntries\<close> builds, for any list of entries, a doubly linked list of as many nodes, in
  order, in which every node carries the value and identifier of its entry and a call points to the
  first later return with its identifier; \<^verbatim>\<open>length\<close> terminates on it and counts the entries.
\<close>

theorem makeLinkedEntries_correct:
  "case makeLinkedEntries es of (h, root) \<Rightarrow>
     node_length (mem h) root = Some (length es) \<and> root = head_opt (addresses es) \<and>
     (if es = [] then root = None else links (mem h) (addresses es)) \<and> represents (mem h) es"
proof -
  obtain h root where m: "makeLinkedEntries es = (h, root)" by (cases "makeLinkedEntries es")
  show ?thesis using makeLinkedEntries_length [OF m] by (auto simp: m built_def)
qed

text \<open>C13.
  Within its capacity, a \<^verbatim>\<open>bitset\<close> behaves as a set of natural numbers: \<^verbatim>\<open>set\<close> and \<^verbatim>\<open>clear\<close> add and
  remove the position and nothing else, \<^verbatim>\<open>get\<close> tests membership, \<^verbatim>\<open>equals\<close> decides equality of the
  sets; beyond the capacity the operations panic with an index out of range.
\<close>

theorem bitset_operations:
  assumes "length b = length c"
  shows "(p < bit_capacity b \<longrightarrow>
      (\<exists>b1 b2. bitset_set b p = Inr b1 \<and> bits_of b1 = insert p (bits_of b) \<and>
               bitset_clear b p = Inr b2 \<and> bits_of b2 = bits_of b - {p} \<and>
               bitset_get b p = Inr (p \<in> bits_of b))) \<and>
    (\<not> p < bit_capacity b \<longrightarrow> bitset_set b p = Inl IndexOutOfRange \<and>
       bitset_clear b p = Inl IndexOutOfRange \<and> bitset_get b p = Inl IndexOutOfRange) \<and>
    (bitset_equals b c \<longleftrightarrow> bits_of b = bits_of c)"
  using bitset_set_ok [of p b] bitset_clear_ok [of p b] bitset_get_ok [of p b] bitset_out_of_range [of p b]
    bits_of_inj [OF assms] by (auto simp: bitset_equals_eq simp del: in_capacity)

theorem bitset_operations_witness:
  "\<exists>b1. bitset_set (newBitset 70) 65 = Inr b1 \<and> bits_of b1 = {65}"
proof -
  have "65 < bit_capacity (newBitset 70)" using newBitset_capacity [of 70] by linarith
  then show ?thesis using bitset_operations [OF refl, of 65 "newBitset 70"] by auto
qed

text \<open>
  \<^verbatim>\<open>popcnt\<close> returns the number of elements of the set, as a 64-bit integer.
\<close>

theorem bitset_popcnt_counts: "bitset_popcnt b = of_nat (card (bits_of b))"
  by (simp add: bitset_popcnt_def fold_OnesCount card_bits_of)

section \<open>The visualization\<close>

text \<open>C8.
  The data that \<^verbatim>\<open>CheckOperationsVerbose\<close> returns can be visualized: for any such data, and provided
  the model can describe the operations, \<^verbatim>\<open>computeVisualizationData\<close> does not panic (in particular the
  model accepts every step of every partial linearization again), draws every operation with its
  client, times and description, lists the partial linearizations longest first, and points from
  each operation to a longest partial linearization that contains it.
\<close>

theorem visualization_safe:
  assumes "runtime_ok rt" "sorts_by_length srt"
    and "call_Partition (fillDefault (rt_fmt rt) model) ops = Inr parts" "partitions_ok model parts"
    and "\<forall>p \<in> set parts. describe_safe (fillDefault (rt_fmt rt) model) (makeEntries (rt_sort rt) p)"
    and "CheckOperationsVerbose rt model ops timeout sched = Some (Inr (res, info))"
  shows "\<exists>data info'. computeVisualizationData (rt_fmt rt) srt model info = Inr (data, info') \<and>
    list_all2 (\<lambda>p v. viz_ok (fillDefault (rt_fmt rt) model) (li_history info ! p)
       (srt (li_partialLinearizations info ! p)) v) [0..<length parts] data"
proof -
  let ?m = "fillDefault (rt_fmt rt) model" and ?h = "map (makeEntries (rt_sort rt)) parts"
  have info: "info_ok ?m ?h res info"
    using checkOperations_answers [OF assms(1,3,4)] assms(6) by (fastforce simp: CheckOperationsVerbose_def)
  have job: "job_ok ?m ?h" by (rule makeEntries_job [OF assms(1,4)])
  have "viz_ready ?m info"
    using info job assms(5) by (auto simp: viz_ready_def info_ok_def job_ok_def)
  from computeVisualizationData_returns [OF this assms(2)] info show ?thesis
    by (auto simp: info_ok_def)
qed

lemma demo_describe_safe: "describe_safe demo_model (makeEntries (sort_key entry_time) (take 2 demo_ops))"
proof -
  have "op_ids (makeEntries (sort_key entry_time) (take 2 demo_ops)) = int ` {..<2}"
    using makeEntries_op_ids [OF sort_key_sorts_by_time demo_take_ok(2)] by (simp add: demo_ops_def numeral_2_eq_2)
  moreover have "k < 2 \<Longrightarrow> \<exists>d. call_DescribeOperation demo_model
      (call_value (makeEntries (sort_key entry_time) (take 2 demo_ops)) (int k))
      (ret_value (makeEntries (sort_key entry_time) (take 2 demo_ops)) (int k)) = Inr d" for k
    using makeEntries_values [OF sort_key_sorts_by_time demo_take_ok(2), of k]
    by (auto simp: less_2_cases_iff demo_op_defs call_DescribeOperation_def demo_model_def kv_DescribeOperation_def)
  ultimately show ?thesis by (auto simp: describe_safe_def)
qed

theorem visualization_safe_witness:
  "\<exists>info data info'.
     CheckOperationsVerbose demo_rt KvModel (take 2 demo_ops) 0 (replicate 5 (Work 0) @ [Receive, Finish]) = Some (Inr (Ok, info)) \<and>
     computeVisualizationData (rt_fmt demo_rt) (sort_key (\<lambda>p. - int (length p))) KvModel info = Inr (data, info') \<and>
     length data = 1"
proof -
  let ?sched = "replicate 5 (Work 0) @ [Receive, Finish]"
  have "map_option (map_sum id fst) (CheckOperationsVerbose demo_rt KvModel (take 2 demo_ops) 0 ?sched) = Some (Inr Ok)"
    by code_simp
  from result_fstD [OF this] obtain info where
    info: "CheckOperationsVerbose demo_rt KvModel (take 2 demo_ops) 0 ?sched = Some (Inr (Ok, info))" ..
  have parts: "kv_Partition (take 2 demo_ops) = Inr [take 2 demo_ops]" by code_simp
  then have p: "call_Partition (fillDefault (rt_fmt demo_rt) KvModel) (take 2 demo_ops) = Inr [take 2 demo_ops]"
    by (simp add: call_Partition_def)
  have ok: "partitions_ok KvModel [take 2 demo_ops]"
    using demo_take_ok kv_ops_safe by (simp add: partitions_ok_def)
  have d: "\<forall>p \<in> set [take 2 demo_ops]. describe_safe (fillDefault (rt_fmt demo_rt) KvModel) (makeEntries (rt_sort demo_rt) p)"
    using demo_describe_safe by (simp add: demo_model_def demo_rt_def)
  from visualization_safe [OF demo_runtime demo_sorts_by_length p ok d info] info show ?thesis
    by (auto simp: list_all2_conv_all_nth)
qed

end
