(* ===== verification/Labrpc.thy ===== *)
theory Labrpc
  imports Go_Prelude
begin

text \<open>
  \<^verbatim>\<open>labrpc/labrpc.go\<close>: the simulated network of the labs.  A \<open>network\<close> is the \<^verbatim>\<open>Network\<close> object with
  the servers it points to; names of ends and servers have a type \<open>'n\<close>, and a map read at a missing
  key gives the zero value, as in Go.  Servers have identity, because \<^verbatim>\<open>isServerDead\<close> compares
  pointers: they live at addresses of a store.  A service's receiver also is an object of a store;
  its methods are the code under test and are part of the data.

  A call in flight is a \<open>call\<close>: the request, the phase of the goroutine that runs \<^verbatim>\<open>processReq\<close>, and
  the state of the goroutine that runs the handler.  Each action of \<open>call_step\<close> is one atomic stretch
  of that code between two points at which it waits, sleeps or takes the lock; the random numbers it
  draws are arguments of the action.

  \<^verbatim>\<open>encoding/gob\<close> is a parameter \<open>codec\<close>.  It decodes into an existing variable and leaves alone the parts of
  it that were not sent (default values, fields with lower-case names), so decoding is a function of the bytes and of
  what the variable holds; no round trip is assumed.

  \<^verbatim>\<open>Server.dispatch\<close> counts the request under the server's lock and runs the method after releasing it; here both are the one
  step \<open>Execute\<close>, so a reader of \<^verbatim>\<open>GetCount\<close> sees the request counted only when its method has returned.
\<close>

section \<open>Messages\<close>

type_synonym bytes = "8 word list"

record 'v codec =
  gob_encode :: "'v \<Rightarrow> bytes option"
  gob_decode :: "bytes \<Rightarrow> 'v \<Rightarrow> 'v option"

text \<open>
  \<open>gob_transfer c v t\<close>: what a variable that holds \<open>t\<close> holds after the value \<open>v\<close> was encoded and decoded into it; \<open>None\<close> if
  one of the two fails.
\<close>

definition gob_transfer :: "'v codec \<Rightarrow> 'v \<Rightarrow> 'v \<Rightarrow> 'v option" where
  "gob_transfer c v t = Option.bind (gob_encode c v) (\<lambda>b. gob_decode c b t)"

lemma gob_transfer_some:
  "gob_transfer c v t = Some w \<longleftrightarrow> (\<exists>b. gob_encode c v = Some b \<and> gob_decode c b t = Some w)"
  by (auto simp: gob_transfer_def bind_eq_Some_conv)

text \<open>A zero value, of which nothing needs to be sent, leaves a zero variable as it is.\<close>

definition gob_keeps_zero :: "'v codec \<Rightarrow> 'v \<Rightarrow> bool" where
  "gob_keeps_zero c zero \<longleftrightarrow> gob_transfer c zero zero = Some zero"

record ('n, 'v) reqMsg =
  rq_endname :: 'n
  rq_svcMeth :: string
  rq_zero :: 'v
  rq_args :: bytes

record replyMsg =
  rp_ok :: bool
  rp_reply :: bytes

definition failure :: replyMsg where
  "failure = \<lparr>rp_ok = False, rp_reply = []\<rparr>"

section \<open>Services\<close>

text \<open>
  What reflection says of a method of the receiver's type: its name, its package path (empty for an
  exported method), the number of inputs, whether the third is a pointer, the number of outputs; and
  the method itself, which takes the arguments and the receiver's state and gives the contents of
  the reply and the new state.
\<close>

record ('v, 'r) rpc_method =
  mt_Name :: string
  mt_PkgPath :: string
  mt_NumIn :: nat
  mt_In2_Ptr :: bool
  mt_NumOut :: nat
  mt_Func :: "'r \<Rightarrow> 'v \<Rightarrow> ('v \<times> 'r) result"

record ('v, 'r) Service =
  svc_name :: string
  svc_rcvr :: nat
  svc_methods :: "string \<rightharpoonup> ('v, 'r) rpc_method"

fun MakeService_loop ::
    "('v, 'r) rpc_method list \<Rightarrow> (string \<rightharpoonup> ('v, 'r) rpc_method) \<Rightarrow> (string \<rightharpoonup> ('v, 'r) rpc_method)" where
  "MakeService_loop [] methods = methods"
| "MakeService_loop (m # ms) methods =
     (if mt_PkgPath m \<noteq> [] \<or> mt_NumIn m \<noteq> 3 \<or> \<not> mt_In2_Ptr m \<or> mt_NumOut m \<noteq> 0
      then MakeService_loop ms methods
      else MakeService_loop ms (methods(mt_Name m \<mapsto> m)))"

definition MakeService :: "string \<Rightarrow> nat \<Rightarrow> ('v, 'r) rpc_method list \<Rightarrow> ('v, 'r) Service" where
  "MakeService typeName rcvr ms =
     \<lparr>svc_name = typeName, svc_rcvr = rcvr, svc_methods = MakeService_loop ms Map.empty\<rparr>"

record ('v, 'r) Server =
  sv_services :: "string \<rightharpoonup> ('v, 'r) Service"
  sv_count :: nat

definition MakeServer :: "('v, 'r) Server" where
  "MakeServer = \<lparr>sv_services = Map.empty, sv_count = 0\<rparr>"

definition AddService :: "('v, 'r) Server \<Rightarrow> ('v, 'r) Service \<Rightarrow> ('v, 'r) Server" where
  "AddService rs svc = rs\<lparr>sv_services := (sv_services rs)(svc_name svc \<mapsto> svc)\<rparr>"

definition Server_GetCount :: "('v, 'r) Server \<Rightarrow> nat" where
  "Server_GetCount rs = sv_count rs"

section \<open>Dispatch\<close>

text \<open>\<^verbatim>\<open>strings.LastIndex(s, ".")\<close>, and the two slices around it.\<close>

fun last_index_from :: "char \<Rightarrow> string \<Rightarrow> int \<Rightarrow> int \<Rightarrow> int" where
  "last_index_from c [] i found = found"
| "last_index_from c (x # xs) i found = last_index_from c xs (i + 1) (if x = c then i else found)"

definition last_index :: "char \<Rightarrow> string \<Rightarrow> int" where
  "last_index c s = last_index_from c s 0 (-1)"

definition split_svcMeth :: "string \<Rightarrow> (string \<times> string) result" where
  "split_svcMeth s =
     (let dot = last_index (CHR ''.'') s in
      if dot < 0 then Inl SliceBounds else Inr (take (nat dot) s, drop (nat (dot + 1)) s))"

text \<open>The arguments are decoded into a zero value; an error of the decoder is ignored.\<close>

definition Service_dispatch ::
    "'v codec \<Rightarrow> (nat \<Rightarrow> 'r) \<Rightarrow> ('v, 'r) Service \<Rightarrow> string \<Rightarrow> ('n, 'v) reqMsg \<Rightarrow> (replyMsg \<times> (nat \<Rightarrow> 'r)) result" where
  "Service_dispatch c objs svc methname req =
     (case svc_methods svc methname of
        Some method \<Rightarrow>
          (let args = (case gob_decode c (rq_args req) (rq_zero req) of Some v \<Rightarrow> v | None \<Rightarrow> rq_zero req) in
           bindE (mt_Func method (objs (svc_rcvr svc)) args) (\<lambda>(replyv, rcvr).
           Inr (\<lparr>rp_ok = True, rp_reply = (case gob_encode c replyv of Some b \<Rightarrow> b | None \<Rightarrow> [])\<rparr>,
                objs(svc_rcvr svc := rcvr))))
      | None \<Rightarrow> Inl (Fatal ''labrpc.Service.dispatch(): unknown method''))"

definition Server_dispatch ::
    "'v codec \<Rightarrow> (nat \<Rightarrow> 'r) \<Rightarrow> ('v, 'r) Server \<Rightarrow> ('n, 'v) reqMsg
       \<Rightarrow> (replyMsg \<times> ('v, 'r) Server \<times> (nat \<Rightarrow> 'r)) result" where
  "Server_dispatch c objs rs req =
     (let rs = rs\<lparr>sv_count := sv_count rs + 1\<rparr> in
      bindE (split_svcMeth (rq_svcMeth req)) (\<lambda>(serviceName, methodName).
      case sv_services rs serviceName of
        Some service \<Rightarrow>
          bindE (Service_dispatch c objs service methodName req) (\<lambda>(reply, objs). Inr (reply, rs, objs))
      | None \<Rightarrow> Inl (Fatal ''labrpc.Server.dispatch(): unknown service'')))"

section \<open>The network\<close>

record ('n, 'v, 'r) network =
  nw_reliable :: bool
  nw_longDelays :: bool
  nw_longReordering :: bool
  nw_ends :: "'n set"
  nw_enabled :: "'n \<Rightarrow> bool"
  nw_servers :: "'n \<Rightarrow> nat option"
  nw_connections :: "'n \<Rightarrow> 'n option"
  nw_done :: bool
  nw_count :: "32 word"
  nw_bytes :: "64 word"
  nw_store :: "nat \<Rightarrow> ('v, 'r) Server"
  nw_objs :: "nat \<Rightarrow> 'r"

definition MakeNetwork :: "(nat \<Rightarrow> ('v, 'r) Server) \<Rightarrow> (nat \<Rightarrow> 'r) \<Rightarrow> ('n, 'v, 'r) network" where
  "MakeNetwork store objs =
     \<lparr>nw_reliable = True, nw_longDelays = False, nw_longReordering = False, nw_ends = {},
      nw_enabled = (\<lambda>_. False), nw_servers = (\<lambda>_. None), nw_connections = (\<lambda>_. None), nw_done = False,
      nw_count = 0, nw_bytes = 0, nw_store = store, nw_objs = objs\<rparr>"

definition Cleanup :: "('n, 'v, 'r) network \<Rightarrow> ('n, 'v, 'r) network result" where
  "Cleanup rn =
     (if nw_done rn then Inl (ExplicitPanic ''close of closed channel'') else Inr (rn\<lparr>nw_done := True\<rparr>))"

definition Reliable :: "bool \<Rightarrow> ('n, 'v, 'r) network \<Rightarrow> ('n, 'v, 'r) network" where
  "Reliable yes rn = rn\<lparr>nw_reliable := yes\<rparr>"

definition LongReordering :: "bool \<Rightarrow> ('n, 'v, 'r) network \<Rightarrow> ('n, 'v, 'r) network" where
  "LongReordering yes rn = rn\<lparr>nw_longReordering := yes\<rparr>"

definition LongDelays :: "bool \<Rightarrow> ('n, 'v, 'r) network \<Rightarrow> ('n, 'v, 'r) network" where
  "LongDelays yes rn = rn\<lparr>nw_longDelays := yes\<rparr>"

definition readEndnameInfo ::
    "('n, 'v, 'r) network \<Rightarrow> 'n \<Rightarrow> bool \<times> 'n option \<times> nat option \<times> bool \<times> bool" where
  "readEndnameInfo rn endname =
     (let enabled = nw_enabled rn endname;
          servername = nw_connections rn endname;
          server = (case servername of None \<Rightarrow> None | Some s \<Rightarrow> nw_servers rn s)
      in (enabled, servername, server, nw_reliable rn, nw_longReordering rn))"

definition isServerDead :: "('n, 'v, 'r) network \<Rightarrow> 'n \<Rightarrow> 'n \<Rightarrow> nat \<Rightarrow> bool" where
  "isServerDead rn endname servername server \<longleftrightarrow>
     nw_enabled rn endname = False \<or> nw_servers rn servername \<noteq> Some server"

definition MakeEnd :: "'n \<Rightarrow> ('n, 'v, 'r) network \<Rightarrow> ('n, 'v, 'r) network result" where
  "MakeEnd endname rn =
     (if endname \<in> nw_ends rn then Inl (Fatal ''MakeEnd: already exists'')
      else Inr (rn\<lparr>nw_ends := insert endname (nw_ends rn),
                   nw_enabled := (nw_enabled rn)(endname := False),
                   nw_connections := (nw_connections rn)(endname := None)\<rparr>))"

definition AddServer :: "'n \<Rightarrow> nat \<Rightarrow> ('n, 'v, 'r) network \<Rightarrow> ('n, 'v, 'r) network" where
  "AddServer servername rs rn = rn\<lparr>nw_servers := (nw_servers rn)(servername := Some rs)\<rparr>"

definition DeleteServer :: "'n \<Rightarrow> ('n, 'v, 'r) network \<Rightarrow> ('n, 'v, 'r) network" where
  "DeleteServer servername rn = rn\<lparr>nw_servers := (nw_servers rn)(servername := None)\<rparr>"

definition Connect :: "'n \<Rightarrow> 'n \<Rightarrow> ('n, 'v, 'r) network \<Rightarrow> ('n, 'v, 'r) network" where
  "Connect endname servername rn =
     rn\<lparr>nw_connections := (nw_connections rn)(endname := Some servername)\<rparr>"

definition Enable :: "'n \<Rightarrow> bool \<Rightarrow> ('n, 'v, 'r) network \<Rightarrow> ('n, 'v, 'r) network" where
  "Enable endname enabled rn = rn\<lparr>nw_enabled := (nw_enabled rn)(endname := enabled)\<rparr>"

text \<open>A \<^verbatim>\<open>nil\<close> server panics in \<^verbatim>\<open>GetCount\<close>, which locks its mutex.\<close>

definition Network_GetCount :: "('n, 'v, 'r) network \<Rightarrow> 'n \<Rightarrow> nat result" where
  "Network_GetCount rn servername =
     (case nw_servers rn servername of
        None \<Rightarrow> Inl NilDereference
      | Some a \<Rightarrow> Inr (Server_GetCount (nw_store rn a)))"

definition GetTotalCount :: "('n, 'v, 'r) network \<Rightarrow> int" where
  "GetTotalCount rn = sint (nw_count rn)"

definition GetTotalBytes :: "('n, 'v, 'r) network \<Rightarrow> int" where
  "GetTotalBytes rn = sint (nw_bytes rn)"

definition add_bytes :: "bytes \<Rightarrow> ('n, 'v, 'r) network \<Rightarrow> ('n, 'v, 'r) network" where
  "add_bytes b rn = rn\<lparr>nw_bytes := nw_bytes rn + of_nat (length b)\<rparr>"

section \<open>A call in flight\<close>

text \<open>What \<^verbatim>\<open>processReq\<close> read at its start: the server's name and address and two flags.\<close>

record 'n link =
  ln_name :: 'n
  ln_server :: nat
  ln_reliable :: bool
  ln_longReordering :: bool

datatype 'n phase =
    Arrived
  | Linked "'n link"
  | Awaiting "'n link"
  | Deciding "'n link" bool replyMsg
  | Postponed replyMsg
  | Replied replyMsg

datatype handler = Idle | Running nat | Finished replyMsg

record ('n, 'v) call =
  cl_req :: "('n, 'v) reqMsg"
  cl_phase :: "'n phase"
  cl_handler :: handler

text \<open>
  \<^verbatim>\<open>ClientEnd.Call\<close> up to the send, and the network's goroutine that takes the request.  Once the
  network is destroyed both have two cases to select from, at random: \<open>late\<close> says whether the goroutine takes the request all
  the same; otherwise the call fails.  \<open>None\<close> in the result means that \<^verbatim>\<open>Call\<close> returned false.
\<close>

definition Call_send ::
    "bool \<Rightarrow> 'v codec \<Rightarrow> 'n \<Rightarrow> string \<Rightarrow> 'v \<Rightarrow> 'v \<Rightarrow> ('n, 'v, 'r) network
       \<Rightarrow> (('n, 'v) call option \<times> ('n, 'v, 'r) network) result" where
  "Call_send late c endname svcMeth zero args rn =
     (case gob_encode c args of
        None \<Rightarrow> Inl (ExplicitPanic ''encode'')
      | Some b \<Rightarrow>
          if nw_done rn \<and> \<not> late then Inr (None, rn)
          else
            Inr (Some \<lparr>cl_req = \<lparr>rq_endname = endname, rq_svcMeth = svcMeth, rq_zero = zero, rq_args = b\<rparr>,
                       cl_phase = Arrived, cl_handler = Idle\<rparr>,
                 add_bytes b (rn\<lparr>nw_count := nw_count rn + 1\<rparr>)))"

text \<open>
  \<^verbatim>\<open>ClientEnd.Call\<close> after the receive: the value it returns, and what the caller's variable \<open>reply\<close> holds then.
\<close>

definition Call_finish :: "'v codec \<Rightarrow> replyMsg \<Rightarrow> 'v \<Rightarrow> (bool \<times> 'v) result" where
  "Call_finish c rep reply =
     (if rp_ok rep then
        (case gob_decode c (rp_reply rep) reply of
           None \<Rightarrow> Inl (Fatal ''ClientEnd.Call(): decode reply'')
         | Some v \<Rightarrow> Inr (True, v))
      else Inr (False, reply))"

text \<open>
  The steps of \<^verbatim>\<open>processReq\<close>.  \<open>ReadInfo\<close>: look up the end; \<open>Deliver r\<close>: the decision to drop the
  request, with the random number drawn; \<open>Execute\<close>: the handler's goroutine; \<open>TakeReply\<close> and \<open>Poll\<close>:
  the two cases of the select; \<open>Decide r1 r2\<close>: the final check with its random numbers; \<open>Send\<close>: a
  reply that was scheduled for later.
\<close>

datatype call_action = ReadInfo | Deliver nat | Execute | TakeReply | Poll | Decide nat nat | Send

definition decide ::
    "('n, 'v, 'r) network \<Rightarrow> ('n, 'v) reqMsg \<Rightarrow> 'n link \<Rightarrow> bool \<Rightarrow> replyMsg \<Rightarrow> nat \<Rightarrow> nat
       \<Rightarrow> 'n phase \<times> ('n, 'v, 'r) network" where
  "decide rn req l replyOK reply r1 r2 =
     (let serverDead = isServerDead rn (rq_endname req) (ln_name l) (ln_server l) in
      if replyOK = False \<or> serverDead = True then (Replied failure, rn)
      else if ln_reliable l = False \<and> r1 mod 1000 < 100 then (Replied failure, rn)
      else if ln_longReordering l = True \<and> r2 < 600 then (Postponed reply, rn)
      else (Replied reply, add_bytes (rp_reply reply) rn))"

definition run_handler ::
    "'v codec \<Rightarrow> ('n, 'v, 'r) network \<Rightarrow> ('n, 'v) call \<Rightarrow> nat \<Rightarrow> (('n, 'v) call \<times> ('n, 'v, 'r) network) result" where
  "run_handler c rn k server =
     bindE (Server_dispatch c (nw_objs rn) (nw_store rn server) (cl_req k)) (\<lambda>(r, rs, objs).
       Inr (k\<lparr>cl_handler := Finished r\<rparr>,
            rn\<lparr>nw_store := (nw_store rn)(server := rs), nw_objs := objs\<rparr>))"

definition call_step ::
    "'v codec \<Rightarrow> call_action \<Rightarrow> ('n, 'v) call \<Rightarrow> ('n, 'v, 'r) network
       \<Rightarrow> (('n, 'v) call \<times> ('n, 'v, 'r) network) result option" where
  "call_step c a k rn =
     (case a of
        Execute \<Rightarrow> (case cl_handler k of Running s \<Rightarrow> Some (run_handler c rn k s) | _ \<Rightarrow> None)
      | _ \<Rightarrow>
     (case (cl_phase k, a) of
        (Arrived, ReadInfo) \<Rightarrow>
          (case readEndnameInfo rn (rq_endname (cl_req k)) of
             (True, Some sn, Some s, rel, lo) \<Rightarrow>
               Some (Inr (k\<lparr>cl_phase := Linked \<lparr>ln_name = sn, ln_server = s, ln_reliable = rel,
                              ln_longReordering = lo\<rparr>\<rparr>, rn))
           | _ \<Rightarrow> Some (Inr (k\<lparr>cl_phase := Postponed failure\<rparr>, rn)))
      | (Linked l, Deliver r) \<Rightarrow>
          (if ln_reliable l = False \<and> r mod 1000 < 100
           then Some (Inr (k\<lparr>cl_phase := Replied failure\<rparr>, rn))
           else Some (Inr (k\<lparr>cl_phase := Awaiting l, cl_handler := Running (ln_server l)\<rparr>, rn)))
      | (Awaiting l, TakeReply) \<Rightarrow>
          (case cl_handler k of
             Finished r \<Rightarrow> Some (Inr (k\<lparr>cl_phase := Deciding l True r\<rparr>, rn))
           | _ \<Rightarrow> None)
      | (Awaiting l, Poll) \<Rightarrow>
          (if isServerDead rn (rq_endname (cl_req k)) (ln_name l) (ln_server l)
           then Some (Inr (k\<lparr>cl_phase := Deciding l False failure\<rparr>, rn))
           else Some (Inr (k, rn)))
      | (Deciding l replyOK reply, Decide r1 r2) \<Rightarrow>
          (case decide rn (cl_req k) l replyOK reply r1 r2 of
             (p, rn) \<Rightarrow> Some (Inr (k\<lparr>cl_phase := p\<rparr>, rn)))
      | (Postponed reply, Send) \<Rightarrow>
          Some (Inr (k\<lparr>cl_phase := Replied reply\<rparr>, if rp_ok reply then add_bytes (rp_reply reply) rn else rn))
      | _ \<Rightarrow> None))"

section \<open>Traces of a call\<close>

text \<open>
  The actions of one call, oldest first, while everything else (other calls, the methods of the
  network) may change the network in any way in between.
\<close>

inductive call_trace ::
    "'v codec \<Rightarrow> ('n, 'v) call \<Rightarrow> call_action list \<Rightarrow> ('n, 'v) call \<Rightarrow> ('n, 'v, 'r) network \<Rightarrow> bool"
  for c k0 where
  start: "call_trace c k0 [] k0 rn"
| other: "call_trace c k0 as k rn \<Longrightarrow> call_trace c k0 as k rn'"
| own: "call_trace c k0 as k rn \<Longrightarrow> call_step c a k rn = Some (Inr (k', rn')) \<Longrightarrow> call_trace c k0 (as @ [a]) k' rn'"

definition fresh_call :: "('n, 'v) call \<Rightarrow> bool" where
  "fresh_call k \<longleftrightarrow> cl_phase k = Arrived \<and> cl_handler k = Idle"

text \<open>
  The invariant: a handler exists only after delivery, it has run once exactly if it has finished, and a
  positive reply is the one it gave.
\<close>

fun phase_ok :: "'n phase \<Rightarrow> handler \<Rightarrow> bool" where
  "phase_ok Arrived h \<longleftrightarrow> h = Idle"
| "phase_ok (Linked l) h \<longleftrightarrow> h = Idle"
| "phase_ok (Awaiting l) h \<longleftrightarrow> h = Running (ln_server l) \<or> (\<exists>r. h = Finished r)"
| "phase_ok (Deciding l replyOK r) h \<longleftrightarrow> (if replyOK then h = Finished r else r = failure)"
| "phase_ok (Postponed r) h \<longleftrightarrow> r = failure \<or> h = Finished r"
| "phase_ok (Replied r) h \<longleftrightarrow> r = failure \<or> h = Finished r"

definition runs :: "call_action list \<Rightarrow> nat" where
  "runs as = count_list as Execute"

definition call_inv :: "call_action list \<Rightarrow> ('n, 'v) call \<Rightarrow> bool" where
  "call_inv as k \<longleftrightarrow> phase_ok (cl_phase k) (cl_handler k) \<and>
     runs as = (case cl_handler k of Finished _ \<Rightarrow> 1 | _ \<Rightarrow> 0)"

lemma runs_snoc [simp]: "runs (as @ [a]) = runs as + (if a = Execute then 1 else 0)"
  by (simp add: runs_def)

lemma run_handler_Inr:
  "run_handler c rn k s = Inr (k', rn') \<Longrightarrow> \<exists>r. k' = k\<lparr>cl_handler := Finished r\<rparr>"
  by (auto simp: run_handler_def elim!: bindE_InrE)

lemma call_step_inv:
  assumes "call_inv as k" "call_step c a k rn = Some (Inr (k', rn'))"
  shows "call_inv (as @ [a]) k'"
proof (cases "a = Execute")
  case True
  then obtain s where s: "cl_handler k = Running s" "run_handler c rn k s = Inr (k', rn')"
    using assms(2) by (auto simp: call_step_def split: handler.splits)
  then obtain r where "k' = k\<lparr>cl_handler := Finished r\<rparr>" using run_handler_Inr by blast
  then show ?thesis using assms(1) s(1) True
    by (cases "cl_phase k") (auto simp: call_inv_def split: if_splits)
next
  case False
  then show ?thesis using assms
    by (cases "cl_phase k")
      (auto simp: call_step_def call_inv_def decide_def Let_def split: call_action.splits handler.splits option.splits
        if_splits prod.splits bool.splits)
qed

lemma call_trace_inv: "call_trace c k0 as k rn \<Longrightarrow> fresh_call k0 \<Longrightarrow> call_inv as k"
proof (induction rule: call_trace.induct)
  case (start rn)
  then show ?case by (simp add: call_inv_def fresh_call_def runs_def)
qed (auto intro: call_step_inv)

lemma call_step_req: "call_step c a k rn = Some (Inr (k', rn')) \<Longrightarrow> cl_req k' = cl_req k"
proof (cases "a = Execute")
  case True
  moreover assume "call_step c a k rn = Some (Inr (k', rn'))"
  ultimately show ?thesis by (auto simp: call_step_def split: handler.splits dest!: run_handler_Inr)
next
  case False
  moreover assume "call_step c a k rn = Some (Inr (k', rn'))"
  ultimately show ?thesis
    by (auto simp: call_step_def decide_def Let_def split: call_action.splits phase.splits handler.splits option.splits
        if_splits prod.splits bool.splits)
qed

text \<open>Own steps of a call with nothing in between.\<close>

fun call_run ::
    "'v codec \<Rightarrow> call_action list \<Rightarrow> ('n, 'v) call \<Rightarrow> ('n, 'v, 'r) network
       \<Rightarrow> (('n, 'v) call \<times> ('n, 'v, 'r) network) result option" where
  "call_run c [] k rn = Some (Inr (k, rn))"
| "call_run c (a # as) k rn =
     (case call_step c a k rn of
        None \<Rightarrow> None | Some (Inl e) \<Rightarrow> Some (Inl e) | Some (Inr (k, rn)) \<Rightarrow> call_run c as k rn)"

section \<open>Replies\<close>

text \<open>A positive reply was decided while the server was alive and the end enabled.\<close>

lemma decide_positive:
  assumes "decide rn req l replyOK reply r1 r2 = (p, rn')" "p = Replied r \<or> p = Postponed r" "rp_ok r"
  shows "replyOK \<and> r = reply \<and> nw_enabled rn (rq_endname req) \<and> nw_servers rn (ln_name l) = Some (ln_server l)"
  using assms by (auto simp: decide_def isServerDead_def failure_def Let_def split: if_splits)

lemma decide_step:
  assumes inv: "call_inv as k" and s: "call_step c (Decide r1 r2) k rn = Some (Inr (k', rn'))"
    and r: "cl_phase k' = Replied r \<or> cl_phase k' = Postponed r" "rp_ok r"
  shows "\<exists>l. cl_phase k = Deciding l True r \<and> cl_handler k = Finished r \<and>
    nw_enabled rn (rq_endname (cl_req k)) \<and> nw_servers rn (ln_name l) = Some (ln_server l)"
proof -
  obtain l replyOK reply where p: "cl_phase k = Deciding l replyOK reply"
    using s by (auto simp: call_step_def split: phase.splits)
  obtain p' where d: "decide rn (cl_req k) l replyOK reply r1 r2 = (p', rn')" "cl_phase k' = p'"
    using s by (auto simp: call_step_def p split: prod.splits)
  from decide_positive [OF d(1) _ r(2)] r(1) d(2) inv show ?thesis
    by (auto simp: p call_inv_def)
qed

text \<open>A call that was refused at the start never runs a handler.\<close>

definition refused :: "('n, 'v) call \<Rightarrow> bool" where
  "refused k \<longleftrightarrow> cl_handler k = Idle \<and> (cl_phase k = Postponed failure \<or> cl_phase k = Replied failure)"

lemma refused_step:
  assumes "refused k" "call_step c a k rn = Some (Inr (k', rn'))"
  shows "refused k' \<and> a \<noteq> Execute"
  using assms by (auto simp: refused_def call_step_def split: call_action.splits)

lemma refused_trace: "call_trace c k as k' rn \<Longrightarrow> refused k \<Longrightarrow> refused k' \<and> runs as = 0"
  by (induction rule: call_trace.induct) (auto dest: refused_step simp: runs_def)

definition reachable_server :: "('n, 'v, 'r) network \<Rightarrow> 'n \<Rightarrow> 'n \<Rightarrow> nat \<Rightarrow> bool" where
  "reachable_server rn endname sn s \<longleftrightarrow>
     nw_enabled rn endname \<and> nw_connections rn endname = Some sn \<and> nw_servers rn sn = Some s"

lemma read_unreachable:
  assumes "fresh_call k" "\<nexists>sn s. reachable_server rn (rq_endname (cl_req k)) sn s"
    and "call_step c ReadInfo k rn = Some (Inr (k', rn'))"
  shows "refused k'"
  using assms
  by (auto simp: fresh_call_def reachable_server_def call_step_def readEndnameInfo_def refused_def Let_def
      split: option.splits bool.splits)

lemma read_reachable:
  assumes "cl_phase k = Arrived" "reachable_server rn (rq_endname (cl_req k)) sn s"
  shows "call_step c ReadInfo k rn = Some (Inr (k\<lparr>cl_phase := Linked \<lparr>ln_name = sn, ln_server = s,
    ln_reliable = nw_reliable rn, ln_longReordering = nw_longReordering rn\<rparr>\<rparr>, rn))"
  using assms by (simp add: call_step_def readEndnameInfo_def reachable_server_def)

section \<open>A call over a reliable network is a local call\<close>

definition serves ::
    "('v, 'r) Server \<Rightarrow> string \<Rightarrow> ('v, 'r) Service \<Rightarrow> ('v, 'r) rpc_method \<Rightarrow> bool" where
  "serves rs svcMeth svc m \<longleftrightarrow>
     (\<exists>sn mn. split_svcMeth svcMeth = Inr (sn, mn) \<and> sv_services rs sn = Some svc \<and> svc_methods svc mn = Some m)"

lemma Server_dispatch_ok:
  assumes "serves rs (rq_svcMeth req) svc m" "gob_decode c (rq_args req) (rq_zero req) = Some args"
    and "mt_Func m (objs (svc_rcvr svc)) args = Inr (replyv, rcvr)" "gob_encode c replyv = Some b"
  shows "Server_dispatch c objs rs req =
    Inr (\<lparr>rp_ok = True, rp_reply = b\<rparr>, rs\<lparr>sv_count := sv_count rs + 1\<rparr>, objs(svc_rcvr svc := rcvr))"
  using assms by (auto simp: serves_def Server_dispatch_def Service_dispatch_def)

lemma reliable_call:
  assumes codec: "gob_transfer c args zero = Some args'" "gob_transfer c replyv reply = Some reply'"
    and net: "reachable_server rn endname sn s" "nw_reliable rn" "\<not> nw_longReordering rn" "\<not> nw_done rn"
    and srv: "serves (nw_store rn s) svcMeth svc m" "mt_Func m (nw_objs rn (svc_rcvr svc)) args' = Inr (replyv, rcvr)"
  shows "\<exists>k rn1 k' rn2 rep. Call_send late c endname svcMeth zero args rn = Inr (Some k, rn1) \<and>
    call_run c [ReadInfo, Deliver r, Execute, TakeReply, Decide r1 r2] k rn1 = Some (Inr (k', rn2)) \<and>
    cl_phase k' = Replied rep \<and> Call_finish c rep reply = Inr (True, reply') \<and>
    nw_objs rn2 = (nw_objs rn)(svc_rcvr svc := rcvr) \<and>
    sv_count (nw_store rn2 s) = sv_count (nw_store rn s) + 1"
proof -
  obtain b b' where b: "gob_encode c args = Some b" "gob_decode c b zero = Some args'"
      "gob_encode c replyv = Some b'" "gob_decode c b' reply = Some reply'"
    using codec by (auto simp: gob_transfer_some)
  let ?req = "\<lparr>rq_endname = endname, rq_svcMeth = svcMeth, rq_zero = zero, rq_args = b\<rparr>"
  let ?rn1 = "add_bytes b (rn\<lparr>nw_count := nw_count rn + 1\<rparr>)"
  let ?k = "\<lparr>cl_req = ?req, cl_phase = Arrived, cl_handler = Idle\<rparr>"
  let ?rep = "\<lparr>rp_ok = True, rp_reply = b'\<rparr>"
  have send: "Call_send late c endname svcMeth zero args rn = Inr (Some ?k, ?rn1)"
    using b(1) net(4) by (simp add: Call_send_def)
  have rd: "call_step c ReadInfo ?k ?rn1 = Some (Inr (?k\<lparr>cl_phase := Linked \<lparr>ln_name = sn, ln_server = s,
      ln_reliable = nw_reliable ?rn1, ln_longReordering = nw_longReordering ?rn1\<rparr>\<rparr>, ?rn1))"
    by (rule read_reachable) (use net in \<open>simp_all add: reachable_server_def add_bytes_def\<close>)
  have disp: "Server_dispatch c (nw_objs rn) (nw_store rn s) ?req =
      Inr (?rep, (nw_store rn s)\<lparr>sv_count := sv_count (nw_store rn s) + 1\<rparr>, (nw_objs rn)(svc_rcvr svc := rcvr))"
    by (rule Server_dispatch_ok [where svc = svc and m = m and args = args' and replyv = replyv])
      (use b srv in simp_all)
  have fin: "Call_finish c ?rep reply = Inr (True, reply')" using b(4) by (simp add: Call_finish_def)
  have "\<exists>k' rn2. call_run c [ReadInfo, Deliver r, Execute, TakeReply, Decide r1 r2] ?k ?rn1 = Some (Inr (k', rn2)) \<and>
      cl_phase k' = Replied ?rep \<and> nw_objs rn2 = (nw_objs rn)(svc_rcvr svc := rcvr) \<and>
      sv_count (nw_store rn2 s) = sv_count (nw_store rn s) + 1"
    using net by (simp add: rd) (simp add: call_step_def run_handler_def disp decide_def isServerDead_def
        reachable_server_def add_bytes_def)
  then show ?thesis using send fin by blast
qed

section \<open>Every call is answered\<close>

text \<open>
  The server whose handler the call still has to run, if any: for a new request the one its end leads to, for one that was
  looked up the one that was found, for one that was delivered the one its handler is waiting at.
\<close>

definition handler_target :: "('n, 'v, 'r) network \<Rightarrow> ('n, 'v) call \<Rightarrow> nat option" where
  "handler_target rn k =
     (case cl_phase k of
        Arrived \<Rightarrow>
          (case readEndnameInfo rn (rq_endname (cl_req k)) of
             (enabled, _, server, _, _) \<Rightarrow> if enabled then server else None)
      | Linked l \<Rightarrow> Some (ln_server l)
      | _ \<Rightarrow> (case cl_handler k of Running s \<Rightarrow> Some s | _ \<Rightarrow> None))"

text \<open>
  That server's handler does not panic: the request names one of its services and a method, and the method returns.
\<close>

definition dispatchable :: "'v codec \<Rightarrow> ('n, 'v, 'r) network \<Rightarrow> ('n, 'v) call \<Rightarrow> bool" where
  "dispatchable c rn k \<longleftrightarrow>
     (case handler_target rn k of
        None \<Rightarrow> True
      | Some s \<Rightarrow> (\<exists>x. Server_dispatch c (nw_objs rn) (nw_store rn s) (cl_req k) = Inr x))"

lemma call_run_append:
  "call_run c (as @ bs) k rn =
     (case call_run c as k rn of Some (Inr (k', rn')) \<Rightarrow> call_run c bs k' rn' | r \<Rightarrow> r)"
  by (induction as arbitrary: k rn) (auto split: option.splits sum.splits prod.splits)

definition answered :: "('n, 'v) call \<Rightarrow> bool" where
  "answered k \<longleftrightarrow> (\<exists>r. cl_phase k = Replied r)"

lemma postponed_answered: "cl_phase k = Postponed r \<Longrightarrow> \<exists>k' rn'. call_run c [Send] k rn = Some (Inr (k', rn')) \<and> answered k'"
  by (auto simp: call_step_def answered_def)

lemma deciding_answered:
  assumes "cl_phase k = Deciding l ok r"
  shows "\<exists>as k' rn'. call_run c as k rn = Some (Inr (k', rn')) \<and> answered k'"
proof -
  obtain p rn1 where d: "decide rn (cl_req k) l ok r 0 0 = (p, rn1)" by (cases "decide rn (cl_req k) l ok r 0 0")
  have st: "call_run c [Decide 0 0] k rn = Some (Inr (k\<lparr>cl_phase := p\<rparr>, rn1))"
    using assms d by (simp add: call_step_def)
  consider q where "p = Replied q" | q where "p = Postponed q"
    using d by (auto simp: decide_def Let_def split: if_splits)
  then show ?thesis
  proof cases
    case (1 q)
    then show ?thesis using st by (intro exI [of _ "[Decide 0 0]"]) (auto simp: answered_def)
  next
    case (2 q)
    then obtain k' rn' where "call_run c [Send] (k\<lparr>cl_phase := p\<rparr>) rn1 = Some (Inr (k', rn'))" "answered k'"
      using postponed_answered [of "k\<lparr>cl_phase := p\<rparr>" q c rn1] by auto
    then have "call_run c ([Decide 0 0] @ [Send]) k rn = Some (Inr (k', rn')) \<and> answered k'"
      using st unfolding call_run_append by simp
    then show ?thesis by blast
  qed
qed

text \<open>Composition: own steps to a state from which the call is answered.\<close>

lemma answered_after:
  assumes "call_run c as k rn = Some (Inr (k1, rn1))"
    and "\<exists>bs k' rn'. call_run c bs k1 rn1 = Some (Inr (k', rn')) \<and> answered k'"
  shows "\<exists>bs k' rn'. call_run c bs k rn = Some (Inr (k', rn')) \<and> answered k'"
proof -
  obtain bs k' rn' where "call_run c bs k1 rn1 = Some (Inr (k', rn'))" "answered k'" using assms(2) by blast
  then have "call_run c (as @ bs) k rn = Some (Inr (k', rn')) \<and> answered k'"
    using assms(1) by (simp add: call_run_append)
  then show ?thesis by blast
qed

lemma awaiting_answered:
  assumes "cl_phase k = Awaiting l" "cl_handler k = Running (ln_server l) \<or> (\<exists>r. cl_handler k = Finished r)"
    and "dispatchable c rn k"
  shows "\<exists>as k' rn'. call_run c as k rn = Some (Inr (k', rn')) \<and> answered k'"
proof -
  have fin: "\<exists>as k' rn'. call_run c as k rn = Some (Inr (k', rn')) \<and> answered k'"
    if "cl_phase k = Awaiting l" "cl_handler k = Finished r" for k r and rn :: "('a, 'b, 'c) network"
  proof (rule answered_after)
    show "call_run c [TakeReply] k rn = Some (Inr (k\<lparr>cl_phase := Deciding l True r\<rparr>, rn))"
      using that by (simp add: call_step_def)
  qed (rule deciding_answered, simp)
  from assms(2) show ?thesis
  proof
    assume h: "cl_handler k = Running (ln_server l)"
    obtain r rs objs where d: "Server_dispatch c (nw_objs rn) (nw_store rn (ln_server l)) (cl_req k) = Inr (r, rs, objs)"
      using assms(1,3) h by (auto simp: dispatchable_def handler_target_def)
    show ?thesis
    proof (rule answered_after)
      show "call_run c [Execute] k rn = Some (Inr (k\<lparr>cl_handler := Finished r\<rparr>,
          rn\<lparr>nw_store := (nw_store rn)(ln_server l := rs), nw_objs := objs\<rparr>))"
        using h d by (simp add: call_step_def run_handler_def)
    qed (rule fin, use assms(1) in simp_all)
  qed (use fin assms(1) in blast)
qed

lemma call_answered:
  assumes inv: "call_inv as k" and d: "dispatchable c rn k"
  shows "\<exists>as k' rn'. call_run c as k rn = Some (Inr (k', rn')) \<and> answered k'"
proof -
  have linked: "\<exists>as k' rn'. call_run c as k rn = Some (Inr (k', rn')) \<and> answered k'"
    if "cl_phase k = Linked l" "dispatchable c rn k" for k l
  proof (rule answered_after)
    show "call_run c [Deliver 100] k rn = Some (Inr (k\<lparr>cl_phase := Awaiting l, cl_handler := Running (ln_server l)\<rparr>, rn))"
      using that by (simp add: call_step_def)
  qed (rule awaiting_answered, use that in \<open>simp_all add: dispatchable_def handler_target_def\<close>)
  show ?thesis
  proof (cases "cl_phase k")
    case Arrived
    show ?thesis
    proof (cases "\<exists>sn s. reachable_server rn (rq_endname (cl_req k)) sn s")
      case True
      then obtain sn s where r: "reachable_server rn (rq_endname (cl_req k)) sn s" by blast
      then have "handler_target rn k = Some s"
        using Arrived by (simp add: handler_target_def readEndnameInfo_def reachable_server_def)
      then have "dispatchable c rn (k\<lparr>cl_phase := Linked \<lparr>ln_name = sn, ln_server = s,
          ln_reliable = nw_reliable rn, ln_longReordering = nw_longReordering rn\<rparr>\<rparr>)"
        using d by (simp add: dispatchable_def handler_target_def)
      note l = linked [OF _ this]
      show ?thesis by (rule answered_after [of _ "[ReadInfo]"], simp add: read_reachable [OF Arrived r], rule l) simp
    next
      case False
      have "call_step c ReadInfo k rn = Some (Inr (k\<lparr>cl_phase := Postponed failure\<rparr>, rn))"
        using False Arrived
        by (auto simp: call_step_def readEndnameInfo_def reachable_server_def Let_def split: option.splits bool.splits)
      then have rd: "call_run c [ReadInfo] k rn = Some (Inr (k\<lparr>cl_phase := Postponed failure\<rparr>, rn))" by simp
      have "cl_phase (k\<lparr>cl_phase := Postponed failure\<rparr>) = Postponed failure" by simp
      from postponed_answered [OF this] have "\<exists>bs k' rn'. call_run c bs (k\<lparr>cl_phase := Postponed failure\<rparr>) rn =
          Some (Inr (k', rn')) \<and> answered k'" by blast
      from answered_after [OF rd this] show ?thesis .
    qed
  next
    case (Linked l)
    then show ?thesis using linked d by blast
  next
    case (Awaiting l)
    then show ?thesis using awaiting_answered [OF Awaiting _ d] inv by (simp add: call_inv_def)
  next
    case (Deciding l ok r)
    then show ?thesis by (rule deciding_answered)
  next
    case (Postponed r)
    then show ?thesis using postponed_answered by blast
  next
    case (Replied r)
    then show ?thesis by (intro exI [of _ "[]"]) (simp add: answered_def)
  qed
qed

text \<open>An answer is final.\<close>

lemma replied_final:
  assumes "call_step c a k rn = Some (Inr (k', rn'))" "cl_phase k = Replied r"
  shows "cl_phase k' = Replied r"
  using assms by (auto simp: call_step_def split: call_action.splits handler.splits dest!: run_handler_Inr)

section \<open>Names of services and methods\<close>

lemma last_index_from_append:
  "last_index_from c (xs @ ys) i found = last_index_from c ys (i + int (length xs)) (last_index_from c xs i found)"
  by (induction xs arbitrary: i found) (auto simp: algebra_simps)

lemma last_index_from_none: "c \<notin> set xs \<Longrightarrow> last_index_from c xs i found = found"
  by (induction xs arbitrary: i) auto

lemma last_index_split: "c \<notin> set ys \<Longrightarrow> last_index c (xs @ c # ys) = int (length xs)"
  by (simp add: last_index_def last_index_from_append last_index_from_none)

lemma split_svcMeth_dot: "CHR ''.'' \<notin> set m \<Longrightarrow> split_svcMeth (s @ CHR ''.'' # m) = Inr (s, m)"
  by (simp add: split_svcMeth_def last_index_split Let_def nat_add_distrib)

lemma split_svcMeth_no_dot: "CHR ''.'' \<notin> set s \<Longrightarrow> split_svcMeth s = Inl SliceBounds"
  by (simp add: split_svcMeth_def last_index_def last_index_from_none)

text \<open>The methods that \<^verbatim>\<open>MakeService\<close> registers.\<close>

definition suitable :: "('v, 'r) rpc_method \<Rightarrow> bool" where
  "suitable m \<longleftrightarrow> mt_PkgPath m = [] \<and> mt_NumIn m = 3 \<and> mt_In2_Ptr m \<and> mt_NumOut m = 0"

lemma MakeService_loop_eq:
  "MakeService_loop ms methods = methods ++ map_of (rev (map (\<lambda>m. (mt_Name m, m)) (filter suitable ms)))"
proof (induction ms arbitrary: methods)
  case (Cons m ms)
  show ?case
    by (cases "suitable m") (auto simp: Cons suitable_def map_add_upd_left fun_eq_iff map_add_def split: option.splits)
qed simp

section \<open>The switchboard\<close>

text \<open>
  What the test configurations rely on when they cut and restore connections: an end created under a
  fresh name is disabled and unconnected, \<open>Enable\<close>, \<open>Connect\<close>, \<open>AddServer\<close> and \<open>DeleteServer\<close> set what
  they are called for and nothing else, and a call gets through exactly to the server that the end
  is connected to.
\<close>

locale switchboard =
  fixes enable :: "'n \<Rightarrow> bool \<Rightarrow> 'net \<Rightarrow> 'net"
    and connect :: "'n \<Rightarrow> 'n \<Rightarrow> 'net \<Rightarrow> 'net"
    and addServer :: "'n \<Rightarrow> nat \<Rightarrow> 'net \<Rightarrow> 'net"
    and deleteServer :: "'n \<Rightarrow> 'net \<Rightarrow> 'net"
    and up :: "'net \<Rightarrow> 'n \<Rightarrow> bool"
    and peer :: "'net \<Rightarrow> 'n \<Rightarrow> 'n option"
    and server :: "'net \<Rightarrow> 'n \<Rightarrow> nat option"
  assumes enable_laws:
      "up (enable e b net) = (up net)(e := b)" "peer (enable e b net) = peer net" "server (enable e b net) = server net"
    and connect_laws:
      "up (connect e s net) = up net" "peer (connect e s net) = (peer net)(e := Some s)"
      "server (connect e s net) = server net"
    and addServer_laws:
      "up (addServer s a net) = up net" "peer (addServer s a net) = peer net"
      "server (addServer s a net) = (server net)(s := Some a)"
    and deleteServer_laws:
      "up (deleteServer s net) = up net" "peer (deleteServer s net) = peer net"
      "server (deleteServer s net) = (server net)(s := None)"
begin

lemmas laws = enable_laws connect_laws addServer_laws deleteServer_laws

text \<open>A group of ends switched on or off one after the other.\<close>

lemma enable_all:
  "up (fold (\<lambda>e. enable e b) es net) x = (if x \<in> set es then b else up net x)"
  "peer (fold (\<lambda>e. enable e b) es net) = peer net" "server (fold (\<lambda>e. enable e b) es net) = server net"
  by (induction es arbitrary: net) (auto simp: laws)

end

interpretation sw: switchboard Enable Connect AddServer DeleteServer nw_enabled nw_connections nw_servers
  by unfold_locales (simp_all add: Enable_def Connect_def AddServer_def DeleteServer_def)

lemma MakeEnd_fresh:
  assumes "e \<notin> nw_ends rn"
  shows "\<exists>rn'. MakeEnd e rn = Inr rn' \<and> nw_ends rn' = insert e (nw_ends rn) \<and>
    nw_enabled rn' = (nw_enabled rn)(e := False) \<and> nw_connections rn' = (nw_connections rn)(e := None) \<and>
    nw_servers rn' = nw_servers rn"
  using assms by (simp add: MakeEnd_def)

end
