(* ===== verification/Labgob.thy ===== *)
theory Labgob
  imports Labrpc
begin

text \<open>
  \<^verbatim>\<open>labgob/labgob.go\<close>: a wrapper around \<^verbatim>\<open>encoding/gob\<close> that warns about field names that are not
  capitalized and about decoding into variables that are not zero.  Types are nodes of a graph,
  because Go's types may be recursive: \<open>env t\<close> describes the type with identifier \<open>t\<close>.  The package's
  global variables are a record; what is printed is the list \<open>lg_out\<close>.  Whether the first letter of
  a name is an upper-case one (\<^verbatim>\<open>unicode.IsUpper\<close>) is the parameter \<open>up\<close>.

  \<^verbatim>\<open>checkType\<close> is recursive over the graph, and stops because it marks the types it has seen; here it
  has fuel, and any amount above the number of unmarked types is enough.
\<close>

section \<open>Types, values and the package's state\<close>

datatype gkind = KStruct | KSlice | KArray | KPtr | KMap | KOther

record tdesc =
  td_kind :: gkind
  td_name :: string
  td_fields :: "(string \<times> nat) list"
  td_elem :: nat
  td_key :: nat

text \<open>
  A value as \<^verbatim>\<open>checkDefault1\<close> sees it: a struct, a pointer, a value of a basic type (with the type's
  name and whether it is the zero value), or a value of another kind.
\<close>

datatype gvalue =
    VStruct "(string \<times> gvalue) list"
  | VPtr "gvalue option"
  | VBasic string bool
  | VOther

record labgob =
  lg_errorCount :: int
  lg_checked :: "nat set"
  lg_out :: "string list"

definition labgob_init :: labgob where
  "labgob_init = \<lparr>lg_errorCount = 0, lg_checked = {}, lg_out = []\<rparr>"

section \<open>Capitalized names\<close>

definition complain :: "string \<Rightarrow> string \<Rightarrow> labgob \<Rightarrow> labgob" where
  "complain fname tname st =
     st\<lparr>lg_errorCount := lg_errorCount st + 1,
        lg_out := lg_out st @ [''labgob error: lower-case field '' @ fname @ '' of '' @ tname @
          '' in RPC or persist/snapshot will break your Raft'']\<rparr>"

fun checkType :: "nat \<Rightarrow> (string \<Rightarrow> bool) \<Rightarrow> (nat \<Rightarrow> tdesc) \<Rightarrow> nat \<Rightarrow> labgob \<Rightarrow> labgob option"
  and checkFields :: "nat \<Rightarrow> (string \<Rightarrow> bool) \<Rightarrow> (nat \<Rightarrow> tdesc) \<Rightarrow> string \<Rightarrow> (string \<times> nat) list \<Rightarrow> labgob \<Rightarrow> labgob option" where
  "checkType 0 up env t st = None"
| "checkType (Suc fuel) up env t st =
     (if t \<in> lg_checked st then Some st
      else
        (let st = st\<lparr>lg_checked := insert t (lg_checked st)\<rparr> in
         case td_kind (env t) of
           KStruct \<Rightarrow> checkFields fuel up env (td_name (env t)) (td_fields (env t)) st
         | KSlice \<Rightarrow> checkType fuel up env (td_elem (env t)) st
         | KArray \<Rightarrow> checkType fuel up env (td_elem (env t)) st
         | KPtr \<Rightarrow> checkType fuel up env (td_elem (env t)) st
         | KMap \<Rightarrow>
             (case checkType fuel up env (td_elem (env t)) st of
                None \<Rightarrow> None
              | Some st \<Rightarrow> checkType fuel up env (td_key (env t)) st)
         | KOther \<Rightarrow> Some st))"
| "checkFields fuel up env tname [] st = Some st"
| "checkFields fuel up env tname ((fname, ft) # fs) st =
     (let st = (if up fname = False then complain fname tname st else st) in
      case checkType fuel up env ft st of
        None \<Rightarrow> None
      | Some st \<Rightarrow> checkFields fuel up env tname fs st)"

section \<open>Default values\<close>

text \<open>\<^verbatim>\<open>checkDefault1\<close> for a value of a basic type.\<close>

definition check_basic :: "string \<Rightarrow> string \<Rightarrow> labgob \<Rightarrow> labgob" where
  "check_basic tname name st =
     (let st = (if lg_errorCount st < 1
                then st\<lparr>lg_out := lg_out st @ [''labgob warning: Decoding into a non-default variable/field '' @
                   (if name = [] then tname else name) @ '' may not work'']\<rparr>
                else st)
      in st\<lparr>lg_errorCount := lg_errorCount st + 1\<rparr>)"

function (sequential) checkDefault1 :: "gvalue \<Rightarrow> nat \<Rightarrow> string \<Rightarrow> labgob \<Rightarrow> labgob"
  and checkDefaultFields :: "(string \<times> gvalue) list \<Rightarrow> nat \<Rightarrow> string \<Rightarrow> labgob \<Rightarrow> labgob" where
  "checkDefault1 v depth name st =
     (if depth > 3 then st
      else
        (case v of
           VStruct fs \<Rightarrow> checkDefaultFields fs depth name st
         | VPtr None \<Rightarrow> st
         | VPtr (Some w) \<Rightarrow> checkDefault1 w (depth + 1) name st
         | VBasic tname zero \<Rightarrow> if zero = False then check_basic tname name st else st
         | VOther \<Rightarrow> st))"
| "checkDefaultFields [] depth name st = st"
| "checkDefaultFields ((fname, v) # fs) depth name st =
     (let name1 = (if name \<noteq> [] then name @ ''.'' @ fname else fname)
      in checkDefaultFields fs depth name (checkDefault1 v (depth + 1) name1 st))"
  by pat_completeness auto
termination
  by (relation "measure (\<lambda>x. case x of Inl (v, _) \<Rightarrow> 2 * size v | Inr (fs, _) \<Rightarrow> 2 * size_list (size_prod (\<lambda>_. 0) size) fs + 1)")
    auto

declare checkDefault1.simps [simp del]

definition checkDefault :: "gvalue option \<Rightarrow> labgob \<Rightarrow> labgob" where
  "checkDefault value st = (case value of None \<Rightarrow> st | Some v \<Rightarrow> checkDefault1 v 1 [] st)"

section \<open>The wrapper\<close>

text \<open>
  A typed value: the type's identifier and the value; \<open>None\<close> is the \<^verbatim>\<open>nil\<close> interface, whose type has
  no kind, so that \<^verbatim>\<open>checkValue\<close> panics on it.
\<close>

type_synonym typed = "(nat \<times> gvalue) option"

definition checkValue :: "nat \<Rightarrow> (string \<Rightarrow> bool) \<Rightarrow> (nat \<Rightarrow> tdesc) \<Rightarrow> typed \<Rightarrow> labgob \<Rightarrow> labgob result option" where
  "checkValue fuel up env value st =
     (case value of
        None \<Rightarrow> Some (Inl NilDereference)
      | Some (t, v) \<Rightarrow> map_option Inr (checkType fuel up env t st))"

text \<open>
  An encoder or decoder holds one of \<^verbatim>\<open>encoding/gob\<close>, which \<open>gob_New\<close> makes for a writer or reader.  \<^verbatim>\<open>EncodeValue\<close> of gob transmits the
  value a \<^verbatim>\<open>reflect.Value\<close> stands for, as \<^verbatim>\<open>Encode\<close> does for the value itself.
\<close>

record LabEncoder =
  enc_gob :: "typed codec"

record LabDecoder =
  dec_gob :: "typed codec"

definition NewEncoder :: "('w \<Rightarrow> typed codec) \<Rightarrow> 'w \<Rightarrow> LabEncoder" where
  "NewEncoder gob_New w = \<lparr>enc_gob = gob_New w\<rparr>"

definition NewDecoder :: "('r \<Rightarrow> typed codec) \<Rightarrow> 'r \<Rightarrow> LabDecoder" where
  "NewDecoder gob_New r = \<lparr>dec_gob = gob_New r\<rparr>"

definition LabEncoder_Encode ::
    "LabEncoder \<Rightarrow> nat \<Rightarrow> (string \<Rightarrow> bool) \<Rightarrow> (nat \<Rightarrow> tdesc) \<Rightarrow> typed \<Rightarrow> labgob
       \<Rightarrow> (bytes option \<times> labgob) result option" where
  "LabEncoder_Encode enc fuel up env e st =
     map_option (\<lambda>r. bindE r (\<lambda>st. Inr (gob_encode (enc_gob enc) e, st))) (checkValue fuel up env e st)"

definition LabEncoder_EncodeValue ::
    "LabEncoder \<Rightarrow> nat \<Rightarrow> (string \<Rightarrow> bool) \<Rightarrow> (nat \<Rightarrow> tdesc) \<Rightarrow> typed \<Rightarrow> labgob
       \<Rightarrow> (bytes option \<times> labgob) result option" where
  "LabEncoder_EncodeValue enc fuel up env value st =
     map_option (\<lambda>r. bindE r (\<lambda>st. Inr (gob_encode (enc_gob enc) value, st))) (checkValue fuel up env value st)"

text \<open>
  \<^verbatim>\<open>Decode(e)\<close> for a pointer \<open>e\<close>: the value it points to is checked before gob decodes into it.
\<close>

definition LabDecoder_Decode ::
    "LabDecoder \<Rightarrow> nat \<Rightarrow> (string \<Rightarrow> bool) \<Rightarrow> (nat \<Rightarrow> tdesc) \<Rightarrow> typed \<Rightarrow> bytes \<Rightarrow> labgob
       \<Rightarrow> (typed option \<times> labgob) result option" where
  "LabDecoder_Decode dec fuel up env e b st =
     map_option (\<lambda>r. bindE r (\<lambda>st.
         Inr (gob_decode (dec_gob dec) b e, checkDefault (map_option snd e) st)))
       (checkValue fuel up env e st)"

definition Register ::
    "nat \<Rightarrow> (string \<Rightarrow> bool) \<Rightarrow> (nat \<Rightarrow> tdesc) \<Rightarrow> typed \<Rightarrow> labgob \<Rightarrow> labgob result option" where
  "Register fuel up env value st = checkValue fuel up env value st"

text \<open>The name is for gob.\<close>

definition RegisterName ::
    "nat \<Rightarrow> (string \<Rightarrow> bool) \<Rightarrow> (nat \<Rightarrow> tdesc) \<Rightarrow> string \<Rightarrow> typed \<Rightarrow> labgob \<Rightarrow> labgob result option" where
  "RegisterName fuel up env name value st = checkValue fuel up env value st"

text \<open>
  The wrapper transfers what gob transfers, whatever warnings the checks on either side give: the target ends up with the
  encoded value decoded into what it held.
\<close>

lemma labgob_transfer:
  assumes "dec_gob dec = enc_gob enc" "LabEncoder_Encode enc fuel up env e st = Some (Inr (Some b, st1))"
    and "checkValue fuel' up env target st2 = Some (Inr st3)"
  shows "LabDecoder_Decode dec fuel' up env target b st2 = Some (Inr (gob_transfer (enc_gob enc) e target, checkDefault (map_option snd target) st3))"
proof -
  obtain z where z: "checkValue fuel up env e st = Some z" "bindE z (\<lambda>st. Inr (gob_encode (enc_gob enc) e, st)) = Inr (Some b, st1)"
    using assms(2) by (auto simp: LabEncoder_Encode_def)
  then have "gob_encode (enc_gob enc) e = Some b" by (cases z) simp_all
  then show ?thesis using assms(1,3) by (simp add: LabDecoder_Decode_def gob_transfer_def)
qed

section \<open>What checkType visits and counts\<close>

text \<open>The types a type refers to.\<close>

definition refers :: "(nat \<Rightarrow> tdesc) \<Rightarrow> nat \<Rightarrow> nat set" where
  "refers env t =
     (case td_kind (env t) of
        KStruct \<Rightarrow> snd ` set (td_fields (env t))
      | KSlice \<Rightarrow> {td_elem (env t)} | KArray \<Rightarrow> {td_elem (env t)} | KPtr \<Rightarrow> {td_elem (env t)}
      | KMap \<Rightarrow> {td_elem (env t), td_key (env t)}
      | KOther \<Rightarrow> {})"

definition type_closed :: "(nat \<Rightarrow> tdesc) \<Rightarrow> nat set \<Rightarrow> bool" where
  "type_closed env U \<longleftrightarrow> finite U \<and> (\<forall>t \<in> U. refers env t \<subseteq> U)"

definition lower_fields :: "(string \<Rightarrow> bool) \<Rightarrow> (nat \<Rightarrow> tdesc) \<Rightarrow> nat \<Rightarrow> nat" where
  "lower_fields up env t =
     (if td_kind (env t) = KStruct then length (filter (\<lambda>f. \<not> up (fst f)) (td_fields (env t))) else 0)"

definition visited :: "(string \<Rightarrow> bool) \<Rightarrow> (nat \<Rightarrow> tdesc) \<Rightarrow> nat set \<Rightarrow> nat \<Rightarrow> labgob \<Rightarrow> labgob \<Rightarrow> bool" where
  "visited up env U extra st st' \<longleftrightarrow>
     lg_checked st \<subseteq> lg_checked st' \<and> lg_checked st' \<subseteq> lg_checked st \<union> U \<and>
     lg_errorCount st' = lg_errorCount st + int extra +
       (\<Sum>t \<in> lg_checked st' - lg_checked st. int (lower_fields up env t))"

lemma visited_refl: "lg_checked st' = lg_checked st \<Longrightarrow> lg_errorCount st' = lg_errorCount st + int n \<Longrightarrow> visited up env U n st st'"
  by (simp add: visited_def)

lemma visited_trans:
  assumes "finite U" "visited up env U m st st'" "visited up env U n st' st''"
  shows "visited up env U (m + n) st st''"
proof -
  have eq: "lg_checked st'' - lg_checked st = (lg_checked st' - lg_checked st) \<union> (lg_checked st'' - lg_checked st')"
    using assms by (auto simp: visited_def)
  have fin: "finite (lg_checked st' - lg_checked st)" "finite (lg_checked st'' - lg_checked st')"
    using assms by (auto simp: visited_def intro: finite_subset [of _ U])
  have "(\<Sum>t \<in> lg_checked st'' - lg_checked st. int (lower_fields up env t)) =
      (\<Sum>t \<in> lg_checked st' - lg_checked st. int (lower_fields up env t)) +
      (\<Sum>t \<in> lg_checked st'' - lg_checked st'. int (lower_fields up env t))"
    unfolding eq by (rule sum.union_disjoint [OF fin]) auto
  then show ?thesis using assms by (auto simp: visited_def)
qed

text \<open>Marking a type: what it still has to count is what its fields contribute.\<close>

lemma visited_mark:
  assumes "finite U" "t \<in> U" "t \<notin> lg_checked st"
    and "visited up env U (lower_fields up env t) (st\<lparr>lg_checked := insert t (lg_checked st)\<rparr>) st'"
  shows "visited up env U 0 st st'"
proof -
  have t: "t \<in> lg_checked st'" using assms(4) by (auto simp: visited_def)
  have eq: "lg_checked st' - lg_checked st = insert t (lg_checked st' - insert t (lg_checked st))"
    using t assms(3) by auto
  have fin: "finite (lg_checked st' - insert t (lg_checked st))"
    using assms by (auto simp: visited_def intro: finite_subset [of _ U])
  have "(\<Sum>u \<in> lg_checked st' - lg_checked st. int (lower_fields up env u)) =
      int (lower_fields up env t) + (\<Sum>u \<in> lg_checked st' - insert t (lg_checked st). int (lower_fields up env u))"
    unfolding eq by (subst sum.insert [OF fin]) auto
  then show ?thesis using assms by (auto simp: visited_def)
qed

lemma visited_card:
  assumes "finite U" "visited up env U n st st'"
  shows "card (U - lg_checked st') \<le> card (U - lg_checked st)"
  using assms by (auto simp: visited_def intro!: card_mono)

lemma card_unmarked:
  assumes "finite U" "t \<in> U" "t \<notin> C" "card (U - C) < Suc n"
  shows "card (U - insert t C) < n"
proof -
  have "card (U - insert t C) < card (U - C)" using assms(1-3) by (intro psubset_card_mono) auto
  then show ?thesis using assms(4) by simp
qed

lemma checkType_visits:
  shows "type_closed env U \<Longrightarrow> t \<in> U \<Longrightarrow> card (U - lg_checked st) < fuel \<Longrightarrow>
      \<exists>st'. checkType fuel up env t st = Some st' \<and> visited up env U 0 st st' \<and> t \<in> lg_checked st'"
    and "type_closed env U \<Longrightarrow> snd ` set fs \<subseteq> U \<Longrightarrow> card (U - lg_checked st) < fuel \<Longrightarrow>
      \<exists>st'. checkFields fuel up env tname fs st = Some st' \<and>
        visited up env U (length (filter (\<lambda>f. \<not> up (fst f)) fs)) st st'"
proof (induction fuel up env t st and fuel up env tname fs st rule: checkType_checkFields.induct)
  case (2 fuel up env t st)
  show ?case
  proof (cases "t \<in> lg_checked st")
    case True
    then show ?thesis by (simp add: visited_refl)
  next
    case False
    let ?st = "st\<lparr>lg_checked := insert t (lg_checked st)\<rparr>"
    have fin: "finite U" and sub: "refers env t \<subseteq> U" using "2.prems"(1,2) by (auto simp: type_closed_def)
    have c: "card (U - lg_checked ?st) < fuel"
      using card_unmarked [OF fin "2.prems"(2) False "2.prems"(3)] by simp
    have ready: "\<exists>st'. (if t \<in> lg_checked st then Some st else r) = Some st' \<and> visited up env U 0 st st' \<and> t \<in> lg_checked st'"
      if "r = Some st'" "visited up env U (lower_fields up env t) ?st st'" for r st'
      using visited_mark [OF fin "2.prems"(2) False that(2)] that False by (auto simp: visited_def)
    note IH = "2.IH" [OF False refl]
    show ?thesis
    proof (cases "td_kind (env t)")
      case KStruct
      then show ?thesis using IH(1) [OF KStruct "2.prems"(1)] sub c ready False
        by (auto simp: refers_def lower_fields_def)
    next
      case KMap
      then obtain st1 where st1: "checkType fuel up env (td_elem (env t)) ?st = Some st1" "visited up env U 0 ?st st1"
        using IH(5) [OF KMap "2.prems"(1)] sub c by (auto simp: refers_def)
      have "card (U - lg_checked st1) < fuel" using visited_card [OF fin st1(2)] c by simp
      then obtain st2 where "checkType fuel up env (td_key (env t)) st1 = Some st2" "visited up env U 0 st1 st2"
        using IH(6) [OF KMap st1(1) "2.prems"(1)] sub KMap by (auto simp: refers_def)
      then show ?thesis using KMap st1 visited_trans [OF fin st1(2)] ready [of _ st2] False
        by (fastforce simp: lower_fields_def)
    next
      case KOther
      then show ?thesis
        using visited_mark [OF fin "2.prems"(2) False, of up env ?st] visited_refl [of ?st ?st 0 up env U] False
        by (simp add: lower_fields_def)
    qed (use IH "2.prems"(1) sub c ready False in \<open>auto simp: refers_def lower_fields_def\<close>)
  qed
next
  case (4 fuel up env tname fname ft fs st)
  let ?n = "if up fname then 0 else 1 :: nat"
  let ?st = "if up fname = False then complain fname tname st else st"
  have fin: "finite U" using "4.prems"(1) by (simp add: type_closed_def)
  have v0: "visited up env U ?n st ?st" by (rule visited_refl) (simp_all add: complain_def)
  have "card (U - lg_checked ?st) < fuel" using "4.prems"(3) by (simp add: complain_def)
  then obtain st1 where st1: "checkType fuel up env ft ?st = Some st1" "visited up env U 0 ?st st1"
    using "4.IH"(1) [OF refl "4.prems"(1)] "4.prems"(2) by auto
  have v1: "visited up env U ?n st st1" using visited_trans [OF fin v0 st1(2)] by simp
  have "card (U - lg_checked st1) < fuel" using visited_card [OF fin v1] "4.prems"(3) by simp
  then obtain st2 where st2: "checkFields fuel up env tname fs st1 = Some st2"
      "visited up env U (length (filter (\<lambda>f. \<not> up (fst f)) fs)) st1 st2"
    using "4.IH"(2) [OF refl st1(1) "4.prems"(1)] "4.prems"(2) by auto
  show ?case using st1(1) st2 visited_trans [OF fin v1 st2(2)] by (auto simp: Let_def)
qed (auto simp: visited_def)

text \<open>Every type that can be reached from the one checked is marked afterwards.\<close>

definition marks_closed :: "(nat \<Rightarrow> tdesc) \<Rightarrow> labgob \<Rightarrow> nat set \<Rightarrow> bool" where
  "marks_closed env st pending \<longleftrightarrow> (\<forall>t \<in> lg_checked st - pending. refers env t \<subseteq> lg_checked st)"

lemma checkType_closes:
  shows "checkType fuel up env t st = Some st' \<Longrightarrow> marks_closed env st P \<Longrightarrow>
      marks_closed env st' P \<and> t \<in> lg_checked st' \<and> lg_checked st \<subseteq> lg_checked st'"
    and "checkFields fuel up env tname fs st = Some st' \<Longrightarrow> marks_closed env st P \<Longrightarrow>
      marks_closed env st' P \<and> snd ` set fs \<subseteq> lg_checked st' \<and> lg_checked st \<subseteq> lg_checked st'"
proof (induction fuel up env t st and fuel up env tname fs st arbitrary: st' P and st' P
    rule: checkType_checkFields.induct)
  case (2 fuel up env t st)
  show ?case
  proof (cases "t \<in> lg_checked st")
    case True
    then show ?thesis using "2.prems" by simp
  next
    case False
    let ?st = "st\<lparr>lg_checked := insert t (lg_checked st)\<rparr>"
    note IH = "2.IH" [OF False refl]
    have m: "marks_closed env ?st (insert t P)" using "2.prems"(2) by (auto simp: marks_closed_def)
    have "marks_closed env st' (insert t P) \<and> insert t (lg_checked st) \<union> refers env t \<subseteq> lg_checked st'"
    proof (cases "td_kind (env t)")
      case KMap
      then obtain st1 where "checkType fuel up env (td_elem (env t)) ?st = Some st1"
          "checkType fuel up env (td_key (env t)) st1 = Some st'"
        using "2.prems"(1) False by (auto split: option.splits)
      then show ?thesis using IH(5) [OF KMap _ m] IH(6) [OF KMap] KMap by (force simp: refers_def)
    qed (use "2.prems"(1) False IH m in \<open>auto simp: refers_def dest!: IH(1) IH(2) IH(3) IH(4)\<close>)
    then show ?thesis by (auto simp: marks_closed_def)
  qed
next
  case (4 fuel up env tname fname ft fs st)
  let ?st = "if up fname = False then complain fname tname st else st"
  obtain st1 where st1: "checkType fuel up env ft ?st = Some st1" "checkFields fuel up env tname fs st1 = Some st'"
    using "4.prems"(1) by (auto simp: Let_def split: option.splits)
  have "marks_closed env ?st P" using "4.prems"(2) by (simp add: marks_closed_def complain_def)
  from "4.IH"(1) [OF refl st1(1) this] have a: "marks_closed env st1 P" "ft \<in> lg_checked st1" "lg_checked ?st \<subseteq> lg_checked st1"
    by auto
  from "4.IH"(2) [OF refl st1(1) st1(2) a(1)] a show ?case by (auto simp: complain_def split: if_splits)
qed auto

section \<open>What checkDefault counts\<close>

text \<open>The values of basic type, at most three levels deep, that are not zero.\<close>

fun bad_leaves :: "nat \<Rightarrow> gvalue \<Rightarrow> nat" where
  "bad_leaves 0 v = 0"
| "bad_leaves (Suc d) (VStruct fs) = (\<Sum>(f, v)\<leftarrow>fs. bad_leaves d v)"
| "bad_leaves (Suc d) (VPtr None) = 0"
| "bad_leaves (Suc d) (VPtr (Some w)) = bad_leaves d w"
| "bad_leaves (Suc d) (VBasic t zero) = (if zero then 0 else 1)"
| "bad_leaves (Suc d) VOther = 0"

definition default_effect :: "nat \<Rightarrow> labgob \<Rightarrow> labgob \<Rightarrow> bool" where
  "default_effect n st st' \<longleftrightarrow>
     lg_errorCount st' = lg_errorCount st + int n \<and> lg_checked st' = lg_checked st \<and>
     length (lg_out st') = length (lg_out st) + (if lg_errorCount st = 0 \<and> n > 0 then 1 else 0)"

lemma default_effect_refl: "default_effect 0 st st"
  by (simp add: default_effect_def)

lemma default_effect_trans:
  "0 \<le> lg_errorCount st \<Longrightarrow> default_effect m st st' \<Longrightarrow> default_effect n st' st'' \<Longrightarrow> default_effect (m + n) st st''"
  by (auto simp: default_effect_def)

lemma check_basic_effect: "0 \<le> lg_errorCount st \<Longrightarrow> default_effect 1 st (check_basic t name st)"
  by (auto simp: default_effect_def check_basic_def Let_def)

lemma checkDefault_effect:
  shows "0 \<le> lg_errorCount st \<Longrightarrow> default_effect (bad_leaves (4 - depth) v) st (checkDefault1 v depth name st)"
    and "0 \<le> lg_errorCount st \<Longrightarrow>
      default_effect (\<Sum>(f, v)\<leftarrow>fs. bad_leaves (3 - depth) v) st (checkDefaultFields fs depth name st)"
proof (induction v depth name st and fs depth name st rule: checkDefault1_checkDefaultFields.induct)
  case (1 v depth name st)
  note unf = checkDefault1.simps [of v depth name st]
  show ?case
  proof (cases "depth > 3")
    case True
    then show ?thesis by (subst unf) (simp add: default_effect_refl)
  next
    case False
    then have d: "4 - depth = Suc (3 - depth)" "3 - depth = 4 - Suc depth" by simp_all
    show ?thesis
    proof (cases v)
      case (VStruct fs)
      have "checkDefault1 v depth name st = checkDefaultFields fs depth name st" using False by (subst unf) (simp add: VStruct)
      then show ?thesis using "1.IH"(1) [OF False VStruct "1.prems"] by (simp add: VStruct d(1))
    next
      case (VPtr p)
      show ?thesis
      proof (cases p)
        case None
        then show ?thesis using False by (subst unf) (simp add: VPtr d(1) default_effect_refl)
      next
        case (Some w)
        have "checkDefault1 v depth name st = checkDefault1 w (depth + 1) name st" using False by (subst unf) (simp add: VPtr Some)
        moreover have "4 - depth = Suc (4 - (depth + 1))" using False by simp
        ultimately show ?thesis using "1.IH"(2) [OF False VPtr Some "1.prems"] by (simp add: VPtr Some)
      qed
    next
      case VOther
      then show ?thesis using False by (subst unf) (simp add: d(1) default_effect_refl)
    next
      case (VBasic t z)
      then show ?thesis using "1.prems" False check_basic_effect by (subst unf) (simp add: d(1) default_effect_refl)
    qed
  qed
next
  case (2 depth name st)
  then show ?case by (simp add: default_effect_refl)
next
  case (3 fname v fs depth name st)
  let ?name = "if name \<noteq> [] then name @ ''.'' @ fname else fname"
  let ?st = "checkDefault1 v (depth + 1) ?name st"
  have e: "default_effect (bad_leaves (4 - (depth + 1)) v) st ?st" using 3(1) [OF refl 3(3)] .
  then have "0 \<le> lg_errorCount ?st" using 3(3) by (simp add: default_effect_def)
  from default_effect_trans [OF 3(3) e 3(2) [OF refl this]] show ?case by (simp add: Let_def)
qed

end
