(* ===== verification/Labrpc_Network.thy ===== *)
theory Labrpc_Network
  imports Labrpc
begin

text \<open>
  A whole network of \<^verbatim>\<open>labrpc\<close>: its methods, the calls that clients send and the steps of all calls in flight, in any
  interleaving.  The state is the network and the list of all calls that were taken; \<open>sy_ran\<close> is a history of the addresses of
  the servers at which handlers have run.  The invariant relates the statistics that the tests of the laboratories read
  (\<^verbatim>\<open>GetTotalCount\<close>, \<^verbatim>\<open>GetTotalBytes\<close>, \<^verbatim>\<open>GetCount\<close>) to what has happened.
\<close>

section \<open>Events\<close>

datatype ('n, 'v, 'r) net_method =
    SetReliable bool
  | SetLongReordering bool
  | SetLongDelays bool
  | NewEnd 'n
  | NewServer 'n nat
  | DropServer 'n
  | Link 'n 'n
  | Switch 'n bool
  | Offer nat "('v, 'r) Service"
  | Close

fun run_method :: "('n, 'v, 'r) net_method \<Rightarrow> ('n, 'v, 'r) network \<Rightarrow> ('n, 'v, 'r) network result" where
  "run_method (SetReliable b) rn = Inr (Reliable b rn)"
| "run_method (SetLongReordering b) rn = Inr (LongReordering b rn)"
| "run_method (SetLongDelays b) rn = Inr (LongDelays b rn)"
| "run_method (NewEnd e) rn = MakeEnd e rn"
| "run_method (NewServer sn a) rn = Inr (AddServer sn a rn)"
| "run_method (DropServer sn) rn = Inr (DeleteServer sn rn)"
| "run_method (Link e sn) rn = Inr (Connect e sn rn)"
| "run_method (Switch e b) rn = Inr (Enable e b rn)"
| "run_method (Offer a svc) rn = Inr (rn\<lparr>nw_store := (nw_store rn)(a := AddService (nw_store rn a) svc)\<rparr>)"
| "run_method Close rn = Cleanup rn"

record ('n, 'v, 'r) system =
  sy_net :: "('n, 'v, 'r) network"
  sy_calls :: "('n, 'v) call list"
  sy_ran :: "nat list"

datatype ('n, 'v, 'r) net_event =
    Method "('n, 'v, 'r) net_method"
  | Call bool 'n string 'v 'v
  | Own nat call_action

definition ran_at :: "call_action \<Rightarrow> ('n, 'v) call \<Rightarrow> nat list" where
  "ran_at a k = (case (a, cl_handler k) of (Execute, Running s) \<Rightarrow> [s] | _ \<Rightarrow> [])"

text \<open>One event; \<open>None\<close> if it is not possible in the state.\<close>

fun net_exec :: "'v codec \<Rightarrow> ('n, 'v, 'r) net_event \<Rightarrow> ('n, 'v, 'r) system \<Rightarrow> ('n, 'v, 'r) system result option" where
  "net_exec c (Method m) st = Some (bindE (run_method m (sy_net st)) (\<lambda>rn. Inr (st\<lparr>sy_net := rn\<rparr>)))"
| "net_exec c (Call late e meth zero args) st =
     Some (bindE (Call_send late c e meth zero args (sy_net st)) (\<lambda>(k, rn).
       Inr (st\<lparr>sy_net := rn, sy_calls := sy_calls st @ (case k of None \<Rightarrow> [] | Some k \<Rightarrow> [k])\<rparr>)))"
| "net_exec c (Own i a) st =
     (if i < length (sy_calls st) then
        (let k = sy_calls st ! i in
         map_option (\<lambda>r. bindE r (\<lambda>(k', rn).
           Inr \<lparr>sy_net = rn, sy_calls = (sy_calls st)[i := k'], sy_ran = sy_ran st @ ran_at a k\<rparr>))
           (call_step c a k (sy_net st)))
      else None)"

fun net_run :: "'v codec \<Rightarrow> ('n, 'v, 'r) net_event list \<Rightarrow> ('n, 'v, 'r) system \<Rightarrow> ('n, 'v, 'r) system result option" where
  "net_run c [] st = Some (Inr st)"
| "net_run c (e # es) st =
     (case net_exec c e st of None \<Rightarrow> None | Some (Inl err) \<Rightarrow> Some (Inl err) | Some (Inr st) \<Rightarrow> net_run c es st)"

definition new_system :: "(nat \<Rightarrow> ('v, 'r) Server) \<Rightarrow> (nat \<Rightarrow> 'r) \<Rightarrow> ('n, 'v, 'r) system" where
  "new_system store objs = \<lparr>sy_net = MakeNetwork store objs, sy_calls = [], sy_ran = []\<rparr>"

section \<open>What a call has added\<close>

text \<open>The bytes of its request, and of its reply once that is on its way.\<close>

definition reply_bytes :: "('n, 'v) call \<Rightarrow> nat" where
  "reply_bytes k = (case cl_phase k of Replied r \<Rightarrow> length (rp_reply r) | _ \<Rightarrow> 0)"

definition traffic :: "('n, 'v) call \<Rightarrow> nat" where
  "traffic k = length (rq_args (cl_req k)) + reply_bytes k"

definition handled :: "('n, 'v) call \<Rightarrow> bool" where
  "handled k \<longleftrightarrow> (\<exists>r. cl_handler k = Finished r)"

text \<open>A reply that is not positive is empty; positive ones come from handlers.\<close>

definition call_ok :: "('n, 'v) call \<Rightarrow> bool" where
  "call_ok k \<longleftrightarrow> (\<exists>as. call_inv as k) \<and> (\<forall>r. cl_handler k = Finished r \<longrightarrow> rp_ok r)"

lemma dispatch_positive: "Server_dispatch c objs rs req = Inr (r, rs', objs') \<Longrightarrow> rp_ok r \<and> sv_count rs' = sv_count rs + 1"
  by (auto simp: Server_dispatch_def Service_dispatch_def Let_def split: option.splits elim!: bindE_InrE)

lemma execute_step:
  assumes "call_step c Execute k rn = Some (Inr (k', rn'))"
  shows "\<exists>s r. cl_handler k = Running s \<and> k' = k\<lparr>cl_handler := Finished r\<rparr> \<and> rp_ok r \<and> nw_count rn' = nw_count rn \<and>
    nw_bytes rn' = nw_bytes rn \<and> (\<forall>a. sv_count (nw_store rn' a) = sv_count (nw_store rn a) + count_list [s] a)"
proof -
  obtain s where s: "cl_handler k = Running s" "run_handler c rn k s = Inr (k', rn')"
    using assms by (auto simp: call_step_def split: handler.splits)
  then obtain r rs objs where d: "Server_dispatch c (nw_objs rn) (nw_store rn s) (cl_req k) = Inr (r, rs, objs)"
    "k' = k\<lparr>cl_handler := Finished r\<rparr>" "rn' = rn\<lparr>nw_store := (nw_store rn)(s := rs), nw_objs := objs\<rparr>"
    by (auto simp: run_handler_def elim!: bindE_InrE)
  then show ?thesis using s(1) dispatch_positive [OF d(1)] by auto
qed

text \<open>The other steps leave servers and number of calls alone and count the bytes of a positive reply.\<close>

lemma other_step:
  assumes "call_step c a k rn = Some (Inr (k', rn'))" "a \<noteq> Execute" "call_ok k"
  shows "nw_count rn' = nw_count rn" "nw_store rn' = nw_store rn"
    "nw_bytes rn' + of_nat (reply_bytes k) = nw_bytes rn + of_nat (reply_bytes k')" "call_ok k'"
proof -
  obtain as where inv: "call_inv as k" "\<forall>r. cl_handler k = Finished r \<longrightarrow> rp_ok r" using assms(3) by (auto simp: call_ok_def)
  note step_simps = call_step_def decide_def Let_def add_bytes_def reply_bytes_def failure_def
  show "nw_count rn' = nw_count rn" "nw_store rn' = nw_store rn"
    using assms(1,2) by (auto simp: step_simps split: call_action.splits phase.splits handler.splits option.splits if_splits prod.splits bool.splits)
  show "nw_bytes rn' + of_nat (reply_bytes k) = nw_bytes rn + of_nat (reply_bytes k')"
    using assms(1,2) inv
    by (auto simp: step_simps call_inv_def split: call_action.splits phase.splits handler.splits option.splits if_splits prod.splits bool.splits)
  have "cl_handler k' = cl_handler k \<or> (\<exists>s. cl_handler k' = Running s)"
    using assms(1,2) by (auto simp: step_simps split: call_action.splits phase.splits handler.splits option.splits if_splits prod.splits bool.splits)
  then have "\<forall>r. cl_handler k' = Finished r \<longrightarrow> rp_ok r" using inv(2) by auto
  then show "call_ok k'" using call_step_inv [OF inv(1) assms(1)] unfolding call_ok_def by blast
qed

lemma own_step:
  assumes "call_step c a k rn = Some (Inr (k', rn'))" "call_ok k"
  shows "nw_count rn' = nw_count rn" "\<And>x. sv_count (nw_store rn' x) = sv_count (nw_store rn x) + count_list (ran_at a k) x"
    "nw_bytes rn' + of_nat (traffic k) = nw_bytes rn + of_nat (traffic k')" "call_ok k'"
    "length (ran_at a k) + (if handled k then 1 else 0) = (if handled k' then 1 else 0)"
proof -
  obtain as where inv: "call_inv as k" using assms(2) by (auto simp: call_ok_def)
  note inv' = call_step_inv [OF inv assms(1)]
  have req: "cl_req k' = cl_req k" by (rule call_step_req [OF assms(1)])
  have all: "nw_count rn' = nw_count rn \<and> (\<forall>x. sv_count (nw_store rn' x) = sv_count (nw_store rn x) + count_list (ran_at a k) x) \<and>
    nw_bytes rn' + of_nat (reply_bytes k) = nw_bytes rn + of_nat (reply_bytes k') \<and> call_ok k' \<and> length (ran_at a k) = (if a = Execute then 1 else 0)"
  proof (cases "a = Execute")
    case True
    then obtain s r where e: "cl_handler k = Running s" "k' = k\<lparr>cl_handler := Finished r\<rparr>" "rp_ok r" "nw_count rn' = nw_count rn"
      "nw_bytes rn' = nw_bytes rn" "\<forall>a. sv_count (nw_store rn' a) = sv_count (nw_store rn a) + count_list [s] a"
      using execute_step assms(1) by blast
    moreover have "ran_at a k = [s]" using True e(1) by (simp add: ran_at_def)
    ultimately show ?thesis using inv' True by (auto simp: reply_bytes_def call_ok_def)
  next
    case False
    then show ?thesis using other_step [OF assms(1) False assms(2)] by (cases a) (simp_all add: ran_at_def)
  qed
  then show "nw_count rn' = nw_count rn" "\<And>x. sv_count (nw_store rn' x) = sv_count (nw_store rn x) + count_list (ran_at a k) x"
    "nw_bytes rn' + of_nat (traffic k) = nw_bytes rn + of_nat (traffic k')" "call_ok k'"
    by (simp_all add: traffic_def req algebra_simps)
  have "runs as = (if handled k then 1 else 0)" "runs (as @ [a]) = (if handled k' then 1 else 0)"
    using inv inv' by (auto simp: call_inv_def handled_def split: handler.splits)
  then show "length (ran_at a k) + (if handled k then 1 else 0) = (if handled k' then 1 else 0)" using all by (auto split: if_splits)
qed

section \<open>Accounts\<close>

definition accounts :: "('n, 'v, 'r) system \<Rightarrow> bool" where
  "accounts st \<longleftrightarrow>
     (\<forall>k \<in> set (sy_calls st). call_ok k) \<and>
     nw_count (sy_net st) = of_nat (length (sy_calls st)) \<and>
     nw_bytes (sy_net st) = of_nat (sum_list (map traffic (sy_calls st))) \<and>
     (\<forall>a. sv_count (nw_store (sy_net st) a) = count_list (sy_ran st) a) \<and>
     length (sy_ran st) = length (filter handled (sy_calls st))"

text \<open>The methods of the network do not touch the statistics.\<close>

lemma run_method_counts:
  assumes "run_method m rn = Inr rn'"
  shows "nw_count rn' = nw_count rn" "nw_bytes rn' = nw_bytes rn" "sv_count (nw_store rn' a) = sv_count (nw_store rn a)"
  using assms
  by (cases m; auto simp: Reliable_def LongReordering_def LongDelays_def MakeEnd_def AddServer_def DeleteServer_def Connect_def Enable_def
      AddService_def Cleanup_def split: if_splits)+

lemma Call_send_counts:
  assumes "Call_send late c e meth zero args rn = Inr (k, rn')"
  shows "(k = None \<and> rn' = rn) \<or>
    (\<exists>k1. k = Some k1 \<and> fresh_call k1 \<and> rn' = rn\<lparr>nw_count := nw_count rn + 1, nw_bytes := nw_bytes rn + of_nat (traffic k1)\<rparr>)"
  using assms by (auto simp: Call_send_def add_bytes_def fresh_call_def traffic_def reply_bytes_def split: option.splits if_splits)

lemma fresh_call_ok: "fresh_call k \<Longrightarrow> call_ok k \<and> \<not> handled k"
  by (auto simp: call_ok_def call_inv_def fresh_call_def handled_def runs_def intro: exI [of _ "[]"])

lemma net_exec_accounts:
  assumes "accounts st" "net_exec c e st = Some (Inr st')"
  shows "accounts st'"
proof (cases e)
  case (Method m)
  then obtain rn where "run_method m (sy_net st) = Inr rn" "st' = st\<lparr>sy_net := rn\<rparr>" using assms(2) by (auto elim!: bindE_InrE)
  then show ?thesis using assms(1) run_method_counts [of m "sy_net st" rn] by (simp add: accounts_def)
next
  case (Call late e meth zero args)
  then obtain k rn where k: "Call_send late c e meth zero args (sy_net st) = Inr (k, rn)"
    "st' = st\<lparr>sy_net := rn, sy_calls := sy_calls st @ (case k of None \<Rightarrow> [] | Some k \<Rightarrow> [k])\<rparr>"
    using assms(2) by (auto elim!: bindE_InrE)
  from Call_send_counts [OF k(1)] show ?thesis
    using assms(1) k(2) by (auto simp: accounts_def dest: fresh_call_ok)
next
  case (Own i a)
  let ?k = "sy_calls st ! i"
  obtain k' rn where i: "i < length (sy_calls st)" and s: "call_step c a ?k (sy_net st) = Some (Inr (k', rn))"
    and st': "st' = \<lparr>sy_net = rn, sy_calls = (sy_calls st)[i := k'], sy_ran = sy_ran st @ ran_at a ?k\<rparr>"
    using assms(2) Own by (auto simp: Let_def elim!: bindE_InrE split: if_splits)
  note acc = assms(1) [unfolded accounts_def]
  have ok: "call_ok ?k" using acc i by simp
  note own = own_step [OF s ok]
  have "sum_list (map traffic ((sy_calls st)[i := k'])) + traffic ?k = sum_list (map traffic (sy_calls st)) + traffic k'"
    using i member_le_sum_list [of "traffic ?k" "map traffic (sy_calls st)"] by (simp add: map_update sum_list_update)
  from arg_cong [OF this, of "of_nat :: nat \<Rightarrow> 64 word"]
  have "nw_bytes rn + of_nat (traffic ?k) = of_nat (sum_list (map traffic ((sy_calls st)[i := k']))) + of_nat (traffic ?k)" using own(3) acc by simp
  then have "nw_bytes rn = of_nat (sum_list (map traffic ((sy_calls st)[i := k'])))" by (simp only: add_right_cancel)
  moreover have "length (sy_ran st @ ran_at a ?k) = length (filter handled ((sy_calls st)[i := k']))"
    using length_filter_update [OF i, of handled k'] own(5) acc by (auto split: if_splits)
  moreover have "\<forall>k \<in> set ((sy_calls st)[i := k']). call_ok k" using acc own(4) set_update_subset_insert [of "sy_calls st" i k'] by blast
  ultimately show ?thesis using own(1,2) acc by (simp add: accounts_def st')
qed

lemma net_run_accounts: "net_run c es st = Some (Inr st') \<Longrightarrow> accounts st \<Longrightarrow> accounts st'"
  by (induction es arbitrary: st) (auto split: option.splits sum.splits dest: net_exec_accounts)

lemma new_system_accounts: "(\<And>a. sv_count (store a) = 0) \<Longrightarrow> accounts (new_system store objs)"
  by (simp add: accounts_def new_system_def MakeNetwork_def)

end
