(* ===== verification/Labrpc_Properties.thy ===== *)
theory Labrpc_Properties
  imports Labgob Labrpc_Network
begin

text \<open>
  What \<^verbatim>\<open>labrpc\<close> and \<^verbatim>\<open>labgob\<close> guarantee to the labs built on them, each theorem with an application
  to a small network: one end, one server that adds up the lengths of its arguments.
\<close>

section \<open>A small network\<close>

text \<open>Values are their own encoding; the default value \<open>[]\<close> is not transferred, and leaves the variable alone.\<close>

definition demo_codec :: "bytes codec" where
  "demo_codec = \<lparr>gob_encode = Some, gob_decode = (\<lambda>b t. Some (if b = [] then t else b))\<rparr>"

definition demo_method :: "(bytes, int) rpc_method" where
  "demo_method = \<lparr>mt_Name = ''Add'', mt_PkgPath = [], mt_NumIn = 3, mt_In2_Ptr = True, mt_NumOut = 0,
     mt_Func = (\<lambda>n args. Inr (args @ args, n + int (length args)))\<rparr>"

definition demo_helper :: "(bytes, int) rpc_method" where
  "demo_helper = demo_method\<lparr>mt_Name := ''Kill'', mt_NumIn := 1\<rparr>"

definition demo_net :: "(string, bytes, int) network" where
  "demo_net =
     (let srv = AddService MakeServer (MakeService ''Sum'' 0 [demo_helper, demo_method]);
          net = MakeNetwork (\<lambda>a. if a = 7 then srv else MakeServer) (\<lambda>_. 0) in
      case MakeEnd ''end'' net of
        Inr net \<Rightarrow> Enable ''end'' True (Connect ''end'' ''server'' (AddServer ''server'' 7 net))
      | Inl _ \<Rightarrow> net)"

definition demo_call :: "(string, bytes) call" where
  "demo_call = \<lparr>cl_req = \<lparr>rq_endname = ''end'', rq_svcMeth = ''Sum.Add'', rq_zero = [], rq_args = [1, 2]\<rparr>,
     cl_phase = Arrived, cl_handler = Idle\<rparr>"

lemma demo_fresh: "fresh_call demo_call"
  by (simp add: fresh_call_def demo_call_def)

lemma call_trace_run:
  "call_trace c k0 as k rn \<Longrightarrow> call_run c bs k rn = Some (Inr (k', rn')) \<Longrightarrow> call_trace c k0 (as @ bs) k' rn'"
proof (induction bs arbitrary: as k rn)
  case (Cons b bs)
  then obtain k1 rn1 where s: "call_step c b k rn = Some (Inr (k1, rn1))" "call_run c bs k1 rn1 = Some (Inr (k', rn'))"
    by (auto split: option.splits sum.splits prod.splits)
  from Cons.IH [OF call_trace.own [OF Cons.prems(1) s(1)] s(2)] show ?case by simp
qed simp

section \<open>Calls\<close>

text \<open>C15.
  However a call interleaves with other calls and with changes of the network, its handler runs at
  most once; if the caller gets a positive reply the handler has run exactly once and the reply is
  the one it gave; and once there is an answer it does not change.
\<close>

theorem rpc_at_most_once:
  assumes "fresh_call k0" "call_trace c k0 as k rn"
  shows "runs as \<le> 1 \<and>
    (\<forall>r. cl_phase k = Replied r \<and> rp_ok r \<longrightarrow> runs as = 1 \<and> cl_handler k = Finished r) \<and>
    (\<forall>r a k' rn'. cl_phase k = Replied r \<and> call_step c a k rn = Some (Inr (k', rn')) \<longrightarrow> cl_phase k' = Replied r)"
proof (intro conjI allI impI; (elim conjE)?)
  have inv: "call_inv as k" by (rule call_trace_inv [OF assms(2,1)])
  show "runs as \<le> 1" using inv by (simp add: call_inv_def split: handler.splits)
  fix r assume r: "cl_phase k = Replied r"
  { assume "rp_ok r"
    then show "runs as = 1" "cl_handler k = Finished r" using inv r by (auto simp: call_inv_def failure_def) }
  show "cl_phase k' = Replied r" if "call_step c a k rn = Some (Inr (k', rn'))" for a k' rn'
    by (rule replied_final [OF that r])
qed

definition demo_actions :: "call_action list" where
  "demo_actions = [ReadInfo, Deliver 3, Poll, Execute, TakeReply, Decide 0 700]"

definition demo_reply :: replyMsg where
  "demo_reply = \<lparr>rp_ok = True, rp_reply = [1, 2, 1, 2]\<rparr>"

text \<open>The phase a call is in after own steps.\<close>

definition phase_after ::
    "'v codec \<Rightarrow> call_action list \<Rightarrow> ('n, 'v) call \<Rightarrow> ('n, 'v, 'r) network \<Rightarrow> 'n phase result option" where
  "phase_after c as k rn = map_option (map_sum id (\<lambda>x. cl_phase (fst x))) (call_run c as k rn)"

lemma phase_afterD:
  assumes "phase_after c as k rn = Some (Inr p)"
  shows "\<exists>k' rn'. call_run c as k rn = Some (Inr (k', rn')) \<and> cl_phase k' = p"
proof -
  obtain r where r: "call_run c as k rn = Some r" "map_sum id (\<lambda>x. cl_phase (fst x)) r = Inr p"
    using assms by (auto simp: phase_after_def)
  then show ?thesis by (cases r) auto
qed

lemma demo_trace:
  "\<exists>k rn. call_trace demo_codec demo_call demo_actions k (rn :: (string, bytes, int) network) \<and>
     cl_phase k = Replied demo_reply"
proof -
  have "phase_after demo_codec demo_actions demo_call demo_net = Some (Inr (Replied demo_reply))" by code_simp
  then obtain k rn where "call_run demo_codec demo_actions demo_call demo_net = Some (Inr (k, rn))"
      "cl_phase k = Replied demo_reply" using phase_afterD by blast
  then show ?thesis using call_trace_run [OF call_trace.start, of demo_codec demo_actions demo_call demo_net k rn] by auto
qed

definition demo_link :: "string link" where
  "demo_link = \<lparr>ln_name = ''server'', ln_server = 7, ln_reliable = True, ln_longReordering = False\<rparr>"

theorem rpc_at_most_once_witness:
  "\<exists>k rn. cl_phase k = Replied demo_reply \<and> call_trace demo_codec demo_call demo_actions k (rn :: (string, bytes, int) network) \<and>
     runs demo_actions = 1 \<and> cl_handler k = Finished demo_reply"
proof -
  obtain k and rn :: "(string, bytes, int) network" where k: "call_trace demo_codec demo_call demo_actions k rn"
      "cl_phase k = Replied demo_reply" using demo_trace by blast
  have "rp_ok demo_reply" by (simp add: demo_reply_def)
  then have "runs demo_actions = 1" "cl_handler k = Finished demo_reply"
    using rpc_at_most_once [OF demo_fresh k(1)] k(2) by blast+
  then show ?thesis using k by blast
qed


text \<open>C16.
  A positive reply is let through only at a moment at which the caller's end is enabled and the
  server's name still belongs to the very server object the request was given to: a server that was
  deleted, or replaced by a new instance, after it got the request never answers, and neither does
  one behind a disabled end.
\<close>

theorem rpc_no_reply_from_dead_server:
  assumes "fresh_call k0" "call_trace c k0 as k rn" "call_step c (Decide r1 r2) k rn = Some (Inr (k', rn'))"
    "cl_phase k' = Replied r \<or> cl_phase k' = Postponed r" "rp_ok r"
  shows "\<exists>l. cl_phase k = Deciding l True r \<and> cl_handler k = Finished r \<and>
    nw_enabled rn (rq_endname (cl_req k)) \<and> nw_servers rn (ln_name l) = Some (ln_server l)"
  by (rule decide_step [OF call_trace_inv [OF assms(2,1)] assms(3,4,5)])

theorem rpc_no_reply_from_dead_server_witness:
  "\<exists>k k' (rn :: (string, bytes, int) network) rn'. call_trace demo_codec demo_call (butlast demo_actions) k rn \<and>
     call_step demo_codec (Decide 0 700) k rn = Some (Inr (k', rn')) \<and> cl_phase k' = Replied demo_reply \<and>
     cl_handler k = Finished demo_reply"
proof -
  have p: "phase_after demo_codec (butlast demo_actions) demo_call demo_net = Some (Inr (Deciding demo_link True demo_reply))"
    "phase_after demo_codec demo_actions demo_call demo_net = Some (Inr (Replied demo_reply))" by code_simp+
  from phase_afterD [OF p(1)] phase_afterD [OF p(2)] obtain k rn k' rn' where k: "call_run demo_codec (butlast demo_actions) demo_call demo_net = Some (Inr (k, rn))"
    and k': "call_run demo_codec demo_actions demo_call demo_net = Some (Inr (k', rn'))" "cl_phase k' = Replied demo_reply"
    by blast
  have "demo_actions = butlast demo_actions @ [Decide 0 700]" by (simp add: demo_actions_def)
  then have "call_run demo_codec [Decide 0 700] k rn = Some (Inr (k', rn'))"
    using k k'(1) call_run_append [of demo_codec "butlast demo_actions" "[Decide 0 700]" demo_call demo_net] by simp
  then have s: "call_step demo_codec (Decide 0 700) k rn = Some (Inr (k', rn'))"
    by (auto split: option.splits sum.splits prod.splits)
  have t: "call_trace demo_codec demo_call (butlast demo_actions) k rn"
    using call_trace_run [OF call_trace.start k] by simp
  show ?thesis
    using rpc_no_reply_from_dead_server [OF demo_fresh t s, of demo_reply] t s k'(2) by (auto simp: demo_reply_def)
qed

text \<open>If at the time the request is looked up the end is disabled, not connected, or connected to a name
  with no server, the handler is never run, whatever happens afterwards, and the only answer is failure.
\<close>

theorem rpc_unreachable_never_runs:
  assumes "fresh_call k" "\<nexists>sn s. reachable_server rn (rq_endname (cl_req k)) sn s"
    "call_step c ReadInfo k rn = Some (Inr (k1, rn1))" "call_trace c k1 as k' rn'"
  shows "runs as = 0 \<and> (\<forall>r. cl_phase k' = Replied r \<longrightarrow> \<not> rp_ok r)"
  using refused_trace [OF assms(4) read_unreachable [OF assms(1-3)]] by (auto simp: refused_def failure_def)

theorem rpc_unreachable_never_runs_witness:
  "\<exists>k' (rn' :: (string, bytes, int) network). cl_phase k' = Replied failure \<and>
     call_run demo_codec [ReadInfo, Send] demo_call (Enable ''end'' False demo_net) = Some (Inr (k', rn')) \<and>
     runs [Send] = 0"
proof -
  let ?net = "Enable ''end'' False demo_net"
  have p: "phase_after demo_codec [ReadInfo] demo_call ?net = Some (Inr (Postponed failure))"
    "phase_after demo_codec [ReadInfo, Send] demo_call ?net = Some (Inr (Replied failure))" by code_simp+
  from phase_afterD [OF p(1)] phase_afterD [OF p(2)] obtain k1 rn1 k' rn' where k1: "call_run demo_codec [ReadInfo] demo_call ?net = Some (Inr (k1, rn1))"
    and k': "call_run demo_codec [ReadInfo, Send] demo_call ?net = Some (Inr (k', rn'))" "cl_phase k' = Replied failure"
    by blast
  have s: "call_step demo_codec ReadInfo demo_call ?net = Some (Inr (k1, rn1))"
    using k1 by (auto split: option.splits sum.splits prod.splits)
  have "call_run demo_codec [Send] k1 rn1 = Some (Inr (k', rn'))"
    using k1 k'(1) call_run_append [of demo_codec "[ReadInfo]" "[Send]" demo_call ?net] by simp
  from call_trace_run [OF call_trace.start this] have t: "call_trace demo_codec k1 [Send] k' rn'" by simp
  have "\<nexists>sn s. reachable_server ?net (rq_endname (cl_req demo_call)) sn s"
    by (simp add: reachable_server_def Enable_def demo_call_def)
  from rpc_unreachable_never_runs [OF demo_fresh this s t] k' show ?thesis by blast
qed






text \<open>C20.
  Every call can be answered: from every state that a call reaches, if its handler has run, will not run,
  or does not panic at the one server it has to run at, some steps of the call's own goroutines lead to an answer.  No call is stuck waiting.
\<close>

theorem rpc_always_answerable:
  assumes "fresh_call k0" "call_trace c k0 as k rn" "dispatchable c rn k"
  shows "\<exists>bs k' rn' r. call_run c bs k rn = Some (Inr (k', rn')) \<and> cl_phase k' = Replied r"
  using call_answered [OF call_trace_inv [OF assms(2,1)] assms(3)] by (auto simp: answered_def)

lemma demo_dispatchable: "dispatchable demo_codec demo_net demo_call"
proof -
  have sp: "split_svcMeth ''Sum.Add'' = Inr (''Sum'', ''Add'')" by code_simp
  show ?thesis
    by (simp add: dispatchable_def handler_target_def readEndnameInfo_def Server_dispatch_def Service_dispatch_def demo_call_def sp demo_net_def demo_codec_def MakeEnd_def
        MakeNetwork_def Enable_def Connect_def AddServer_def AddService_def MakeServer_def MakeService_def demo_helper_def
        demo_method_def Let_def)
qed

theorem rpc_always_answerable_witness:
  "\<exists>bs k' rn' r. call_run demo_codec bs demo_call demo_net = Some (Inr (k', rn')) \<and> cl_phase k' = Replied r"
  using rpc_always_answerable [OF demo_fresh call_trace.start demo_dispatchable] .

text \<open>C21.
  A request is dispatched to the service before and the method after the last dot of its name; a
  name with no dot panics, and an unknown service or method ends the program.
\<close>

theorem dispatch_by_name:
  "Server_dispatch c objs rs req =
     (if CHR ''.'' \<notin> set (rq_svcMeth req) then Inl SliceBounds
      else
        (let mn = rev (takeWhile (\<lambda>x. x \<noteq> CHR ''.'') (rev (rq_svcMeth req)));
             sn = take (length (rq_svcMeth req) - length mn - 1) (rq_svcMeth req) in
         case sv_services rs sn of
           None \<Rightarrow> Inl (Fatal ''labrpc.Server.dispatch(): unknown service'')
         | Some svc \<Rightarrow>
             (case svc_methods svc mn of
                None \<Rightarrow> Inl (Fatal ''labrpc.Service.dispatch(): unknown method'')
              | Some m \<Rightarrow>
                  bindE (Service_dispatch c objs svc mn req) (\<lambda>(reply, objs').
                    Inr (reply, rs\<lparr>sv_count := sv_count rs + 1\<rparr>, objs')))))"
proof (cases "CHR ''.'' \<in> set (rq_svcMeth req)")
  case True
  then obtain s m where sm: "rq_svcMeth req = s @ CHR ''.'' # m" "CHR ''.'' \<notin> set m"
    using split_list_last by metis
  have "takeWhile (\<lambda>x. x \<noteq> CHR ''.'') (rev m @ [CHR ''.''] @ rev s) = rev m"
    using sm(2) takeWhile_append2 [of "rev m" "\<lambda>x. x \<noteq> CHR ''.''" "[CHR ''.''] @ rev s"] by auto
  then have mn: "rev (takeWhile (\<lambda>x. x \<noteq> CHR ''.'') (rev (rq_svcMeth req))) = m" using sm(1) by simp
  show ?thesis unfolding mn
    using split_svcMeth_dot [OF sm(2), of s] sm
    by (simp add: Server_dispatch_def Service_dispatch_def Let_def split: option.splits)
next
  case False
  then show ?thesis using split_svcMeth_no_dot [OF False] by (simp add: Server_dispatch_def)
qed

text \<open>
  A service offers exactly those methods of its receiver that are exported and have the signature of
  a handler (a receiver, arguments, a pointer to a reply, no results); the last one wins if two have
  the same name.
\<close>

lemma MakeService_offers:
  "svc_methods (MakeService typeName rcvr ms) =
     map_of (rev (map (\<lambda>m. (mt_Name m, m)) (filter (\<lambda>m. mt_PkgPath m = [] \<and> mt_NumIn m = 3 \<and> mt_In2_Ptr m \<and> mt_NumOut m = 0) ms)))"
  by (simp add: MakeService_def MakeService_loop_eq suitable_def [abs_def])


section \<open>The encoder's checks\<close>

text \<open>C23.
  \<^verbatim>\<open>checkType\<close> terminates on every graph of types, recursive ones included, with fuel above the number of types not
  checked before; afterwards every type reachable from the one it was given is marked as checked,
  and it has counted exactly the fields with lower-case names of the types it marked.
\<close>

theorem checkType_complete:
  assumes "type_closed env U" "t \<in> U" "card (U - lg_checked st) < fuel" "marks_closed env st {}"
  shows "\<exists>st'. checkType fuel up env t st = Some st' \<and> t \<in> lg_checked st' \<and>
    (\<forall>u \<in> lg_checked st'. refers env u \<subseteq> lg_checked st') \<and> lg_checked st \<subseteq> lg_checked st' \<and>
    lg_checked st' \<subseteq> lg_checked st \<union> U \<and>
    lg_errorCount st' = lg_errorCount st + (\<Sum>u \<in> lg_checked st' - lg_checked st. int (lower_fields up env u))"
proof -
  obtain st' where st': "checkType fuel up env t st = Some st'" "visited up env U 0 st st'" "t \<in> lg_checked st'"
    using checkType_visits(1) [OF assms(1-3)] by blast
  have "marks_closed env st' {}" using checkType_closes(1) [OF st'(1) assms(4)] by blast
  then show ?thesis using st' by (auto simp: visited_def marks_closed_def)
qed

text \<open>A list type: a struct with a good field, a bad one and a pointer to itself.\<close>

definition demo_types :: "nat \<Rightarrow> tdesc" where
  "demo_types t =
     (if t = 0 then \<lparr>td_kind = KStruct, td_name = ''Node'', td_fields = [(''Value'', 2), (''next'', 1)], td_elem = 0, td_key = 0\<rparr>
      else if t = 1 then \<lparr>td_kind = KPtr, td_name = [], td_fields = [], td_elem = 0, td_key = 0\<rparr>
      else \<lparr>td_kind = KOther, td_name = ''int'', td_fields = [], td_elem = 0, td_key = 0\<rparr>)"

definition demo_upper :: "string \<Rightarrow> bool" where
  "demo_upper s = (s \<noteq> [] \<and> hd s \<in> set ''ABCDEFGHIJKLMNOPQRSTUVWXYZ'')"

theorem checkType_complete_witness:
  "map_option lg_errorCount (checkType 4 demo_upper demo_types 0 labgob_init) = Some 1"
proof -
  have "type_closed demo_types {0, 1, 2}" by (auto simp: type_closed_def refers_def demo_types_def)
  moreover have "card ({0, 1, 2} - lg_checked labgob_init) < (4 :: nat)" by (simp add: labgob_init_def)
  moreover have "marks_closed demo_types labgob_init {}" by (simp add: marks_closed_def labgob_init_def)
  ultimately obtain st' where st': "checkType 4 demo_upper demo_types 0 labgob_init = Some st'" "0 \<in> lg_checked st'"
      "lg_checked st' \<subseteq> {0, 1, 2}" "\<forall>u \<in> lg_checked st'. refers demo_types u \<subseteq> lg_checked st'"
      "lg_errorCount st' = (\<Sum>u \<in> lg_checked st'. int (lower_fields demo_upper demo_types u))"
    using checkType_complete [of demo_types "{0, 1, 2}" 0 labgob_init 4 demo_upper] by (auto simp: labgob_init_def)
  have "lg_checked st' = {0, 1, 2}" using st'(2,3,4) by (auto simp: refers_def demo_types_def)
  moreover have "lower_fields demo_upper demo_types 0 = 1" "lower_fields demo_upper demo_types 1 = 0"
    "lower_fields demo_upper demo_types 2 = 0" by code_simp+
  ultimately show ?thesis using st'(1,5) by simp
qed

text \<open>\<^verbatim>\<open>checkDefault\<close> counts the basic values, up to three levels deep, that are not zero, and prints one
  warning in all: only for the first of them, and only if nothing was counted before.
\<close>

theorem checkDefault_counts:
  assumes "0 \<le> lg_errorCount st"
  shows "lg_errorCount (checkDefault (Some v) st) = lg_errorCount st + int (bad_leaves 3 v) \<and>
    lg_checked (checkDefault (Some v) st) = lg_checked st \<and>
    length (lg_out (checkDefault (Some v) st)) =
      length (lg_out st) + (if lg_errorCount st = 0 \<and> bad_leaves 3 v > 0 then 1 else 0)"
  using checkDefault_effect(1) [OF assms, of 1 v "[]"] by (simp add: checkDefault_def default_effect_def)

definition demo_value :: gvalue where
  "demo_value = VPtr (Some (VStruct [(''A'', VBasic ''int'' False), (''B'', VBasic ''string'' True), (''C'', VPtr None),
     (''D'', VBasic ''bool'' False)]))"

theorem checkDefault_counts_witness:
  "lg_errorCount (checkDefault (Some demo_value) labgob_init) = 2 \<and> length (lg_out (checkDefault (Some demo_value) labgob_init)) = 1"
proof -
  have "bad_leaves 3 demo_value = 2" by code_simp
  then show ?thesis using checkDefault_counts [of labgob_init demo_value] by (simp add: labgob_init_def)
qed

section \<open>Statistics\<close>

text \<open>C18.
  The statistics of a network, which the tests compare with what a service may use, under every interleaving of calls and changes of the
  network: \<^verbatim>\<open>GetTotalCount\<close> is the number of calls that were taken, \<^verbatim>\<open>GetTotalBytes\<close> the number of bytes of their
  requests and of the replies on their way (both at the width of their counters), the count of a server the number of handlers
  that have run at it; and in all as many handlers have run as there are calls with a finished handler, so never more than
  calls.
\<close>

theorem network_statistics:
  assumes "\<forall>a. sv_count (store a) = 0" "net_run c es (new_system store objs) = Some (Inr st)"
  shows "GetTotalCount (sy_net st) = sint (of_nat (length (sy_calls st)) :: 32 word) \<and>
    GetTotalBytes (sy_net st) = sint (of_nat (sum_list (map traffic (sy_calls st))) :: 64 word) \<and>
    (\<forall>a. Server_GetCount (nw_store (sy_net st) a) = count_list (sy_ran st) a) \<and>
    length (sy_ran st) = length (filter handled (sy_calls st)) \<and> length (sy_ran st) \<le> length (sy_calls st)"
proof -
  have "accounts st" using net_run_accounts [OF assms(2)] new_system_accounts assms(1) by blast
  then show ?thesis by (simp add: accounts_def GetTotalCount_def GetTotalBytes_def Server_GetCount_def)
qed

definition demo_events :: "(string, bytes, int) net_event list" where
  "demo_events = [Method (Offer 7 (MakeService ''Sum'' 0 [demo_helper, demo_method])), Method (NewServer ''server'' 7), Method (NewEnd ''end''),
     Method (Link ''end'' ''server''), Method (Switch ''end'' True), Call False ''end'' ''Sum.Add'' [] [1, 2], Own 0 ReadInfo,
     Call False ''end'' ''Sum.Add'' [] [3], Own 0 (Deliver 0), Own 0 Execute, Method (Switch ''end'' False), Own 1 ReadInfo, Own 0 TakeReply,
     Own 0 (Decide 0 0), Own 1 Send]"

text \<open>Two calls are sent; the end is disabled while the handler of the first has just run, so that both fail.\<close>

theorem network_statistics_witness:
  "\<exists>st. net_run demo_codec demo_events (new_system (\<lambda>_. MakeServer) (\<lambda>_. 0)) = Some (Inr st) \<and>
     GetTotalCount (sy_net st) = 2 \<and> GetTotalBytes (sy_net st) = 3 \<and> Server_GetCount (nw_store (sy_net st) 7) = 1"
proof -
  have sp: "split_svcMeth ''Sum.Add'' = Inr (''Sum'', ''Add'')" by code_simp
  obtain st where st: "net_run demo_codec demo_events (new_system (\<lambda>_. MakeServer) (\<lambda>_. 0)) = Some (Inr st)" "length (sy_calls st) = 2"
      "sum_list (map traffic (sy_calls st)) = 3" "sy_ran st = [7]"
    by (simp add: demo_events_def new_system_def MakeNetwork_def MakeServer_def AddService_def MakeService_def demo_helper_def demo_method_def AddServer_def
        MakeEnd_def Connect_def Enable_def Call_send_def demo_codec_def add_bytes_def call_step_def readEndnameInfo_def run_handler_def Server_dispatch_def
        sp Service_dispatch_def decide_def isServerDead_def failure_def ran_at_def traffic_def reply_bytes_def Let_def)
  have "\<forall>a. sv_count ((\<lambda>_. MakeServer :: (bytes, int) Server) a) = 0" by (simp add: MakeServer_def)
  from network_statistics [OF this st(1)] show ?thesis using st by simp
qed

end
