(* ===== verification/Raft.thy ===== *)
theory Raft
  imports Labrpc
begin

text \<open>
  \<^verbatim>\<open>raft/persister.go\<close>, the stable storage of a peer, and \<^verbatim>\<open>raft/raft.go\<close>, the outline of a Raft peer.
  Persisters are shared by pointer between a peer and the test configuration, so they live in a
  store.  The bodies that the outline leaves to be written do nothing or return constants, and are
  modelled as they are.
\<close>

section \<open>Persister\<close>

record Persister =
  ps_raftstate :: bytes
  ps_snapshot :: bytes

definition MakePersister :: Persister where
  "MakePersister = \<lparr>ps_raftstate = [], ps_snapshot = []\<rparr>"

definition clone :: "bytes \<Rightarrow> bytes" where
  "clone orig = (let x = replicate (length orig) 0 in go_copy x orig)"

definition Persister_Copy :: "Persister \<Rightarrow> Persister" where
  "Persister_Copy ps =
     (let np = MakePersister;
          np = np\<lparr>ps_raftstate := ps_raftstate ps\<rparr>;
          np = np\<lparr>ps_snapshot := ps_snapshot ps\<rparr>
      in np)"

definition SaveRaftState :: "bytes \<Rightarrow> Persister \<Rightarrow> Persister" where
  "SaveRaftState state ps = ps\<lparr>ps_raftstate := clone state\<rparr>"

definition ReadRaftState :: "Persister \<Rightarrow> bytes" where
  "ReadRaftState ps = clone (ps_raftstate ps)"

definition RaftStateSize :: "Persister \<Rightarrow> nat" where
  "RaftStateSize ps = length (ps_raftstate ps)"

definition SaveStateAndSnapshot :: "bytes \<Rightarrow> bytes \<Rightarrow> Persister \<Rightarrow> Persister" where
  "SaveStateAndSnapshot state snapshot ps =
     (let ps = ps\<lparr>ps_raftstate := clone state\<rparr> in ps\<lparr>ps_snapshot := clone snapshot\<rparr>)"

definition ReadSnapshot :: "Persister \<Rightarrow> bytes" where
  "ReadSnapshot ps = clone (ps_snapshot ps)"

definition SnapshotSize :: "Persister \<Rightarrow> nat" where
  "SnapshotSize ps = length (ps_snapshot ps)"

lemma clone_id [simp]: "clone b = b"
  by (simp add: clone_def Let_def)

section \<open>A Raft peer\<close>

record 'v ApplyMsg =
  am_CommandValid :: bool
  am_Command :: "'v iface"
  am_CommandIndex :: int
  am_SnapshotValid :: bool
  am_Snapshot :: bytes
  am_SnapshotTerm :: int
  am_SnapshotIndex :: int

record 'n raft =
  rf_peers :: "'n list"
  rf_persister :: nat
  rf_me :: nat
  rf_dead :: "32 word"

definition Raft_GetState :: "'n raft \<Rightarrow> int \<times> bool" where
  "Raft_GetState rf = (0, False)"

definition Raft_persist :: "'n raft \<Rightarrow> 'n raft" where
  "Raft_persist rf = rf"

definition readPersist :: "bytes \<Rightarrow> 'n raft \<Rightarrow> 'n raft" where
  "readPersist data rf = (if length data < 1 then rf else rf)"

definition CondInstallSnapshot :: "int \<Rightarrow> int \<Rightarrow> bytes \<Rightarrow> 'n raft \<Rightarrow> bool" where
  "CondInstallSnapshot lastIncludedTerm lastIncludedIndex snapshot rf = True"

definition Raft_Snapshot :: "int \<Rightarrow> bytes \<Rightarrow> 'n raft \<Rightarrow> 'n raft" where
  "Raft_Snapshot index snapshot rf = rf"

text \<open>The handler: arguments and reply are empty structures.\<close>

definition RequestVote :: "'n raft \<Rightarrow> 'v \<Rightarrow> 'v \<Rightarrow> 'v \<times> 'n raft" where
  "RequestVote rf args reply = (reply, rf)"

definition sendRequestVote ::
    "bool \<Rightarrow> 'v codec \<Rightarrow> nat \<Rightarrow> 'v \<Rightarrow> 'v \<Rightarrow> 'n raft \<Rightarrow> ('n, 'v, 'r) network
       \<Rightarrow> (('n, 'v) call option \<times> ('n, 'v, 'r) network) result" where
  "sendRequestVote late c server zero args rf rn =
     bindE (slice_get (rf_peers rf) server) (\<lambda>e.
       Call_send late c e ''Raft.RequestVote'' zero args rn)"

definition Raft_Start :: "'v iface \<Rightarrow> 'n raft \<Rightarrow> int \<times> int \<times> bool" where
  "Raft_Start command rf = (-1, -1, True)"

definition Raft_Kill :: "'n raft \<Rightarrow> 'n raft" where
  "Raft_Kill rf = rf\<lparr>rf_dead := 1\<rparr>"

definition killed :: "'n raft \<Rightarrow> bool" where
  "killed rf = (rf_dead rf = 1)"

text \<open>
  The ticker's goroutine: \<open>dead k\<close> is what its \<open>k\<close>-th test of the flag reads, and the result is the
  number of tests; \<open>None\<close> means that it runs forever.
\<close>

partial_function (option) ticker :: "(nat \<Rightarrow> 32 word) \<Rightarrow> nat \<Rightarrow> nat option" where
  "ticker dead k = (if (dead k = 1) = False then ticker dead (k + 1) else Some k)"

definition Raft_Make :: "'n list \<Rightarrow> nat \<Rightarrow> (nat \<Rightarrow> Persister) \<Rightarrow> nat \<Rightarrow> 'n raft" where
  "Raft_Make peers me store persister =
     (let rf = \<lparr>rf_peers = peers, rf_persister = persister, rf_me = me, rf_dead = 0\<rparr>
      in readPersist (ReadRaftState (store persister)) rf)"

section \<open>Facts\<close>

lemma ticker_stops:
  assumes "dead m = 1"
  shows "\<exists>k \<le> m. ticker dead 0 = Some k \<and> dead k = 1"
proof -
  have "j \<le> m \<Longrightarrow> \<exists>k \<le> m. ticker dead (m - j) = Some k \<and> dead k = 1" for j
  proof (induction j)
    case 0
    then show ?case using assms by (auto simp: ticker.simps [of dead m])
  next
    case (Suc j)
    then have "m - Suc j + 1 = m - j" by simp
    then show ?case using Suc ticker.simps [of dead "m - Suc j"] by (cases "dead (m - Suc j) = 1") auto
  qed
  from this [of m] show ?thesis by simp
qed

lemma Raft_Make_simps [simp]:
  "rf_peers (Raft_Make peers me store p) = peers" "rf_persister (Raft_Make peers me store p) = p"
  "rf_me (Raft_Make peers me store p) = me" "rf_dead (Raft_Make peers me store p) = 0"
  by (simp_all add: Raft_Make_def readPersist_def)

text \<open>
  What a peer and the tester rely on: each of the two parts of a persister reads back as it was
  saved last, and a copy is independent of the original.
\<close>

locale stable_storage =
  fixes saveState :: "bytes \<Rightarrow> 'p \<Rightarrow> 'p" and saveBoth :: "bytes \<Rightarrow> bytes \<Rightarrow> 'p \<Rightarrow> 'p"
    and readState :: "'p \<Rightarrow> bytes" and readSnap :: "'p \<Rightarrow> bytes" and copy :: "'p \<Rightarrow> 'p" and new :: 'p
  assumes saveState_laws: "readState (saveState b p) = b" "readSnap (saveState b p) = readSnap p"
    and saveBoth_laws: "readState (saveBoth b s p) = b" "readSnap (saveBoth b s p) = s"
    and copy_laws: "readState (copy p) = readState p" "readSnap (copy p) = readSnap p"
    and new_laws: "readState new = []" "readSnap new = []"
begin

text \<open>What \<^verbatim>\<open>crash1\<close> does: copy, then move the contents into a new persister.\<close>

lemma move_contents:
  "readState (saveBoth (readState (copy p)) (readSnap (copy p)) new) = readState p"
  "readSnap (saveBoth (readState (copy p)) (readSnap (copy p)) new) = readSnap p"
  by (simp_all add: saveBoth_laws copy_laws)

end

interpretation ps: stable_storage SaveRaftState SaveStateAndSnapshot ReadRaftState ReadSnapshot Persister_Copy MakePersister
  by unfold_locales
    (simp_all add: SaveRaftState_def SaveStateAndSnapshot_def ReadRaftState_def ReadSnapshot_def
      Persister_Copy_def MakePersister_def Let_def)

end
