(* ===== verification/Tester_Support.thy ===== *)
theory Tester_Support
  imports Labrpc
begin

text \<open>
  What the four test configurations share: the random names of ends (\<^verbatim>\<open>randstring\<close>, over the URL variant of
  base64), random seeds (\<^verbatim>\<open>makeSeed\<close>, \<^verbatim>\<open>nrand\<close>), the time limit (\<^verbatim>\<open>checkTimeout\<close>) and debug output
  (\<^verbatim>\<open>DPrintf\<close>).  The random bytes and numbers and the time are arguments.
\<close>

section \<open>Random names\<close>

text \<open>\<^verbatim>\<open>base64.URLEncoding\<close>: three bytes are four digits to the base 64; a rest of one or two bytes is padded.\<close>

definition url_alphabet :: string where
  "url_alphabet = ''ABCDEFGHIJKLMNOPQRSTUVWXYZabcdefghijklmnopqrstuvwxyz0123456789-_''"

definition digit64 :: "nat \<Rightarrow> char" where
  "digit64 i = url_alphabet ! (i mod 64)"

fun EncodeToString :: "bytes \<Rightarrow> string" where
  "EncodeToString (a # b # c # bs) =
     (let val = unat a * 2 ^ 16 + unat b * 2 ^ 8 + unat c in
      digit64 (val div 2 ^ 18) # digit64 (val div 2 ^ 12) # digit64 (val div 2 ^ 6) # digit64 val # EncodeToString bs)"
| "EncodeToString [a, b] =
     (let val = unat a * 2 ^ 16 + unat b * 2 ^ 8 in
      [digit64 (val div 2 ^ 18), digit64 (val div 2 ^ 12), digit64 (val div 2 ^ 6), CHR ''=''])"
| "EncodeToString [a] =
     (let val = unat a * 2 ^ 16 in [digit64 (val div 2 ^ 18), digit64 (val div 2 ^ 12), CHR ''='', CHR ''=''])"
| "EncodeToString [] = []"

text \<open>
  \<^verbatim>\<open>crand.Read(b)\<close> overwrites all of the slice \<open>b\<close>; \<open>rnd k\<close> is the byte that it puts at position \<open>k\<close>.
\<close>

definition crand_Read :: "(nat \<Rightarrow> 8 word) \<Rightarrow> bytes \<Rightarrow> bytes" where
  "crand_Read rnd b = map rnd [0..<length b]"

definition randstring :: "nat \<Rightarrow> (nat \<Rightarrow> 8 word) \<Rightarrow> string result" where
  "randstring n rnd =
     (let b = replicate (2 * n) 0;
          b = crand_Read rnd b;
          s = EncodeToString b
      in if n \<le> length s then Inr (take n s) else Inl SliceBounds)"

section \<open>Seeds, time limit, debug output\<close>

text \<open>\<open>bigx\<close> is the random number below \<open>2 ^ 62\<close>; \<^verbatim>\<open>Int64\<close> keeps its low 64 bits.\<close>

definition makeSeed :: "int \<Rightarrow> int" where
  "makeSeed bigx = sint (word_of_int bigx :: 64 word)"

definition nrand :: "int \<Rightarrow> int" where
  "nrand bigx = sint (word_of_int bigx :: 64 word)"

text \<open>The state of a test: whether it has failed already and for how many nanoseconds it has been running.\<close>

record test_state =
  ts_failed :: bool
  ts_elapsed :: int

definition checkTimeout :: "test_state \<Rightarrow> unit result" where
  "checkTimeout t =
     (if \<not> ts_failed t \<and> ts_elapsed t > 120 * 10 ^ 9 then Inl (Fatal ''test took longer than 120 seconds'') else Inr ())"

definition Debug :: bool where
  "Debug = False"

text \<open>The lines that are written to the log; the results are always zero.\<close>

definition DPrintf :: "string \<Rightarrow> string list \<times> nat" where
  "DPrintf line = (if Debug then [line] else [], 0)"

text \<open>
  The first \<^verbatim>\<open>make_config\<close> of a process, and no other, seeds the generator of \<^verbatim>\<open>math/rand\<close>, and warns of a single processor.  The state of
  the process: whether \<^verbatim>\<open>ncpu_once\<close> has run, and the seed.
\<close>

record process =
  pr_ncpu_once :: bool
  pr_seed :: int

definition ncpu_once_Do :: "nat \<Rightarrow> int \<Rightarrow> process \<Rightarrow> string list \<times> process" where
  "ncpu_once_Do NumCPU bigx st =
     (if pr_ncpu_once st then ([], st)
      else (if NumCPU < 2 then [''warning: only one CPU, which may conceal locking bugs''] else [],
            \<lparr>pr_ncpu_once = True, pr_seed = makeSeed bigx\<rparr>))"

lemma ncpu_once_again: "ncpu_once_Do n x (snd (ncpu_once_Do m y st)) = ([], snd (ncpu_once_Do m y st))"
  by (simp add: ncpu_once_Do_def)

section \<open>Names\<close>

lemma seed_range:
  assumes "0 \<le> x" "x < 2 ^ 62"
  shows "makeSeed x = x" "nrand x = x"
proof -
  have "uint (word_of_int x :: 64 word) = x" using assms by (simp add: uint_word_of_int_eq take_bit_int_eq_self)
  then have "sint (word_of_int x :: 64 word) = x" using assms by (simp add: sint_uint signed_take_bit_int_eq_self)
  then show "makeSeed x = x" "nrand x = x" by (simp_all add: makeSeed_def nrand_def)
qed

lemma length_alphabet [simp]: "length url_alphabet = 64"
  by (simp add: url_alphabet_def)

lemma distinct_alphabet: "distinct url_alphabet"
  by (simp add: url_alphabet_def)

lemma digit64_eq: "digit64 i = digit64 j \<longleftrightarrow> i mod 64 = j mod 64"
  by (simp add: digit64_def nth_eq_iff_index_eq distinct_alphabet)

lemma digit64_mem [simp]: "digit64 i \<in> set url_alphabet"
  by (simp add: digit64_def)

text \<open>Three bytes are the value of four digits.\<close>

definition quad :: "nat \<Rightarrow> string" where
  "quad v = [digit64 (v div 2 ^ 18), digit64 (v div 2 ^ 12), digit64 (v div 2 ^ 6), digit64 v]"

definition val24 :: "8 word \<Rightarrow> 8 word \<Rightarrow> 8 word \<Rightarrow> nat" where
  "val24 a b c = (unat a * 2 ^ 8 + unat b) * 2 ^ 8 + unat c"

lemma quad_simps [simp]: "length (quad v) = 4" "set (quad v) \<subseteq> set url_alphabet"
  by (simp_all add: quad_def)

lemma Encode_Cons3: "EncodeToString (a # b # c # bs) = quad (val24 a b c) @ EncodeToString bs"
  by (simp add: quad_def val24_def Let_def algebra_simps)

lemma length_Encode: "length b \<le> length (EncodeToString b)"
  by (induction b rule: EncodeToString.induct) (simp_all add: Let_def)

lemma Encode_digits: "k \<le> length b \<Longrightarrow> set (take k (EncodeToString b)) \<subseteq> set url_alphabet"
proof (induction b arbitrary: k rule: EncodeToString.induct)
  case (1 a b c bs)
  have "set (take (k - 4) (EncodeToString bs)) \<subseteq> set url_alphabet" using 1 by simp
  moreover have "set (take k (quad (val24 a b c))) \<subseteq> set url_alphabet" using set_take_subset quad_simps(2) by (rule subset_trans)
  ultimately show ?case unfolding Encode_Cons3 by simp
qed (auto simp: Let_def take_Cons' split: if_splits)

lemma div_mod_64: "v div 64 = w div 64 \<Longrightarrow> v mod 64 = w mod 64 \<Longrightarrow> v = (w :: nat)"
  by (metis div_mult_mod_eq)

lemma quad_inj:
  assumes "v < 2 ^ 24" "w < 2 ^ 24" "quad v = quad w"
  shows "v = w"
proof -
  have d: "v div 2 ^ 18 mod 64 = w div 2 ^ 18 mod 64" "v div 2 ^ 12 mod 64 = w div 2 ^ 12 mod 64"
      "v div 2 ^ 6 mod 64 = w div 2 ^ 6 mod 64" "v mod 64 = w mod 64"
    using assms(3) by (simp_all add: quad_def digit64_eq)
  have "v div 2 ^ 18 = w div 2 ^ 18" using d(1) assms(1,2) by (simp add: less_mult_imp_div_less)
  then have "v div 2 ^ 12 div 64 = w div 2 ^ 12 div 64" by (simp add: div_mult2_eq [symmetric])
  then have "v div 2 ^ 12 = w div 2 ^ 12" using d(2) by (rule div_mod_64)
  then have "v div 2 ^ 6 div 64 = w div 2 ^ 6 div 64" by (simp add: div_mult2_eq [symmetric])
  then have "v div 2 ^ 6 = w div 2 ^ 6" using d(3) by (rule div_mod_64)
  then have "v div 64 = w div 64" by simp
  then show ?thesis using d(4) by (rule div_mod_64)
qed

lemma unat_byte: "unat (x :: 8 word) < 256"
  using unsigned_less [of x] by simp

lemma val24_less: "val24 a b c < 2 ^ 24"
  using unat_byte [of a] unat_byte [of b] unat_byte [of c] by (simp add: val24_def)

lemma val24_inj: "val24 a b c = val24 a' b' c' \<longleftrightarrow> a = a' \<and> b = b' \<and> c = c'"
proof -
  have split: "x * 256 + unat y = x' * 256 + unat y' \<longleftrightarrow> x = x' \<and> y = y'" for x x' and y y' :: "8 word"
  proof
    assume eq: "x * 256 + unat y = x' * 256 + unat y'"
    have "(x * 256 + unat y) mod 256 = unat y" "(x' * 256 + unat y') mod 256 = unat y'" using unat_byte by simp_all
    then have "unat y = unat y'" using eq by simp
    then show "x = x' \<and> y = y'" using eq by (simp add: word_unat_eq_iff)
  qed simp
  have eq: "val24 a b c = (unat a * 256 + unat b) * 256 + unat c" for a b c by (simp add: val24_def)
  show ?thesis unfolding eq split word_unat_eq_iff [of a a'] by blast
qed

text \<open>Names of \<open>4 * m\<close> characters are equal exactly if their first \<open>3 * m\<close> random bytes are.\<close>

lemma Encode_prefix_inj:
  assumes "3 * m \<le> length b" "3 * m \<le> length b'"
  shows "take (4 * m) (EncodeToString b) = take (4 * m) (EncodeToString b') \<longleftrightarrow> take (3 * m) b = take (3 * m) b'"
  using assms
proof (induction m arbitrary: b b')
  case (Suc m)
  have "\<exists>x y z r. b = x # y # z # r \<and> 3 * m \<le> length r" if "3 * Suc m \<le> length b" for b :: bytes
    using that by (cases b rule: EncodeToString.cases) auto
  from this [OF Suc.prems(1)] this [OF Suc.prems(2)] obtain x y z r x' y' z' r'
    where b: "b = x # y # z # r" "3 * m \<le> length r" "b' = x' # y' # z' # r'" "3 * m \<le> length r'" by blast
  have "quad (val24 x y z) = quad (val24 x' y' z') \<longleftrightarrow> x = x' \<and> y = y' \<and> z = z'"
    using quad_inj val24_less val24_inj by metis
  moreover have "take (4 * Suc m) (quad v @ s) = quad v @ take (4 * m) s" for v s by simp
  moreover have "take (3 * Suc m) (x # y # z # s) = x # y # z # take (3 * m) s" for x y z and s :: bytes
    by (simp add: numeral_3_eq_3)
  ultimately show ?case using Suc.IH [OF b(2,4)] unfolding b(1,3) Encode_Cons3 by simp
qed simp

text \<open>The name that \<^verbatim>\<open>randstring\<close> draws.\<close>

definition random_name :: "nat \<Rightarrow> (nat \<Rightarrow> 8 word) \<Rightarrow> string" where
  "random_name n rnd = take n (EncodeToString (map rnd [0..<2 * n]))"

lemma randstring_ok:
  "randstring n rnd = Inr (random_name n rnd)" "length (random_name n rnd) = n" "set (random_name n rnd) \<subseteq> set url_alphabet"
  using length_Encode [of "map rnd [0..<2 * n]"] Encode_digits [of n "map rnd [0..<2 * n]"]
  by (simp_all add: randstring_def crand_Read_def random_name_def)

lemma random_name_inj: "random_name (4 * m) rnd = random_name (4 * m) rnd' \<longleftrightarrow> map rnd [0..<3 * m] = map rnd' [0..<3 * m]"
proof -
  have "take (3 * m) (map f [0..<2 * (4 * m)]) = map f [0..<3 * m]" for f :: "nat \<Rightarrow> 8 word" by (simp add: take_map)
  then show ?thesis
    using Encode_prefix_inj [of m "map rnd [0..<2 * (4 * m)]" "map rnd' [0..<2 * (4 * m)]"] by (simp add: random_name_def)
qed

end
