(* ===== verification/Raft_Config.thy ===== *)
theory Raft_Config
  imports Raft Tester_Support "HOL-Library.AList"
begin

text \<open>
  \<^verbatim>\<open>raft/config.go\<close>: the test configuration of the Raft lab.  It owns the network, starts, crashes
  and restarts peers, cuts and restores their connections, watches what the peers apply, and drives
  agreements.  Persisters, peers (the objects behind the network's services) and servers are at
  addresses, all handed out by one counter.

  Ends are named by random strings, servers by their number.  What the code obtains from outside is
  an argument: the random names, what \<^verbatim>\<open>GetState\<close> and \<^verbatim>\<open>Start\<close> of a peer return at each call, and the
  configuration as concurrent goroutines have left it when a loop looks at it again.  An error
  message that the code compares with the empty string is a value of \<open>apply_error\<close>.
\<close>

datatype name = EndName string | ServerName nat

datatype apply_error = NoError | CommitMismatch int nat nat | ApplyOutOfOrder nat int

record 'v config =
  cf_net :: "(name, 'v, name raft) network"
  cf_n :: nat
  cf_rafts :: "nat option list"
  cf_applyErr :: "apply_error list"
  cf_connected :: "bool list"
  cf_saved :: "nat option list"
  cf_endnames :: "string list option list"
  cf_logs :: "(int \<rightharpoonup> 'v iface) list"
  cf_maxIndex :: int
  cf_rpcs0 :: int
  cf_cmds0 :: int
  cf_bytes0 :: int
  cf_maxIndex0 :: int
  cf_persisters :: "nat \<Rightarrow> Persister"
  cf_brk :: nat

section \<open>Connections\<close>

definition cf_enable :: "string \<Rightarrow> bool \<Rightarrow> 'v config \<Rightarrow> 'v config" where
  "cf_enable e b cfg = cfg\<lparr>cf_net := Enable (EndName e) b (cf_net cfg)\<rparr>"

text \<open>\<^verbatim>\<open>cfg.endnames[i][j]\<close>; a row that was never filled is \<^verbatim>\<open>nil\<close> and has no elements.\<close>

definition endname_at :: "'v config \<Rightarrow> nat \<Rightarrow> nat \<Rightarrow> string result" where
  "endname_at cfg i j =
     bindE (slice_get (cf_endnames cfg) i) (\<lambda>row.
       case row of None \<Rightarrow> Inl IndexOutOfRange | Some es \<Rightarrow> slice_get es j)"

definition connect_end :: "nat \<Rightarrow> nat \<Rightarrow> nat \<Rightarrow> 'v config \<Rightarrow> 'v config result" where
  "connect_end a b j cfg =
     bindE (slice_get (cf_connected cfg) j) (\<lambda>up.
       if up then bindE (endname_at cfg a b) (\<lambda>e. Inr (cf_enable e True cfg)) else Inr cfg)"

definition config_connect :: "nat \<Rightarrow> 'v config \<Rightarrow> 'v config result" where
  "config_connect i cfg =
     bindE (slice_set (cf_connected cfg) i True) (\<lambda>c.
     let cfg = cfg\<lparr>cf_connected := c\<rparr> in
     bindE (foldE (\<lambda>j. connect_end i j j) [0..<cf_n cfg] cfg) (\<lambda>cfg.
     foldE (\<lambda>j. connect_end j i j) [0..<cf_n cfg] cfg))"

definition disconnect_end :: "nat \<Rightarrow> nat \<Rightarrow> 'v config \<Rightarrow> 'v config result" where
  "disconnect_end a b cfg =
     bindE (slice_get (cf_endnames cfg) a) (\<lambda>row.
       if row \<noteq> None then bindE (endname_at cfg a b) (\<lambda>e. Inr (cf_enable e False cfg)) else Inr cfg)"

definition config_disconnect :: "nat \<Rightarrow> 'v config \<Rightarrow> 'v config result" where
  "config_disconnect i cfg =
     bindE (slice_set (cf_connected cfg) i False) (\<lambda>c.
     let cfg = cfg\<lparr>cf_connected := c\<rparr> in
     bindE (foldE (\<lambda>j. disconnect_end i j) [0..<cf_n cfg] cfg) (\<lambda>cfg.
     foldE (\<lambda>j. disconnect_end j i) [0..<cf_n cfg] cfg))"

section \<open>Crash and start\<close>

definition new_persister :: "Persister \<Rightarrow> 'v config \<Rightarrow> nat \<times> 'v config" where
  "new_persister p cfg =
     (cf_brk cfg, cfg\<lparr>cf_persisters := (cf_persisters cfg)(cf_brk cfg := p), cf_brk := Suc (cf_brk cfg)\<rparr>)"

definition save_persister :: "nat \<Rightarrow> Persister \<Rightarrow> 'v config \<Rightarrow> 'v config result" where
  "save_persister i p cfg =
     (let (a, cfg) = new_persister p cfg in
      bindE (slice_set (cf_saved cfg) i (Some a)) (\<lambda>s. Inr (cfg\<lparr>cf_saved := s\<rparr>)))"

definition kill_raft :: "nat \<Rightarrow> 'v config \<Rightarrow> 'v config" where
  "kill_raft a cfg =
     (let net = cf_net cfg in
      cfg\<lparr>cf_net := net\<lparr>nw_objs := (nw_objs net)(a := Raft_Kill (nw_objs net a))\<rparr>\<rparr>)"

definition crash1 :: "nat \<Rightarrow> 'v config \<Rightarrow> 'v config result" where
  "crash1 i cfg =
     bindE (config_disconnect i cfg) (\<lambda>cfg.
     let cfg = cfg\<lparr>cf_net := DeleteServer (ServerName i) (cf_net cfg)\<rparr> in
     bindE (slice_get (cf_saved cfg) i) (\<lambda>saved.
     bindE (case saved of
              None \<Rightarrow> Inr cfg
            | Some a \<Rightarrow> save_persister i (Persister_Copy (cf_persisters cfg a)) cfg) (\<lambda>cfg.
     bindE (slice_get (cf_rafts cfg) i) (\<lambda>rf.
     bindE (case rf of
              None \<Rightarrow> Inr cfg
            | Some r \<Rightarrow>
                (let cfg = kill_raft r cfg in
                 bindE (slice_set (cf_rafts cfg) i None) (\<lambda>rs. Inr (cfg\<lparr>cf_rafts := rs\<rparr>)))) (\<lambda>cfg.
     bindE (slice_get (cf_saved cfg) i) (\<lambda>saved.
     case saved of
       None \<Rightarrow> Inr cfg
     | Some a \<Rightarrow>
         (let raftlog = ReadRaftState (cf_persisters cfg a);
              snapshot = ReadSnapshot (cf_persisters cfg a)
          in save_persister i (SaveStateAndSnapshot raftlog snapshot MakePersister) cfg)))))))"

text \<open>An exported method that is no handler; \<^verbatim>\<open>reflect\<close> would panic if it were called like one.\<close>

definition plain_method :: "string \<Rightarrow> nat \<Rightarrow> nat \<Rightarrow> ('v, 'r) rpc_method" where
  "plain_method nm ins outs =
     \<lparr>mt_Name = nm, mt_PkgPath = [], mt_NumIn = ins, mt_In2_Ptr = False, mt_NumOut = outs,
      mt_Func = (\<lambda>rcvr args. Inl (ExplicitPanic ''reflect: Call with wrong argument types''))\<rparr>"

text \<open>
  What reflection finds on \<^verbatim>\<open>*Raft\<close>: the exported methods, with their signatures.  Only \<^verbatim>\<open>RequestVote\<close> has
  the signature of a handler, so the function given for the others is never called.
\<close>

definition raft_methods :: "'v \<Rightarrow> ('v, name raft) rpc_method list" where
  "raft_methods zero =
     (let m = (\<lambda>nm ins ptr outs. \<lparr>mt_Name = nm, mt_PkgPath = [], mt_NumIn = ins, mt_In2_Ptr = ptr,
                 mt_NumOut = outs, mt_Func = (\<lambda>rf args. Inr (RequestVote rf args zero))\<rparr>)
      in [m ''CondInstallSnapshot'' 4 False 1, m ''GetState'' 1 False 2, m ''Kill'' 1 False 0,
          m ''RequestVote'' 3 True 0, m ''Snapshot'' 3 False 0, m ''Start'' 2 False 3])"

text \<open>The two loops of \<^verbatim>\<open>start1\<close> that create the ends.\<close>

definition make_end :: "string list \<Rightarrow> nat \<Rightarrow> 'v config \<Rightarrow> 'v config result" where
  "make_end names j cfg =
     bindE (slice_get names j) (\<lambda>e.
     bindE (MakeEnd (EndName e) (cf_net cfg)) (\<lambda>net.
     Inr (cfg\<lparr>cf_net := Connect (EndName e) (ServerName j) net\<rparr>)))"

definition start1 :: "'v \<Rightarrow> string list \<Rightarrow> nat \<Rightarrow> 'v config \<Rightarrow> 'v config result" where
  "start1 zero names i cfg =
     bindE (crash1 i cfg) (\<lambda>cfg.
     bindE (slice_set (cf_endnames cfg) i (Some (take (cf_n cfg) names))) (\<lambda>rows.
     let cfg = cfg\<lparr>cf_endnames := rows\<rparr> in
     bindE (foldE (make_end names) [0..<cf_n cfg] cfg) (\<lambda>cfg.
     bindE (slice_get (cf_saved cfg) i) (\<lambda>saved.
     bindE (save_persister i (case saved of
              Some a \<Rightarrow> Persister_Copy (cf_persisters cfg a) | None \<Rightarrow> MakePersister) cfg) (\<lambda>cfg.
     bindE (slice_get (cf_saved cfg) i) (\<lambda>saved.
     case saved of
       None \<Rightarrow> Inl NilDereference
     | Some p \<Rightarrow>
         (let rf = Raft_Make (map EndName (take (cf_n cfg) names)) i (cf_persisters cfg) p;
              a = cf_brk cfg;
              svc = MakeService ''Raft'' a (raft_methods zero);
              srv = AddService MakeServer svc;
              net = cf_net cfg;
              net = net\<lparr>nw_objs := (nw_objs net)(a := rf), nw_store := (nw_store net)(a := srv)\<rparr>;
              cfg = cfg\<lparr>cf_brk := Suc a\<rparr> in
          bindE (slice_set (cf_rafts cfg) i (Some a)) (\<lambda>rs.
          Inr (cfg\<lparr>cf_rafts := rs, cf_net := AddServer (ServerName i) a net\<rparr>)))))))))"

definition empty_config :: "nat \<Rightarrow> bool \<Rightarrow> (name, 'v, name raft) network \<Rightarrow> 'v config" where
  "empty_config n unreliable net =
     \<lparr>cf_net = LongDelays True (Reliable (\<not> unreliable) net), cf_n = n, cf_rafts = replicate n None,
      cf_applyErr = replicate n NoError, cf_connected = replicate n False, cf_saved = replicate n None,
      cf_endnames = replicate n None, cf_logs = replicate n Map.empty, cf_maxIndex = 0, cf_rpcs0 = 0,
      cf_cmds0 = 0, cf_bytes0 = 0, cf_maxIndex0 = 0, cf_persisters = (\<lambda>_. MakePersister), cf_brk = 0\<rparr>"

text \<open>\<open>draws i\<close> are the names drawn for the ends of peer \<open>i\<close>.\<close>

definition make_config ::
    "'v \<Rightarrow> (nat \<Rightarrow> string list) \<Rightarrow> nat \<Rightarrow> bool \<Rightarrow> (name, 'v, name raft) network \<Rightarrow> 'v config result" where
  "make_config zero draws n unreliable net =
     bindE (foldE (\<lambda>i. start1 zero (draws i) i) [0..<n] (empty_config n unreliable net)) (\<lambda>cfg.
     foldE config_connect [0..<n] cfg)"

definition config_cleanup :: "test_state \<Rightarrow> 'v config \<Rightarrow> 'v config result" where
  "config_cleanup t cfg =
     (let cfg = fold (\<lambda>r cfg. case r of None \<Rightarrow> cfg | Some a \<Rightarrow> kill_raft a cfg) (cf_rafts cfg) cfg in
      bindE (Cleanup (cf_net cfg)) (\<lambda>net.
      bindE (checkTimeout t) (\<lambda>_. Inr (cfg\<lparr>cf_net := net\<rparr>))))"

section \<open>Watching the peers\<close>

text \<open>
  Commands are compared by \<^verbatim>\<open>!=\<close> on interfaces, as values of comparable types (the tests use integers and strings); it would panic on others.
\<close>

fun checkLogs_loop :: "nat \<Rightarrow> 'v ApplyMsg \<Rightarrow> (int \<rightharpoonup> 'v iface) list \<Rightarrow> nat \<Rightarrow> apply_error \<Rightarrow> apply_error" where
  "checkLogs_loop i m [] j err_msg = err_msg"
| "checkLogs_loop i m (l # logs) j err_msg =
     checkLogs_loop i m logs (j + 1)
       (case l (am_CommandIndex m) of
          Some old \<Rightarrow> if old \<noteq> am_Command m then CommitMismatch (am_CommandIndex m) i j else err_msg
        | None \<Rightarrow> err_msg)"

definition checkLogs :: "nat \<Rightarrow> 'v ApplyMsg \<Rightarrow> 'v config \<Rightarrow> (apply_error \<times> bool \<times> 'v config) result" where
  "checkLogs i m cfg =
     (let err_msg = checkLogs_loop i m (cf_logs cfg) 0 NoError in
      bindE (slice_get (cf_logs cfg) i) (\<lambda>l.
      let prevok = (l (am_CommandIndex m - 1) \<noteq> None) in
      bindE (slice_set (cf_logs cfg) i (l(am_CommandIndex m \<mapsto> am_Command m))) (\<lambda>logs.
      let cfg = cfg\<lparr>cf_logs := logs\<rparr>;
          cfg = (if am_CommandIndex m > cf_maxIndex cfg then cfg\<lparr>cf_maxIndex := am_CommandIndex m\<rparr> else cfg)
      in Inr (err_msg, prevok, cfg))))"

text \<open>The part that \<^verbatim>\<open>applier\<close> and \<^verbatim>\<open>applierSnap\<close> share: \<^verbatim>\<open>log.Fatalf\<close> ends the program.\<close>

definition apply_command :: "nat \<Rightarrow> 'v ApplyMsg \<Rightarrow> 'v config \<Rightarrow> 'v config result" where
  "apply_command i m cfg =
     bindE (checkLogs i m cfg) (\<lambda>(err_msg, prevok, cfg).
     let err_msg = (if am_CommandIndex m > 1 \<and> prevok = False
                    then ApplyOutOfOrder i (am_CommandIndex m) else err_msg) in
     if err_msg \<noteq> NoError then Inl (Fatal ''apply error'') else Inr cfg)"

definition applier :: "nat \<Rightarrow> 'v ApplyMsg \<Rightarrow> 'v config \<Rightarrow> 'v config result" where
  "applier i m cfg = (if am_CommandValid m = False then Inr cfg else apply_command i m cfg)"

definition SnapShotInterval :: int where
  "SnapShotInterval = 10"

text \<open>
  \<open>dec\<close> decodes the integer a snapshot consists of, \<open>enc\<close> encodes the command at which one is taken.
  The last component of the state is \<^verbatim>\<open>lastApplied\<close>.
\<close>

definition applierSnap ::
    "(bytes \<Rightarrow> 'v iface option) \<Rightarrow> ('v iface \<Rightarrow> bytes) \<Rightarrow> nat \<Rightarrow> 'v ApplyMsg \<Rightarrow> 'v config \<times> int \<Rightarrow> ('v config \<times> int) result" where
  "applierSnap dec enc i m = (\<lambda>(cfg, lastApplied).
     if am_SnapshotValid m then
       bindE (slice_get (cf_rafts cfg) i) (\<lambda>rf.
       case rf of
         None \<Rightarrow> Inl NilDereference
       | Some a \<Rightarrow>
           (if CondInstallSnapshot (am_SnapshotTerm m) (am_SnapshotIndex m) (am_Snapshot m) (nw_objs (cf_net cfg) a) then
              (case dec (am_Snapshot m) of
                 None \<Rightarrow> Inl (Fatal ''decode error'')
               | Some v \<Rightarrow>
                   bindE (slice_set (cf_logs cfg) i [am_SnapshotIndex m \<mapsto> v]) (\<lambda>logs.
                   Inr (cfg\<lparr>cf_logs := logs\<rparr>, am_SnapshotIndex m)))
            else Inr (cfg, lastApplied)))
     else if am_CommandValid m \<and> am_CommandIndex m > lastApplied then
       bindE (apply_command i m cfg) (\<lambda>cfg.
       let lastApplied = am_CommandIndex m in
       if go_rem (am_CommandIndex m + 1) SnapShotInterval = 0 then
         bindE (slice_get (cf_rafts cfg) i) (\<lambda>rf.
         case rf of
           None \<Rightarrow> Inl NilDereference
         | Some a \<Rightarrow>
             (let net = cf_net cfg;
                  rf = Raft_Snapshot (am_CommandIndex m) (enc (am_Command m)) (nw_objs net a)
              in Inr (cfg\<lparr>cf_net := net\<lparr>nw_objs := (nw_objs net)(a := rf)\<rparr>\<rparr>, lastApplied)))
       else Inr (cfg, lastApplied))
     else Inr (cfg, lastApplied))"

text \<open>
  \<^verbatim>\<open>applyErr\<close> and \<^verbatim>\<open>logs\<close> are slices of the length of \<^verbatim>\<open>rafts\<close>, over which the loop runs.  The loop takes the lock anew for each peer; here the
  logs of all peers are read at one time.
\<close>

fun nCommitted_loop ::
    "int \<Rightarrow> (apply_error \<times> (int \<rightharpoonup> 'v iface)) list \<Rightarrow> nat \<Rightarrow> 'v iface \<Rightarrow> (nat \<times> 'v iface) result" where
  "nCommitted_loop index [] count cmd = Inr (count, cmd)"
| "nCommitted_loop index ((err, l) # rest) count cmd =
     (if err \<noteq> NoError then Inl (Fatal ''applyErr'')
      else
        (case l index of
           Some cmd1 \<Rightarrow>
             (if count > 0 \<and> cmd \<noteq> cmd1 then Inl (Fatal ''committed values do not match'')
              else nCommitted_loop index rest (count + 1) cmd1)
         | None \<Rightarrow> nCommitted_loop index rest count cmd))"

definition nCommitted :: "int \<Rightarrow> 'v config \<Rightarrow> (nat \<times> 'v iface) result" where
  "nCommitted index cfg =
     nCommitted_loop index (zip (cf_applyErr cfg) (cf_logs cfg)) 0 None"

section \<open>Leaders and terms\<close>

text \<open>\<open>gs i\<close> is what \<^verbatim>\<open>cfg.rafts[i].GetState()\<close> returns.\<close>

definition add_leader ::
    "(nat \<Rightarrow> int \<times> bool) \<Rightarrow> bool list \<Rightarrow> nat \<Rightarrow> (int \<times> nat list) list \<Rightarrow> (int \<times> nat list) list result" where
  "add_leader gs connected i leaders =
     bindE (slice_get connected i) (\<lambda>up.
     Inr (if up \<and> snd (gs i)
          then (let term = fst (gs i);
                    old = (case map_of leaders term of None \<Rightarrow> [] | Some l \<Rightarrow> l)
                in AList.update term (old @ [i]) leaders)
          else leaders))"

fun scan_leaders :: "(int \<times> nat list) list \<Rightarrow> int \<Rightarrow> int result" where
  "scan_leaders [] lastTermWithLeader = Inr lastTermWithLeader"
| "scan_leaders ((term, l) # rest) lastTermWithLeader =
     (if length l > 1 then Inl (Fatal ''term has more than one leader'')
      else scan_leaders rest (if term > lastTermWithLeader then term else lastTermWithLeader))"

fun checkOneLeader_loop :: "(nat \<Rightarrow> nat \<Rightarrow> int \<times> bool) \<Rightarrow> 'v config \<Rightarrow> nat list \<Rightarrow> nat result" where
  "checkOneLeader_loop gs cfg [] = Inl (Fatal ''expected one leader, got none'')"
| "checkOneLeader_loop gs cfg (iter # iters) =
     bindE (foldE (add_leader (gs iter) (cf_connected cfg)) [0..<cf_n cfg] []) (\<lambda>leaders.
     bindE (scan_leaders leaders (-1)) (\<lambda>lastTermWithLeader.
     if length leaders \<noteq> 0
     then slice_get (case map_of leaders lastTermWithLeader of None \<Rightarrow> [] | Some l \<Rightarrow> l) 0
     else checkOneLeader_loop gs cfg iters))"

definition checkOneLeader :: "(nat \<Rightarrow> nat \<Rightarrow> int \<times> bool) \<Rightarrow> 'v config \<Rightarrow> nat result" where
  "checkOneLeader gs cfg = checkOneLeader_loop gs cfg [0..<10]"

definition checkTerms :: "(nat \<Rightarrow> int \<times> bool) \<Rightarrow> 'v config \<Rightarrow> int result" where
  "checkTerms gs cfg =
     foldE (\<lambda>i term.
       bindE (slice_get (cf_connected cfg) i) (\<lambda>up.
       if up then
         (let xterm = fst (gs i) in
          if term = -1 then Inr xterm
          else if term \<noteq> xterm then Inl (Fatal ''servers disagree on term'')
          else Inr term)
       else Inr term)) [0..<cf_n cfg] (-1)"

definition checkNoLeader :: "(nat \<Rightarrow> int \<times> bool) \<Rightarrow> 'v config \<Rightarrow> unit result" where
  "checkNoLeader gs cfg =
     foldE (\<lambda>i u.
       bindE (slice_get (cf_connected cfg) i) (\<lambda>up.
       if up \<and> snd (gs i) then Inl (Fatal ''expected no leader'') else Inr ())) [0..<cf_n cfg] ()"

section \<open>Agreement\<close>

datatype 'v wait_result = MovedOn | Decided "'v iface"

text \<open>
  \<open>cfgs k\<close> is the configuration at the \<open>k\<close>-th look, \<open>terms k\<close> the terms of the peers after it.
\<close>

fun wait_loop ::
    "(nat \<Rightarrow> 'v config) \<Rightarrow> (nat \<Rightarrow> int list) \<Rightarrow> int \<Rightarrow> nat \<Rightarrow> int \<Rightarrow> nat list \<Rightarrow> nat \<Rightarrow> 'v wait_result result" where
  "wait_loop cfgs terms index n startTerm [] k =
     bindE (nCommitted index (cfgs k)) (\<lambda>(nd, cmd).
     if nd < n then Inl (Fatal ''only some decided'') else Inr (Decided cmd))"
| "wait_loop cfgs terms index n startTerm (iter # iters) k =
     bindE (nCommitted index (cfgs k)) (\<lambda>(nd, _).
     if nd \<ge> n then wait_loop cfgs terms index n startTerm [] (k + 1)
     else if startTerm > -1 \<and> (\<exists>t \<in> set (terms k). t > startTerm) then Inr MovedOn
     else wait_loop cfgs terms index n startTerm iters (k + 1))"

definition config_wait ::
    "(nat \<Rightarrow> 'v config) \<Rightarrow> (nat \<Rightarrow> int list) \<Rightarrow> int \<Rightarrow> nat \<Rightarrow> int \<Rightarrow> 'v wait_result result" where
  "config_wait cfgs terms index n startTerm = wait_loop cfgs terms index n startTerm [0..<30] 0"

text \<open>
  \<^verbatim>\<open>one\<close>: a round tries the peers in turn until one accepts the command, then looks at what has been
  committed until it sees the command or gives up.  A round is given by the configuration, what
  \<^verbatim>\<open>Start\<close> returns at each peer (index and success), and the configurations the inner loop sees.
\<close>

record 'v one_round =
  or_cfg :: "'v config"
  or_start :: "nat \<Rightarrow> int \<times> bool"
  or_looks :: "'v config list"

fun try_servers :: "'v config \<Rightarrow> (nat \<Rightarrow> int \<times> bool) \<Rightarrow> nat list \<Rightarrow> nat \<Rightarrow> (int \<times> nat) result" where
  "try_servers cfg st [] starts = Inr (-1, starts)"
| "try_servers cfg st (si # sis) starts =
     (let starts = (starts + 1) mod cf_n cfg in
      bindE (slice_get (cf_connected cfg) starts) (\<lambda>up.
      bindE (if up then slice_get (cf_rafts cfg) starts else Inr None) (\<lambda>rf.
      if rf \<noteq> None \<and> snd (st starts) then Inr (fst (st starts), starts)
      else try_servers cfg st sis starts)))"

fun await_commit :: "'v iface \<Rightarrow> nat \<Rightarrow> int \<Rightarrow> 'v config list \<Rightarrow> bool result" where
  "await_commit cmd expectedServers index [] = Inr False"
| "await_commit cmd expectedServers index (cfg # cfgs) =
     bindE (nCommitted index cfg) (\<lambda>(nd, cmd1).
     if nd > 0 \<and> nd \<ge> expectedServers \<and> cmd1 = cmd then Inr True
     else await_commit cmd expectedServers index cfgs)"

fun one_loop :: "'v iface \<Rightarrow> nat \<Rightarrow> bool \<Rightarrow> 'v one_round list \<Rightarrow> nat \<Rightarrow> int result" where
  "one_loop cmd expectedServers retry [] starts = Inl (Fatal ''one failed to reach agreement'')"
| "one_loop cmd expectedServers retry (r # rounds) starts =
     bindE (try_servers (or_cfg r) (or_start r) [0..<cf_n (or_cfg r)] starts) (\<lambda>(index, starts).
     if index \<noteq> -1 then
       bindE (await_commit cmd expectedServers index (or_looks r)) (\<lambda>done.
       if done then Inr index
       else if retry = False then Inl (Fatal ''one failed to reach agreement'')
       else one_loop cmd expectedServers retry rounds starts)
     else one_loop cmd expectedServers retry rounds starts)"

definition config_one :: "'v iface \<Rightarrow> nat \<Rightarrow> bool \<Rightarrow> 'v one_round list \<Rightarrow> int result" where
  "config_one cmd expectedServers retry rounds = one_loop cmd expectedServers retry rounds 0"

section \<open>Statistics\<close>

definition rpcTotal :: "'v config \<Rightarrow> int" where
  "rpcTotal cfg = GetTotalCount (cf_net cfg)"

definition rpcCount :: "'v config \<Rightarrow> nat \<Rightarrow> nat result" where
  "rpcCount cfg server = Network_GetCount (cf_net cfg) (ServerName server)"

definition setunreliable :: "bool \<Rightarrow> 'v config \<Rightarrow> 'v config" where
  "setunreliable unrel cfg = cfg\<lparr>cf_net := Reliable (\<not> unrel) (cf_net cfg)\<rparr>"

definition bytesTotal :: "'v config \<Rightarrow> int" where
  "bytesTotal cfg = GetTotalBytes (cf_net cfg)"

definition setlongreordering :: "bool \<Rightarrow> 'v config \<Rightarrow> 'v config" where
  "setlongreordering longrel cfg = cfg\<lparr>cf_net := LongReordering longrel (cf_net cfg)\<rparr>"

definition config_begin :: "'v config \<Rightarrow> 'v config" where
  "config_begin cfg =
     cfg\<lparr>cf_rpcs0 := rpcTotal cfg, cf_bytes0 := bytesTotal cfg, cf_cmds0 := 0, cf_maxIndex0 := cf_maxIndex cfg\<rparr>"

text \<open>The numbers that are printed, besides the time, when the test has not failed.\<close>

definition config_end :: "test_state \<Rightarrow> 'v config \<Rightarrow> (nat \<times> int \<times> int \<times> int) option result" where
  "config_end t cfg =
     bindE (checkTimeout t) (\<lambda>_.
     Inr (if ts_failed t = False
       then Some (cf_n cfg, rpcTotal cfg - cf_rpcs0 cfg, bytesTotal cfg - cf_bytes0 cfg, cf_maxIndex cfg - cf_maxIndex0 cfg)
       else None))"

definition LogSize :: "'v config \<Rightarrow> nat result" where
  "LogSize cfg =
     foldE (\<lambda>i logsize.
       bindE (slice_get (cf_saved cfg) i) (\<lambda>saved.
       case saved of
         None \<Rightarrow> Inl NilDereference
       | Some a \<Rightarrow>
           (let n = RaftStateSize (cf_persisters cfg a)
            in Inr (if n > logsize then n else logsize)))) [0..<cf_n cfg] 0"

end
