(* ===== verification/Raft_Config_Correct.thy ===== *)
theory Raft_Config_Correct
  imports Raft_Config
begin

text \<open>
  The invariant of the test configuration: names of ends are unique, an end is enabled exactly if
  both of its peers are connected, and leads to the peer it is meant for.  Connecting, disconnecting,
  crashing and starting a peer keep it; a crash keeps what the peer had saved, out of reach of the old
  instance.  What the appliers accept keeps the logs of all peers in agreement.
\<close>

section \<open>The invariant\<close>

definition row :: "'v config \<Rightarrow> nat \<Rightarrow> string list \<Rightarrow> bool" where
  "row cfg i es \<longleftrightarrow> i < cf_n cfg \<and> cf_endnames cfg ! i = Some es"

definition sizes_ok :: "'v config \<Rightarrow> bool" where
  "sizes_ok cfg \<longleftrightarrow>
     length (cf_rafts cfg) = cf_n cfg \<and> length (cf_applyErr cfg) = cf_n cfg \<and>
     length (cf_connected cfg) = cf_n cfg \<and> length (cf_saved cfg) = cf_n cfg \<and>
     length (cf_endnames cfg) = cf_n cfg \<and> length (cf_logs cfg) = cf_n cfg \<and>
     (\<forall>i es. row cfg i es \<longrightarrow> length es = cf_n cfg)"

definition names_ok :: "'v config \<Rightarrow> bool" where
  "names_ok cfg \<longleftrightarrow>
     (\<forall>i es j i' es' j'. row cfg i es \<and> row cfg i' es' \<and> j < cf_n cfg \<and> j' < cf_n cfg \<and>
        es ! j = es' ! j' \<longrightarrow> i = i' \<and> j = j') \<and>
     (\<forall>i es j. row cfg i es \<and> j < cf_n cfg \<longrightarrow> EndName (es ! j) \<in> nw_ends (cf_net cfg))"

definition links_ok :: "'v config \<Rightarrow> bool" where
  "links_ok cfg \<longleftrightarrow>
     (\<forall>i < cf_n cfg. cf_connected cfg ! i \<longrightarrow> cf_endnames cfg ! i \<noteq> None) \<and>
     (\<forall>i es j. row cfg i es \<and> j < cf_n cfg \<longrightarrow>
        nw_connections (cf_net cfg) (EndName (es ! j)) = Some (ServerName j) \<and>
        (nw_enabled (cf_net cfg) (EndName (es ! j)) \<longleftrightarrow> cf_connected cfg ! i \<and> cf_connected cfg ! j))"

definition config_inv :: "'v config \<Rightarrow> bool" where
  "config_inv cfg \<longleftrightarrow> sizes_ok cfg \<and> names_ok cfg \<and> links_ok cfg \<and>
     (\<forall>a. Some a \<in> set (cf_saved cfg) \<union> set (cf_rafts cfg) \<longrightarrow> a < cf_brk cfg)"

text \<open>Changes that only concern the network's switches and the flags.\<close>

definition same_shape :: "'v config \<Rightarrow> 'v config \<Rightarrow> bool" where
  "same_shape cfg cfg' \<longleftrightarrow>
     cfg' = cfg\<lparr>cf_net := cf_net cfg', cf_connected := cf_connected cfg'\<rparr> \<and>
     nw_ends (cf_net cfg') = nw_ends (cf_net cfg) \<and>
     nw_connections (cf_net cfg') = nw_connections (cf_net cfg) \<and>
     nw_servers (cf_net cfg') = nw_servers (cf_net cfg) \<and> nw_objs (cf_net cfg') = nw_objs (cf_net cfg) \<and>
     nw_store (cf_net cfg') = nw_store (cf_net cfg)"

lemma same_shape_fields:
  assumes "same_shape cfg cfg'"
  shows "cf_n cfg' = cf_n cfg" "cf_rafts cfg' = cf_rafts cfg" "cf_saved cfg' = cf_saved cfg"
    "cf_endnames cfg' = cf_endnames cfg" "cf_logs cfg' = cf_logs cfg" "cf_applyErr cfg' = cf_applyErr cfg"
    "cf_persisters cfg' = cf_persisters cfg" "cf_brk cfg' = cf_brk cfg" "row cfg' = row cfg"
proof -
  have eq: "cfg' = cfg\<lparr>cf_net := cf_net cfg', cf_connected := cf_connected cfg'\<rparr>" using assms by (simp add: same_shape_def)
  show "cf_n cfg' = cf_n cfg" "cf_rafts cfg' = cf_rafts cfg" "cf_saved cfg' = cf_saved cfg"
    "cf_endnames cfg' = cf_endnames cfg" "cf_logs cfg' = cf_logs cfg" "cf_applyErr cfg' = cf_applyErr cfg"
    "cf_persisters cfg' = cf_persisters cfg" "cf_brk cfg' = cf_brk cfg"
    by (subst eq, simp)+
  then show "row cfg' = row cfg" by (simp add: row_def fun_eq_iff)
qed

section \<open>Switching ends\<close>

definition switch_all :: "bool \<Rightarrow> string list \<Rightarrow> 'v config \<Rightarrow> 'v config" where
  "switch_all b es cfg = cfg\<lparr>cf_net := fold (\<lambda>e. Enable e b) (map EndName es) (cf_net cfg)\<rparr>"

lemma switch_all_simps [simp]:
  "switch_all b [] cfg = cfg" "switch_all b (e # es) cfg = switch_all b es (cf_enable e b cfg)"
  "cf_connected (switch_all b es cfg) = cf_connected cfg" "cf_endnames (switch_all b es cfg) = cf_endnames cfg"
  "cf_n (switch_all b es cfg) = cf_n cfg"
  by (simp_all add: switch_all_def cf_enable_def)

lemma switch_all_net:
  "nw_enabled (cf_net (switch_all b es cfg)) (EndName x) = (if x \<in> set es then b else nw_enabled (cf_net cfg) (EndName x))"
  "nw_connections (cf_net (switch_all b es cfg)) = nw_connections (cf_net cfg)"
  "nw_servers (cf_net (switch_all b es cfg)) = nw_servers (cf_net cfg)"
  by (auto simp: switch_all_def sw.enable_all)

lemma Enable_rest:
  "nw_ends (fold (\<lambda>e. Enable e b) es net) = nw_ends net" "nw_objs (fold (\<lambda>e. Enable e b) es net) = nw_objs net"
  "nw_store (fold (\<lambda>e. Enable e b) es net) = nw_store net"
  by (induction es arbitrary: net) (auto simp: Enable_def)

lemma switch_all_shape: "same_shape cfg (switch_all b es cfg)"
  by (simp add: same_shape_def switch_all_def sw.enable_all Enable_rest)

lemma endname_at_row: "row cfg i es \<Longrightarrow> sizes_ok cfg \<Longrightarrow> j < cf_n cfg \<Longrightarrow> endname_at cfg i j = Inr (es ! j)"
  by (auto simp: row_def sizes_ok_def endname_at_def)

lemma endname_at_enable [simp]: "endname_at (cf_enable e b cfg) = endname_at cfg"
  by (simp add: endname_at_def cf_enable_def fun_eq_iff)

lemma cf_enable_fields [simp]:
  "cf_connected (cf_enable e b cfg) = cf_connected cfg" "cf_endnames (cf_enable e b cfg) = cf_endnames cfg"
  "cf_n (cf_enable e b cfg) = cf_n cfg"
  by (simp_all add: cf_enable_def)

text \<open>The loops of \<^verbatim>\<open>connect\<close> and \<^verbatim>\<open>disconnect\<close>.\<close>

lemma connect_loop:
  assumes "\<forall>j \<in> set js. j < length (cf_connected cfg)"
    and "\<forall>j \<in> set js. cf_connected cfg ! j \<longrightarrow> endname_at cfg (a j) (b j) = Inr (nm j)"
  shows "foldE (\<lambda>j. connect_end (a j) (b j) j) js cfg =
    Inr (switch_all True (map nm (filter (\<lambda>j. cf_connected cfg ! j) js)) cfg)"
  using assms by (induction js arbitrary: cfg) (auto simp: connect_end_def)

lemma disconnect_loop:
  assumes "\<forall>j \<in> set js. a j < length (cf_endnames cfg)"
    and "\<forall>j \<in> set js. cf_endnames cfg ! a j \<noteq> None \<longrightarrow> endname_at cfg (a j) (b j) = Inr (nm j)"
  shows "foldE (\<lambda>j. disconnect_end (a j) (b j)) js cfg =
    Inr (switch_all False (map nm (filter (\<lambda>j. cf_endnames cfg ! a j \<noteq> None) js)) cfg)"
  using assms by (induction js arbitrary: cfg) (auto simp: disconnect_end_def)

text \<open>The name of the end from \<open>i\<close> to \<open>j\<close>.\<close>

definition ename :: "'v config \<Rightarrow> nat \<Rightarrow> nat \<Rightarrow> string" where
  "ename cfg i j = the (cf_endnames cfg ! i) ! j"

lemma row_ename: "row cfg i es \<Longrightarrow> es ! j = ename cfg i j"
  by (simp add: row_def ename_def)

lemma ename_at:
  assumes "sizes_ok cfg" "i < cf_n cfg" "j < cf_n cfg" "cf_endnames cfg ! i \<noteq> None"
  shows "endname_at cfg i j = Inr (ename cfg i j)" "row cfg i (the (cf_endnames cfg ! i))"
  using assms by (auto simp: endname_at_def sizes_ok_def row_def ename_def)

lemma ename_inj:
  assumes "sizes_ok cfg" "names_ok cfg" "i < cf_n cfg" "j < cf_n cfg" "i' < cf_n cfg" "j' < cf_n cfg"
    "cf_endnames cfg ! i \<noteq> None" "cf_endnames cfg ! i' \<noteq> None"
  shows "ename cfg i j = ename cfg i' j' \<longleftrightarrow> i = i' \<and> j = j'"
  using assms unfolding names_ok_def by (metis ename_at(2) row_ename)

lemma links_ok_ename:
  "sizes_ok cfg \<Longrightarrow> links_ok cfg \<longleftrightarrow>
     (\<forall>i < cf_n cfg. cf_connected cfg ! i \<longrightarrow> cf_endnames cfg ! i \<noteq> None) \<and>
     (\<forall>i < cf_n cfg. \<forall>j < cf_n cfg. cf_endnames cfg ! i \<noteq> None \<longrightarrow>
        nw_connections (cf_net cfg) (EndName (ename cfg i j)) = Some (ServerName j) \<and>
        (nw_enabled (cf_net cfg) (EndName (ename cfg i j)) \<longleftrightarrow> cf_connected cfg ! i \<and> cf_connected cfg ! j))"
  unfolding links_ok_def by (auto simp: row_ename) (metis ename_at(2) row_def row_ename)+

lemma same_shape_trans:
  assumes "same_shape a b" "same_shape b c"
  shows "same_shape a c"
proof -
  have b: "b = a\<lparr>cf_net := cf_net b, cf_connected := cf_connected b\<rparr>"
    and c: "c = b\<lparr>cf_net := cf_net c, cf_connected := cf_connected c\<rparr>"
    using assms by (simp_all add: same_shape_def)
  from arg_cong [OF b, of "\<lambda>x. x\<lparr>cf_net := cf_net c, cf_connected := cf_connected c\<rparr>"]
  have "b\<lparr>cf_net := cf_net c, cf_connected := cf_connected c\<rparr> = a\<lparr>cf_net := cf_net c, cf_connected := cf_connected c\<rparr>"
    by simp
  from trans [OF c this] show ?thesis using assms by (simp add: same_shape_def)
qed

lemma same_shape_set: "same_shape cfg (cfg\<lparr>cf_connected := c\<rparr>)"
  by (simp add: same_shape_def)

lemma same_shape_ename: "same_shape cfg cfg' \<Longrightarrow> ename cfg' = ename cfg"
  by (simp add: ename_def fun_eq_iff same_shape_fields)

lemma shape_inv:
  assumes inv: "config_inv cfg" and sh: "same_shape cfg cfg'" and c: "length (cf_connected cfg') = cf_n cfg"
    and rows: "\<forall>i < cf_n cfg. cf_connected cfg' ! i \<longrightarrow> cf_endnames cfg ! i \<noteq> None"
    and en: "\<forall>i < cf_n cfg. \<forall>j < cf_n cfg. cf_endnames cfg ! i \<noteq> None \<longrightarrow>
      (nw_enabled (cf_net cfg') (EndName (ename cfg i j)) \<longleftrightarrow> cf_connected cfg' ! i \<and> cf_connected cfg' ! j)"
  shows "config_inv cfg'"
proof -
  note f = same_shape_fields [OF sh] same_shape_ename [OF sh]
  have net: "nw_ends (cf_net cfg') = nw_ends (cf_net cfg)" "nw_connections (cf_net cfg') = nw_connections (cf_net cfg)"
    using sh by (simp_all add: same_shape_def)
  have s: "sizes_ok cfg'" using inv c by (simp add: config_inv_def sizes_ok_def f)
  have "names_ok cfg'" using inv unfolding config_inv_def names_ok_def f net by blast
  moreover have "links_ok cfg'"
    using inv rows en links_ok_ename [of cfg] unfolding links_ok_ename [OF s] by (simp add: config_inv_def f net)
  ultimately show ?thesis using inv s by (simp add: config_inv_def f)
qed

section \<open>Connect and disconnect\<close>

lemma config_connect_eq:
  assumes inv: "config_inv cfg" and i: "i < cf_n cfg" "cf_endnames cfg ! i \<noteq> None"
  defines "c \<equiv> (cf_connected cfg)[i := True]"
  shows "config_connect i cfg = Inr
    (switch_all True (map (\<lambda>j. ename cfg j i) (filter (\<lambda>j. c ! j) [0..<cf_n cfg]))
      (switch_all True (map (\<lambda>j. ename cfg i j) (filter (\<lambda>j. c ! j) [0..<cf_n cfg])) (cfg\<lparr>cf_connected := c\<rparr>)))"
proof -
  have sz: "sizes_ok cfg" and lk: "links_ok cfg" using inv by (simp_all add: config_inv_def)
  have len: "length (cf_connected cfg) = cf_n cfg" using sz by (simp add: sizes_ok_def)
  have rows: "c ! j \<Longrightarrow> j < cf_n cfg \<Longrightarrow> cf_endnames cfg ! j \<noteq> None" for j
    using lk i len by (cases "j = i") (auto simp: c_def links_ok_def)
  let ?cfg = "cfg\<lparr>cf_connected := c\<rparr>"
  have at: "j < cf_n cfg \<Longrightarrow> k < cf_n cfg \<Longrightarrow> cf_endnames cfg ! j \<noteq> None \<Longrightarrow> endname_at ?cfg j k = Inr (ename cfg j k)" for j k
    using ename_at(1) [OF sz] by (simp add: endname_at_def)
  have len': "length c = cf_n cfg" using len by (simp add: c_def)
  have out: "foldE (\<lambda>j. connect_end i j j) [0..<cf_n cfg] ?cfg =
      Inr (switch_all True (map (\<lambda>j. ename cfg i j) (filter (\<lambda>j. c ! j) [0..<cf_n cfg])) ?cfg)"
    using connect_loop [of "[0..<cf_n cfg]" ?cfg "\<lambda>_. i" "\<lambda>j. j" "\<lambda>j. ename cfg i j"] at i len' by simp
  let ?cfg2 = "switch_all True (map (\<lambda>j. ename cfg i j) (filter (\<lambda>j. c ! j) [0..<cf_n cfg])) ?cfg"
  have at2: "endname_at ?cfg2 = endname_at ?cfg" by (simp add: endname_at_def fun_eq_iff)
  have "foldE (\<lambda>j. connect_end j i j) [0..<cf_n cfg] ?cfg2 =
      Inr (switch_all True (map (\<lambda>j. ename cfg j i) (filter (\<lambda>j. c ! j) [0..<cf_n cfg])) ?cfg2)"
    using connect_loop [of "[0..<cf_n cfg]" ?cfg2 "\<lambda>j. j" "\<lambda>_. i" "\<lambda>j. ename cfg j i"] at rows i len' by (simp add: at2)
  then show ?thesis using out i len by (simp add: config_connect_def c_def)
qed

lemma config_connect_ok:
  assumes inv: "config_inv cfg" and i: "i < cf_n cfg" "cf_endnames cfg ! i \<noteq> None"
  shows "\<exists>cfg'. config_connect i cfg = Inr cfg' \<and> config_inv cfg' \<and> same_shape cfg cfg' \<and>
    cf_connected cfg' = (cf_connected cfg)[i := True]"
proof -
  let ?c = "(cf_connected cfg)[i := True]"
  let ?mid = "switch_all True (map (\<lambda>j. ename cfg i j) (filter (\<lambda>j. ?c ! j) [0..<cf_n cfg])) (cfg\<lparr>cf_connected := ?c\<rparr>)"
  let ?cfg = "switch_all True (map (\<lambda>j. ename cfg j i) (filter (\<lambda>j. ?c ! j) [0..<cf_n cfg])) ?mid"
  have sz: "sizes_ok cfg" and nm: "names_ok cfg" and lk: "links_ok cfg" using inv by (simp_all add: config_inv_def)
  have len: "length (cf_connected cfg) = cf_n cfg" using sz by (simp add: sizes_ok_def)
  note lk' = lk [unfolded links_ok_ename [OF sz]]
  have rows: "?c ! j \<Longrightarrow> j < cf_n cfg \<Longrightarrow> cf_endnames cfg ! j \<noteq> None" for j
    using lk' i len by (cases "j = i") auto
  have sh: "same_shape cfg ?cfg"
    by (rule same_shape_trans [OF same_shape_set same_shape_trans [OF switch_all_shape switch_all_shape]])
  have "config_inv ?cfg"
  proof (rule shape_inv [OF inv sh])
    show "\<forall>a < cf_n cfg. \<forall>b < cf_n cfg. cf_endnames cfg ! a \<noteq> None \<longrightarrow>
        (nw_enabled (cf_net ?cfg) (EndName (ename cfg a b)) \<longleftrightarrow> cf_connected ?cfg ! a \<and> cf_connected ?cfg ! b)"
    proof (intro allI impI)
      fix a b assume ab: "a < cf_n cfg" "b < cf_n cfg" "cf_endnames cfg ! a \<noteq> None"
      have o: "ename cfg a b \<in> set (map (\<lambda>j. ename cfg i j) (filter (\<lambda>j. ?c ! j) [0..<cf_n cfg])) \<longleftrightarrow> a = i \<and> ?c ! b"
        using ename_inj [OF sz nm ab(1,2) i(1) _ ab(3) i(2)] ab(2) by auto
      have n: "ename cfg a b \<in> set (map (\<lambda>j. ename cfg j i) (filter (\<lambda>j. ?c ! j) [0..<cf_n cfg])) \<longleftrightarrow> b = i \<and> ?c ! a"
      proof -
        have "ename cfg a b = ename cfg x i \<longleftrightarrow> a = x \<and> b = i" if "x < cf_n cfg" "?c ! x" for x
          using ename_inj [OF sz nm ab(1,2) that(1) i(1) ab(3)] rows that by blast
        then show ?thesis using ab(1) by (auto simp: image_iff)
      qed
      have old: "nw_enabled (cf_net cfg) (EndName (ename cfg a b)) \<longleftrightarrow> cf_connected cfg ! a \<and> cf_connected cfg ! b"
        using lk' ab by blast
      show "nw_enabled (cf_net ?cfg) (EndName (ename cfg a b)) \<longleftrightarrow> cf_connected ?cfg ! a \<and> cf_connected ?cfg ! b"
        unfolding switch_all_net o n using old i len ab by (auto simp: nth_list_update)
    qed
  qed (use rows len in auto)
  then show ?thesis using config_connect_eq [OF inv i] sh by simp
qed

lemma config_disconnect_eq:
  assumes inv: "config_inv cfg" and i: "i < cf_n cfg"
  defines "c \<equiv> (cf_connected cfg)[i := False]"
  shows "config_disconnect i cfg = Inr
    (switch_all False (map (\<lambda>j. ename cfg j i) (filter (\<lambda>j. cf_endnames cfg ! j \<noteq> None) [0..<cf_n cfg]))
      (switch_all False (map (\<lambda>j. ename cfg i j) (filter (\<lambda>j. cf_endnames cfg ! i \<noteq> None) [0..<cf_n cfg]))
        (cfg\<lparr>cf_connected := c\<rparr>)))"
proof -
  have sz: "sizes_ok cfg" using inv by (simp add: config_inv_def)
  have len: "length (cf_connected cfg) = cf_n cfg" "length (cf_endnames cfg) = cf_n cfg" using sz by (simp_all add: sizes_ok_def)
  let ?cfg = "cfg\<lparr>cf_connected := c\<rparr>"
  have at: "j < cf_n cfg \<Longrightarrow> k < cf_n cfg \<Longrightarrow> cf_endnames cfg ! j \<noteq> None \<Longrightarrow> endname_at ?cfg j k = Inr (ename cfg j k)" for j k
    using ename_at(1) [OF sz] by (simp add: endname_at_def)
  define cfg2 where
    "cfg2 = switch_all False (map (\<lambda>j. ename cfg i j) (filter (\<lambda>j. cf_endnames cfg ! i \<noteq> None) [0..<cf_n cfg])) ?cfg"
  have out: "foldE (\<lambda>j. disconnect_end i j) [0..<cf_n cfg] ?cfg = Inr cfg2"
    using disconnect_loop [of "[0..<cf_n cfg]" "\<lambda>_. i" ?cfg "\<lambda>j. j" "\<lambda>j. ename cfg i j"] at i len by (simp add: cfg2_def)
  have at2: "endname_at cfg2 = endname_at ?cfg" "cf_endnames cfg2 = cf_endnames cfg" "cf_n cfg2 = cf_n cfg"
    by (simp_all add: endname_at_def fun_eq_iff cfg2_def)
  have "foldE (\<lambda>j. disconnect_end j i) [0..<cf_n cfg] cfg2 =
      Inr (switch_all False (map (\<lambda>j. ename cfg j i) (filter (\<lambda>j. cf_endnames cfg ! j \<noteq> None) [0..<cf_n cfg])) cfg2)"
    using disconnect_loop [of "[0..<cf_n cfg]" "\<lambda>j. j" cfg2 "\<lambda>_. i" "\<lambda>j. ename cfg j i"] at i len by (simp add: at2)
  then show ?thesis using out at2(3) i len unfolding cfg2_def by (simp add: config_disconnect_def c_def)
qed

lemma config_disconnect_ok:
  assumes inv: "config_inv cfg" and i: "i < cf_n cfg"
  shows "\<exists>cfg'. config_disconnect i cfg = Inr cfg' \<and> config_inv cfg' \<and> same_shape cfg cfg' \<and>
    cf_connected cfg' = (cf_connected cfg)[i := False]"
proof -
  let ?c = "(cf_connected cfg)[i := False]"
  let ?out = "map (\<lambda>j. ename cfg i j) (filter (\<lambda>j. cf_endnames cfg ! i \<noteq> None) [0..<cf_n cfg])"
  let ?in = "map (\<lambda>j. ename cfg j i) (filter (\<lambda>j. cf_endnames cfg ! j \<noteq> None) [0..<cf_n cfg])"
  let ?cfg = "switch_all False ?in (switch_all False ?out (cfg\<lparr>cf_connected := ?c\<rparr>))"
  have sz: "sizes_ok cfg" and nm: "names_ok cfg" and lk: "links_ok cfg" using inv by (simp_all add: config_inv_def)
  have len: "length (cf_connected cfg) = cf_n cfg" using sz by (simp add: sizes_ok_def)
  note lk' = lk [unfolded links_ok_ename [OF sz]]
  have sh: "same_shape cfg ?cfg"
    by (rule same_shape_trans [OF same_shape_set same_shape_trans [OF switch_all_shape switch_all_shape]])
  have "config_inv ?cfg"
  proof (rule shape_inv [OF inv sh])
    show "\<forall>a < cf_n cfg. cf_connected ?cfg ! a \<longrightarrow> cf_endnames cfg ! a \<noteq> None"
      using lk' len i by (auto simp: nth_list_update split: if_splits)
    show "\<forall>a < cf_n cfg. \<forall>b < cf_n cfg. cf_endnames cfg ! a \<noteq> None \<longrightarrow>
        (nw_enabled (cf_net ?cfg) (EndName (ename cfg a b)) \<longleftrightarrow> cf_connected ?cfg ! a \<and> cf_connected ?cfg ! b)"
    proof (intro allI impI)
      fix a b assume ab: "a < cf_n cfg" "b < cf_n cfg" "cf_endnames cfg ! a \<noteq> None"
      have o: "ename cfg a b \<in> set ?out \<longleftrightarrow> a = i"
      proof -
        have "ename cfg a b = ename cfg i x \<longleftrightarrow> a = i \<and> b = x" if "x < cf_n cfg" "cf_endnames cfg ! i \<noteq> None" for x
          by (rule ename_inj [OF sz nm ab(1,2) i that(1) ab(3) that(2)])
        then show ?thesis using ab(2,3) by (auto simp: image_iff)
      qed
      have n: "ename cfg a b \<in> set ?in \<longleftrightarrow> b = i"
      proof -
        have "ename cfg a b = ename cfg x i \<longleftrightarrow> a = x \<and> b = i" if "x < cf_n cfg" "cf_endnames cfg ! x \<noteq> None" for x
          by (rule ename_inj [OF sz nm ab(1,2) that(1) i ab(3) that(2)])
        then show ?thesis using ab(1,3) by (auto simp: image_iff)
      qed
      have old: "nw_enabled (cf_net cfg) (EndName (ename cfg a b)) \<longleftrightarrow> cf_connected cfg ! a \<and> cf_connected cfg ! b"
        using lk' ab by blast
      show "nw_enabled (cf_net ?cfg) (EndName (ename cfg a b)) \<longleftrightarrow> cf_connected ?cfg ! a \<and> cf_connected ?cfg ! b"
        unfolding switch_all_net o n using old i len ab by (auto simp: nth_list_update)
    qed
  qed (use len in simp)
  then show ?thesis using config_disconnect_eq [OF inv i] sh by simp
qed

section \<open>Crash\<close>

text \<open>What is saved for peer \<open>i\<close>, read through the configuration's pointer.\<close>

definition saved_contents :: "'v config \<Rightarrow> nat \<Rightarrow> (bytes \<times> bytes) option" where
  "saved_contents cfg i =
     map_option (\<lambda>a. (ReadRaftState (cf_persisters cfg a), ReadSnapshot (cf_persisters cfg a))) (cf_saved cfg ! i)"

text \<open>Persisters that existed before keep their contents, and everything new has a new address.\<close>

definition grows :: "'v config \<Rightarrow> 'v config \<Rightarrow> bool" where
  "grows cfg cfg' \<longleftrightarrow> cf_brk cfg \<le> cf_brk cfg' \<and> (\<forall>a < cf_brk cfg. cf_persisters cfg' a = cf_persisters cfg a)"

lemma grows_trans: "grows a b \<Longrightarrow> grows b c \<Longrightarrow> grows a c"
  by (auto simp: grows_def)

lemma save_persister_ok:
  assumes inv: "config_inv cfg" and i: "i < cf_n cfg"
  shows "\<exists>cfg'. save_persister i p cfg = Inr cfg' \<and> config_inv cfg' \<and> grows cfg cfg' \<and>
    cf_saved cfg' = (cf_saved cfg)[i := Some (cf_brk cfg)] \<and> cf_persisters cfg' (cf_brk cfg) = p \<and>
    cf_net cfg' = cf_net cfg \<and> cf_connected cfg' = cf_connected cfg \<and> cf_rafts cfg' = cf_rafts cfg \<and>
    cf_n cfg' = cf_n cfg \<and> cf_endnames cfg' = cf_endnames cfg \<and> cf_logs cfg' = cf_logs cfg"
proof -
  let ?cfg = "cfg\<lparr>cf_persisters := (cf_persisters cfg)(cf_brk cfg := p), cf_brk := Suc (cf_brk cfg),
    cf_saved := (cf_saved cfg)[i := Some (cf_brk cfg)]\<rparr>"
  have len: "length (cf_saved cfg) = cf_n cfg" using inv by (simp add: config_inv_def sizes_ok_def)
  have eq: "save_persister i p cfg = Inr ?cfg" using i len by (simp add: save_persister_def new_persister_def)
  have rows: "row ?cfg = row cfg" by (simp add: row_def fun_eq_iff)
  have "config_inv ?cfg"
    using inv set_update_subset_insert [of "cf_saved cfg" i "Some (cf_brk cfg)"] unfolding config_inv_def sizes_ok_def names_ok_def links_ok_def rows
    by (auto simp: less_Suc_eq)
  then show ?thesis using eq by (simp add: grows_def)
qed

lemma kill_raft_fields [simp]:
  "cf_rafts (kill_raft a cfg) = cf_rafts cfg" "cf_saved (kill_raft a cfg) = cf_saved cfg"
  "cf_n (kill_raft a cfg) = cf_n cfg" "cf_connected (kill_raft a cfg) = cf_connected cfg"
  "cf_endnames (kill_raft a cfg) = cf_endnames cfg" "cf_persisters (kill_raft a cfg) = cf_persisters cfg"
  "cf_brk (kill_raft a cfg) = cf_brk cfg" "cf_logs (kill_raft a cfg) = cf_logs cfg"
  "nw_servers (cf_net (kill_raft a cfg)) = nw_servers (cf_net cfg)"
  "nw_objs (cf_net (kill_raft a cfg)) = (nw_objs (cf_net cfg))(a := Raft_Kill (nw_objs (cf_net cfg) a))"
  by (simp_all add: kill_raft_def Let_def)

lemma kill_raft_inv:
  assumes inv: "config_inv cfg" and i: "i < cf_n cfg"
  shows "config_inv ((kill_raft a cfg)\<lparr>cf_rafts := (cf_rafts cfg)[i := None]\<rparr>)"
proof -
  let ?cfg = "(kill_raft a cfg)\<lparr>cf_rafts := (cf_rafts cfg)[i := None]\<rparr>"
  have rows: "row ?cfg = row cfg" by (simp add: row_def fun_eq_iff)
  have net: "nw_ends (cf_net ?cfg) = nw_ends (cf_net cfg)" "nw_enabled (cf_net ?cfg) = nw_enabled (cf_net cfg)"
    "nw_connections (cf_net ?cfg) = nw_connections (cf_net cfg)"
    by (simp_all add: kill_raft_def Let_def)
  show ?thesis
    using inv set_update_subset_insert [of "cf_rafts cfg" i None]
    unfolding config_inv_def sizes_ok_def names_ok_def links_ok_def rows net
    by (auto simp: kill_raft_def Let_def)
qed

lemma delete_inv:
  assumes "config_inv cfg"
  shows "config_inv (cfg\<lparr>cf_net := DeleteServer s (cf_net cfg)\<rparr>)"
proof -
  let ?cfg = "cfg\<lparr>cf_net := DeleteServer s (cf_net cfg)\<rparr>"
  have rows: "row ?cfg = row cfg" by (simp add: row_def fun_eq_iff)
  have net: "nw_ends (cf_net ?cfg) = nw_ends (cf_net cfg)" "nw_enabled (cf_net ?cfg) = nw_enabled (cf_net cfg)"
    "nw_connections (cf_net ?cfg) = nw_connections (cf_net cfg)"
    by (simp_all add: DeleteServer_def)
  show ?thesis using assms unfolding config_inv_def sizes_ok_def names_ok_def links_ok_def rows net by auto
qed

text \<open>
  The second half of a crash: the contents move to a persister at an address that did not exist
  before.
\<close>

definition crash_tail :: "nat \<Rightarrow> 'v config \<Rightarrow> 'v config result" where
  "crash_tail i cfg =
     bindE (slice_get (cf_saved cfg) i) (\<lambda>saved.
     case saved of
       None \<Rightarrow> Inr cfg
     | Some a \<Rightarrow>
         save_persister i (SaveStateAndSnapshot (ReadRaftState (cf_persisters cfg a))
           (ReadSnapshot (cf_persisters cfg a)) MakePersister) cfg)"

definition crash_kill :: "nat \<Rightarrow> 'v config \<Rightarrow> 'v config result" where
  "crash_kill i cfg =
     bindE (slice_get (cf_rafts cfg) i) (\<lambda>rf.
     case rf of
       None \<Rightarrow> Inr cfg
     | Some r \<Rightarrow> bindE (slice_set (cf_rafts cfg) i None) (\<lambda>rs. Inr ((kill_raft r cfg)\<lparr>cf_rafts := rs\<rparr>)))"

definition crash_copy :: "nat \<Rightarrow> 'v config \<Rightarrow> 'v config result" where
  "crash_copy i cfg =
     bindE (slice_get (cf_saved cfg) i) (\<lambda>saved.
     case saved of None \<Rightarrow> Inr cfg | Some a \<Rightarrow> save_persister i (Persister_Copy (cf_persisters cfg a)) cfg)"

lemma bindE_assoc: "bindE (bindE r f) g = bindE r (\<lambda>x. bindE (f x) g)"
  by (cases r) auto

lemma crash1_split:
  "crash1 i cfg = bindE (config_disconnect i cfg) (\<lambda>cfg.
     bindE (crash_copy i (cfg\<lparr>cf_net := DeleteServer (ServerName i) (cf_net cfg)\<rparr>)) (\<lambda>cfg.
     bindE (crash_kill i cfg) (crash_tail i)))"
  unfolding crash1_def crash_copy_def crash_kill_def crash_tail_def bindE_assoc Let_def
  by (auto simp: fun_eq_iff intro!: arg_cong2 [where f = bindE] split: option.splits)

definition keeps_saved :: "nat \<Rightarrow> 'v config \<Rightarrow> 'v config \<Rightarrow> bool" where
  "keeps_saved i cfg cfg' \<longleftrightarrow>
     config_inv cfg' \<and> grows cfg cfg' \<and> cf_n cfg' = cf_n cfg \<and> saved_contents cfg' i = saved_contents cfg i \<and>
     cf_connected cfg' = cf_connected cfg \<and> cf_endnames cfg' = cf_endnames cfg \<and> cf_logs cfg' = cf_logs cfg \<and>
     (\<forall>a. cf_saved cfg' ! i = Some a \<longrightarrow> cf_saved cfg ! i \<noteq> None)"

lemma crash_copy_ok:
  assumes inv: "config_inv cfg" and i: "i < cf_n cfg"
  shows "\<exists>cfg'. crash_copy i cfg = Inr cfg' \<and> keeps_saved i cfg cfg' \<and> cf_net cfg' = cf_net cfg \<and> cf_rafts cfg' = cf_rafts cfg"
proof -
  have len: "length (cf_saved cfg) = cf_n cfg" using inv by (simp add: config_inv_def sizes_ok_def)
  show ?thesis
  proof (cases "cf_saved cfg ! i")
    case None
    then show ?thesis using inv i len by (simp add: crash_copy_def keeps_saved_def grows_def)
  next
    case (Some a)
    then show ?thesis
      using save_persister_ok [OF inv i, of "Persister_Copy (cf_persisters cfg a)"] i len ps.copy_laws
      by (auto simp: crash_copy_def keeps_saved_def saved_contents_def)
  qed
qed

lemma crash_tail_ok:
  assumes inv: "config_inv cfg" and i: "i < cf_n cfg"
  shows "\<exists>cfg'. crash_tail i cfg = Inr cfg' \<and> keeps_saved i cfg cfg' \<and> cf_net cfg' = cf_net cfg \<and>
    cf_rafts cfg' = cf_rafts cfg \<and> (\<forall>a. cf_saved cfg' ! i = Some a \<longrightarrow> cf_brk cfg \<le> a)"
proof -
  have len: "length (cf_saved cfg) = cf_n cfg" using inv by (simp add: config_inv_def sizes_ok_def)
  show ?thesis
  proof (cases "cf_saved cfg ! i")
    case None
    then show ?thesis using inv i len by (simp add: crash_tail_def keeps_saved_def grows_def)
  next
    case (Some a)
    then show ?thesis
      using save_persister_ok [OF inv i, of "SaveStateAndSnapshot (ReadRaftState (cf_persisters cfg a))
          (ReadSnapshot (cf_persisters cfg a)) MakePersister"] i len ps.saveBoth_laws
      by (auto simp: crash_tail_def keeps_saved_def saved_contents_def)
  qed
qed

lemma crash_kill_ok:
  assumes inv: "config_inv cfg" and i: "i < cf_n cfg"
  shows "\<exists>cfg'. crash_kill i cfg = Inr cfg' \<and> keeps_saved i cfg cfg' \<and> cf_rafts cfg' = (cf_rafts cfg)[i := None] \<and>
    nw_servers (cf_net cfg') = nw_servers (cf_net cfg) \<and> nw_ends (cf_net cfg') = nw_ends (cf_net cfg) \<and>
    (\<forall>r. cf_rafts cfg ! i = Some r \<longrightarrow> killed (nw_objs (cf_net cfg') r))"
proof -
  have len: "length (cf_rafts cfg) = cf_n cfg" using inv by (simp add: config_inv_def sizes_ok_def)
  show ?thesis
  proof (cases "cf_rafts cfg ! i")
    case None
    then have "(cf_rafts cfg)[i := None] = cf_rafts cfg" by (metis list_update_id)
    then show ?thesis using None inv i len by (simp add: crash_kill_def keeps_saved_def grows_def)
  next
    case (Some r)
    then show ?thesis
      using kill_raft_inv [OF inv i, of r] i len
      by (simp add: crash_kill_def keeps_saved_def grows_def saved_contents_def killed_def Raft_Kill_def kill_raft_def Let_def)
  qed
qed

definition crashed :: "nat \<Rightarrow> 'v config \<Rightarrow> 'v config \<Rightarrow> bool" where
  "crashed i cfg cfg' \<longleftrightarrow>
     config_inv cfg' \<and> grows cfg cfg' \<and> cf_n cfg' = cf_n cfg \<and> saved_contents cfg' i = saved_contents cfg i \<and>
     cf_connected cfg' = (cf_connected cfg)[i := False] \<and> cf_endnames cfg' = cf_endnames cfg \<and>
     cf_logs cfg' = cf_logs cfg \<and> cf_rafts cfg' = (cf_rafts cfg)[i := None] \<and>
     nw_servers (cf_net cfg') = (nw_servers (cf_net cfg))(ServerName i := None) \<and>
     nw_ends (cf_net cfg') = nw_ends (cf_net cfg) \<and>
     (\<forall>r. cf_rafts cfg ! i = Some r \<longrightarrow> killed (nw_objs (cf_net cfg') r)) \<and>
     (\<forall>a. cf_saved cfg' ! i = Some a \<longrightarrow> cf_brk cfg \<le> a)"

lemma crash1_ok:
  assumes inv: "config_inv cfg" and i: "i < cf_n cfg"
  shows "\<exists>cfg'. crash1 i cfg = Inr cfg' \<and> crashed i cfg cfg'"
proof -
  obtain c1 where c1: "config_disconnect i cfg = Inr c1" "config_inv c1" "same_shape cfg c1"
      "cf_connected c1 = (cf_connected cfg)[i := False]"
    using config_disconnect_ok [OF inv i] by blast
  note f1 = same_shape_fields [OF c1(3)]
  have sv: "nw_servers (cf_net c1) = nw_servers (cf_net cfg)" using c1(3) by (simp add: same_shape_def)
  let ?c1 = "c1\<lparr>cf_net := DeleteServer (ServerName i) (cf_net c1)\<rparr>"
  have inv1: "config_inv ?c1" and i1: "i < cf_n ?c1" using delete_inv [OF c1(2)] i f1 by simp_all
  obtain c2 where c2: "crash_copy i ?c1 = Inr c2" "keeps_saved i ?c1 c2" "cf_net c2 = cf_net ?c1" "cf_rafts c2 = cf_rafts ?c1"
    using crash_copy_ok [OF inv1 i1] by blast
  then have inv2: "config_inv c2" and i2: "i < cf_n c2" using i1 by (simp_all add: keeps_saved_def)
  obtain c3 where c3: "crash_kill i c2 = Inr c3" "keeps_saved i c2 c3" "cf_rafts c3 = (cf_rafts c2)[i := None]"
      "nw_servers (cf_net c3) = nw_servers (cf_net c2)" "nw_ends (cf_net c3) = nw_ends (cf_net c2)" "\<forall>r. cf_rafts c2 ! i = Some r \<longrightarrow> killed (nw_objs (cf_net c3) r)"
    using crash_kill_ok [OF inv2 i2] by blast
  then have inv3: "config_inv c3" and i3: "i < cf_n c3" using i2 by (simp_all add: keeps_saved_def)
  obtain c4 where c4: "crash_tail i c3 = Inr c4" "keeps_saved i c3 c4" "cf_net c4 = cf_net c3" "cf_rafts c4 = cf_rafts c3"
      "\<forall>a. cf_saved c4 ! i = Some a \<longrightarrow> cf_brk c3 \<le> a"
    using crash_tail_ok [OF inv3 i3] by blast
  have run: "crash1 i cfg = Inr c4" using c1(1) c2(1) c3(1) c4(1) by (simp add: crash1_split)
  have "grows cfg ?c1" by (simp add: grows_def f1)
  moreover have "grows ?c1 c2" "grows c2 c3" "grows c3 c4" using c2(2) c3(2) c4(2) by (simp_all add: keeps_saved_def)
  ultimately have g3: "grows cfg c3" and g: "grows cfg c4" using grows_trans by blast+
  have "saved_contents ?c1 i = saved_contents cfg i" by (simp add: saved_contents_def f1)
  then have s: "saved_contents c4 i = saved_contents cfg i" using c2(2) c3(2) c4(2) by (simp add: keeps_saved_def)
  have rest: "config_inv c4" "cf_n c4 = cf_n cfg" "cf_connected c4 = (cf_connected cfg)[i := False]"
    "cf_endnames c4 = cf_endnames cfg" "cf_logs c4 = cf_logs cfg"
    using c1(4) c2(2) c3(2) c4(2) by (simp_all add: keeps_saved_def f1)
  have "nw_servers (cf_net c4) = (nw_servers (cf_net cfg))(ServerName i := None)"
    using c2(3) c3(4) c4(3) sv by (simp add: sw.laws)
  moreover have "nw_ends (cf_net c4) = nw_ends (cf_net cfg)"
    using c1(3) c2(3) c3(5) c4(3) by (simp add: same_shape_def DeleteServer_def)
  moreover have "cf_rafts c4 = (cf_rafts cfg)[i := None]" using c2(4) c3(3) c4(4) by (simp add: f1)
  moreover have "\<forall>r. cf_rafts cfg ! i = Some r \<longrightarrow> killed (nw_objs (cf_net c4) r)"
    using c2(4) c3(6) c4(3) by (simp add: f1)
  moreover have "\<forall>a. cf_saved c4 ! i = Some a \<longrightarrow> cf_brk cfg \<le> a"
    using c4(5) g3 by (auto simp: grows_def)
  ultimately show ?thesis using run rest g s unfolding crashed_def by blast
qed

section \<open>Start\<close>

text \<open>The names drawn are new and different from each other.\<close>

definition fresh_names :: "'v config \<Rightarrow> string list \<Rightarrow> bool" where
  "fresh_names cfg names \<longleftrightarrow> length names = cf_n cfg \<and> distinct names \<and>
     (\<forall>e \<in> set names. EndName e \<notin> nw_ends (cf_net cfg))"

definition with_ends :: "string list \<Rightarrow> nat list \<Rightarrow> (name, 'v, 'r) network \<Rightarrow> (name, 'v, 'r) network \<Rightarrow> bool" where
  "with_ends names js net net' \<longleftrightarrow>
     nw_ends net' = nw_ends net \<union> (\<lambda>j. EndName (names ! j)) ` set js \<and>
     nw_enabled net' = (\<lambda>e. if e \<in> (\<lambda>j. EndName (names ! j)) ` set js then False else nw_enabled net e) \<and>
     (\<forall>j \<in> set js. nw_connections net' (EndName (names ! j)) = Some (ServerName j)) \<and>
     (\<forall>e. e \<notin> (\<lambda>j. EndName (names ! j)) ` set js \<longrightarrow> nw_connections net' e = nw_connections net e) \<and>
     nw_servers net' = nw_servers net \<and> nw_objs net' = nw_objs net \<and> nw_store net' = nw_store net"

lemma make_end_loop:
  assumes "k \<le> length names" "distinct names" "\<forall>e \<in> set names. EndName e \<notin> nw_ends (cf_net cfg)"
  shows "\<exists>net. foldE (make_end names) [0..<k] cfg = Inr (cfg\<lparr>cf_net := net\<rparr>) \<and> with_ends names [0..<k] (cf_net cfg) net"
  using assms(1)
proof (induction k)
  case 0
  then show ?case by (auto simp: with_ends_def intro!: exI [of _ "cf_net cfg"])
next
  case (Suc k)
  then obtain net where net: "foldE (make_end names) [0..<k] cfg = Inr (cfg\<lparr>cf_net := net\<rparr>)" "with_ends names [0..<k] (cf_net cfg) net"
    by auto
  let ?e = "EndName (names ! k)"
  have other: "j < k \<Longrightarrow> names ! j \<noteq> names ! k \<and> names ! k \<noteq> names ! j" for j
    using assms(2) Suc.prems by (auto simp: nth_eq_iff_index_eq)
  have "?e \<notin> nw_ends (cf_net cfg)" using assms(3) Suc.prems by simp
  moreover have "?e \<notin> (\<lambda>j. EndName (names ! j)) ` set [0..<k]"
  proof
    assume "?e \<in> (\<lambda>j. EndName (names ! j)) ` set [0..<k]"
    then obtain x where "x < k" "names ! k = names ! x" by auto
    then show False using other [of x] by simp
  qed
  ultimately have "?e \<notin> nw_ends net" using net(2) by (simp only: with_ends_def) blast
  then obtain net1 where net1: "MakeEnd ?e net = Inr net1" "nw_ends net1 = insert ?e (nw_ends net)"
      "nw_enabled net1 = (nw_enabled net)(?e := False)" "nw_connections net1 = (nw_connections net)(?e := None)"
      "nw_servers net1 = nw_servers net" "nw_objs net1 = nw_objs net" "nw_store net1 = nw_store net"
    by (simp add: MakeEnd_def)
  let ?net2 = "Connect ?e (ServerName k) net1"
  have "with_ends names [0..<Suc k] (cf_net cfg) ?net2"
    using net(2) net1 other by (auto simp: with_ends_def Connect_def fun_eq_iff image_iff less_Suc_eq)
  moreover have "make_end names k (cfg\<lparr>cf_net := net\<rparr>) = Inr (cfg\<lparr>cf_net := ?net2\<rparr>)"
    using net1(1) Suc.prems by (simp add: make_end_def)
  ultimately show ?case using net(1) by (auto simp: foldE_append)
qed

text \<open>A row of new names for a peer that is not connected.\<close>

lemma new_row_inv:
  assumes inv: "config_inv cfg" and i: "i < cf_n cfg" "\<not> cf_connected cfg ! i" and fr: "fresh_names cfg names"
    and net: "with_ends names [0..<cf_n cfg] (cf_net cfg) net"
  shows "config_inv (cfg\<lparr>cf_endnames := (cf_endnames cfg)[i := Some names], cf_net := net\<rparr>)"
proof -
  let ?cfg = "cfg\<lparr>cf_endnames := (cf_endnames cfg)[i := Some names], cf_net := net\<rparr>"
  let ?new = "(\<lambda>j. EndName (names ! j)) ` set [0..<cf_n cfg]"
  have sz: "sizes_ok cfg" and nm: "names_ok cfg" and lk: "links_ok cfg" using inv by (simp_all add: config_inv_def)
  have len: "length (cf_endnames cfg) = cf_n cfg" "length names = cf_n cfg" using sz fr by (simp_all add: sizes_ok_def fresh_names_def)
  have rows: "row ?cfg a es \<longleftrightarrow> (if a = i then es = names else row cfg a es)" if "a < cf_n cfg" for a es
    using i len that by (auto simp: row_def)
  have rows_bound: "row ?cfg a es \<Longrightarrow> a < cf_n cfg" for a es by (simp add: row_def)
  have old: "EndName (es ! j) \<in> nw_ends (cf_net cfg) \<and> EndName (es ! j) \<notin> ?new" if "row cfg a es" "j < cf_n cfg" for a es j
  proof -
    have "EndName (es ! j) \<in> nw_ends (cf_net cfg)" using nm that unfolding names_ok_def by blast
    moreover have "x < cf_n cfg \<Longrightarrow> EndName (names ! x) \<notin> nw_ends (cf_net cfg)" for x
      using fr by (simp add: fresh_names_def)
    ultimately show ?thesis by auto
  qed
  have inj: "j < cf_n cfg \<Longrightarrow> j' < cf_n cfg \<Longrightarrow> names ! j = names ! j' \<longleftrightarrow> j = j'" for j j'
    using fr by (simp add: fresh_names_def nth_eq_iff_index_eq)
  have "sizes_ok ?cfg" using sz rows rows_bound len by (auto simp: sizes_ok_def) (metis)
  moreover have "names_ok ?cfg"
    unfolding names_ok_def
  proof (intro conjI allI impI; elim conjE)
    fix a es j a' es' j'
    assume r: "row ?cfg a es" "row ?cfg a' es'" and j: "j < cf_n ?cfg" "j' < cf_n ?cfg" and eq: "es ! j = es' ! j'"
    have "a = a' \<and> j = j'"
    proof (cases "a = i"; cases "a' = i")
      assume "a = i" "a' = i"
      then show ?thesis using r rows i inj j eq by auto
    next
      assume a: "a = i" "a' \<noteq> i"
      then have "es = names" "row cfg a' es'" using r rows [OF rows_bound [OF r(1)]] rows [OF rows_bound [OF r(2)]] by simp_all
      then have "EndName (names ! j) \<notin> ?new" using old [of a' es' j'] j eq by simp
      then show ?thesis using j by simp
    next
      assume a: "a \<noteq> i" "a' = i"
      then have "es' = names" "row cfg a es" using r rows [OF rows_bound [OF r(1)]] rows [OF rows_bound [OF r(2)]] by simp_all
      then have "EndName (names ! j') \<notin> ?new" using old [of a es j] j eq by simp
      then show ?thesis using j by simp
    next
      assume "a \<noteq> i" "a' \<noteq> i"
      then have "row cfg a es" "row cfg a' es'"
        using r rows [OF rows_bound [OF r(1)]] rows [OF rows_bound [OF r(2)]] by simp_all
      moreover have "j < cf_n cfg" "j' < cf_n cfg" using j by auto
      ultimately show ?thesis using nm eq unfolding names_ok_def by blast
    qed
    then show "a = a'" "j = j'" by auto
  next
    fix a es j assume "row ?cfg a es" "j < cf_n ?cfg"
    then show "EndName (es ! j) \<in> nw_ends (cf_net ?cfg)"
      using net rows rows_bound [of a es] old [of a es j] by (cases "a = i") (auto simp: with_ends_def)
  qed
  moreover have "links_ok ?cfg"
    unfolding links_ok_def
  proof (intro conjI allI impI; (elim conjE)?)
    fix a assume "a < cf_n ?cfg" "cf_connected ?cfg ! a"
    then show "cf_endnames ?cfg ! a \<noteq> None" using lk i len by (cases "a = i") (auto simp: links_ok_def)
  next
    fix a es j assume r: "row ?cfg a es" and j: "j < cf_n ?cfg"
    have "nw_connections net (EndName (es ! j)) = Some (ServerName j) \<and>
        (nw_enabled net (EndName (es ! j)) \<longleftrightarrow> cf_connected cfg ! a \<and> cf_connected cfg ! j)"
    proof (cases "a = i")
      case True
      then show ?thesis using r rows i j net by (auto simp: with_ends_def)
    next
      case False
      then have rc: "row cfg a es" using r rows [OF rows_bound [OF r]] by simp
      then have "nw_connections (cf_net cfg) (EndName (es ! j)) = Some (ServerName j) \<and>
        (nw_enabled (cf_net cfg) (EndName (es ! j)) \<longleftrightarrow> cf_connected cfg ! a \<and> cf_connected cfg ! j)"
        using lk j unfolding links_ok_def by auto
      then show ?thesis using net old [OF rc] j by (simp add: with_ends_def)
    qed
    then show "nw_connections (cf_net ?cfg) (EndName (es ! j)) = Some (ServerName j)"
      "nw_enabled (cf_net ?cfg) (EndName (es ! j)) \<longleftrightarrow> cf_connected ?cfg ! a \<and> cf_connected ?cfg ! j"
      by simp_all
  qed
  ultimately show ?thesis using inv by (simp add: config_inv_def)
qed


text \<open>The last part of \<^verbatim>\<open>start1\<close>: a persister for the new instance, the instance and its server.\<close>

definition start_tail :: "'v \<Rightarrow> string list \<Rightarrow> nat \<Rightarrow> 'v config \<Rightarrow> 'v config result" where
  "start_tail zero names i cfg =
     bindE (slice_get (cf_saved cfg) i) (\<lambda>saved.
     case saved of
       None \<Rightarrow> Inl NilDereference
     | Some p \<Rightarrow>
         (let a = cf_brk cfg; net = cf_net cfg;
              rf = Raft_Make (map EndName (take (cf_n cfg) names)) i (cf_persisters cfg) p;
              srv = AddService MakeServer (MakeService ''Raft'' a (raft_methods zero)) in
          bindE (slice_set (cf_rafts cfg) i (Some a)) (\<lambda>rs.
          Inr (cfg\<lparr>cf_brk := Suc a, cf_rafts := rs, cf_net := AddServer (ServerName i) a
            (net\<lparr>nw_objs := (nw_objs net)(a := rf), nw_store := (nw_store net)(a := srv)\<rparr>)\<rparr>))))"

definition start_persister :: "nat \<Rightarrow> 'v config \<Rightarrow> 'v config result" where
  "start_persister i cfg =
     bindE (slice_get (cf_saved cfg) i) (\<lambda>saved.
     save_persister i (case saved of Some a \<Rightarrow> Persister_Copy (cf_persisters cfg a) | None \<Rightarrow> MakePersister) cfg)"

lemma start1_split:
  "start1 zero names i cfg = bindE (crash1 i cfg) (\<lambda>cfg.
     bindE (slice_set (cf_endnames cfg) i (Some (take (cf_n cfg) names))) (\<lambda>rows.
     bindE (foldE (make_end names) [0..<cf_n cfg] (cfg\<lparr>cf_endnames := rows\<rparr>)) (\<lambda>cfg.
     bindE (start_persister i cfg) (start_tail zero names i))))"
  unfolding start1_def start_persister_def start_tail_def bindE_assoc Let_def
  by (auto simp: fun_eq_iff intro!: arg_cong2 [where f = bindE] split: option.splits)

lemma start_persister_ok:
  assumes inv: "config_inv cfg" and i: "i < cf_n cfg"
  shows "\<exists>cfg'. start_persister i cfg = Inr cfg' \<and> config_inv cfg' \<and> grows cfg cfg' \<and>
    cf_saved cfg' ! i = Some (cf_brk cfg) \<and>
    saved_contents cfg' i = Some (case saved_contents cfg i of Some c \<Rightarrow> c | None \<Rightarrow> ([], [])) \<and>
    cf_net cfg' = cf_net cfg \<and> cf_connected cfg' = cf_connected cfg \<and> cf_rafts cfg' = cf_rafts cfg \<and>
    cf_n cfg' = cf_n cfg \<and> cf_endnames cfg' = cf_endnames cfg \<and> cf_logs cfg' = cf_logs cfg"
proof -
  have len: "length (cf_saved cfg) = cf_n cfg" using inv by (simp add: config_inv_def sizes_ok_def)
  let ?p = "case cf_saved cfg ! i of Some a \<Rightarrow> Persister_Copy (cf_persisters cfg a) | None \<Rightarrow> MakePersister"
  have "start_persister i cfg = save_persister i ?p cfg" using i len by (simp add: start_persister_def)
  moreover have "(ReadRaftState ?p, ReadSnapshot ?p) = (case saved_contents cfg i of Some c \<Rightarrow> c | None \<Rightarrow> ([], []))"
    by (simp add: saved_contents_def ps.copy_laws ps.new_laws split: option.splits)
  ultimately show ?thesis using save_persister_ok [OF inv i, of ?p] i len
    by (auto simp: saved_contents_def)
qed

lemma same_names_links:
  assumes "config_inv cfg" "row cfg' = row cfg" "cf_n cfg' = cf_n cfg" "cf_connected cfg' = cf_connected cfg"
    "cf_endnames cfg' = cf_endnames cfg" "nw_ends (cf_net cfg') = nw_ends (cf_net cfg)"
    "nw_connections (cf_net cfg') = nw_connections (cf_net cfg)" "nw_enabled (cf_net cfg') = nw_enabled (cf_net cfg)"
  shows "names_ok cfg' \<and> links_ok cfg'"
  using assms(1) unfolding config_inv_def names_ok_def links_ok_def assms(2-) by blast

lemma start_tail_ok:
  assumes inv: "config_inv cfg" and i: "i < cf_n cfg" and p: "cf_saved cfg ! i = Some p"
  shows "\<exists>cfg'. start_tail zero names i cfg = Inr cfg' \<and> config_inv cfg' \<and> grows cfg cfg' \<and>
    cf_saved cfg' = cf_saved cfg \<and> cf_persisters cfg' = cf_persisters cfg \<and> cf_connected cfg' = cf_connected cfg \<and>
    cf_rafts cfg' = (cf_rafts cfg)[i := Some (cf_brk cfg)] \<and> cf_n cfg' = cf_n cfg \<and>
    cf_endnames cfg' = cf_endnames cfg \<and> cf_logs cfg' = cf_logs cfg \<and> nw_ends (cf_net cfg') = nw_ends (cf_net cfg) \<and>
    nw_servers (cf_net cfg') = (nw_servers (cf_net cfg))(ServerName i \<mapsto> cf_brk cfg) \<and>
    nw_store (cf_net cfg') (cf_brk cfg) = AddService MakeServer (MakeService ''Raft'' (cf_brk cfg) (raft_methods zero)) \<and>
    nw_objs (cf_net cfg') (cf_brk cfg) = Raft_Make (map EndName (take (cf_n cfg) names)) i (cf_persisters cfg) p"
proof -
  let ?a = "cf_brk cfg"
  let ?net = "AddServer (ServerName i) ?a ((cf_net cfg)\<lparr>nw_objs := (nw_objs (cf_net cfg))(?a :=
       Raft_Make (map EndName (take (cf_n cfg) names)) i (cf_persisters cfg) p), nw_store := (nw_store (cf_net cfg))(?a :=
       AddService MakeServer (MakeService ''Raft'' ?a (raft_methods zero)))\<rparr>)"
  let ?cfg = "cfg\<lparr>cf_brk := Suc ?a, cf_rafts := (cf_rafts cfg)[i := Some ?a], cf_net := ?net\<rparr>"
  have len: "length (cf_saved cfg) = cf_n cfg" "length (cf_rafts cfg) = cf_n cfg"
    using inv by (simp_all add: config_inv_def sizes_ok_def)
  have eq: "start_tail zero names i cfg = Inr ?cfg" using i len p by (simp add: start_tail_def Let_def)
  have rows: "row ?cfg = row cfg" by (simp add: row_def fun_eq_iff)
  have net: "nw_ends ?net = nw_ends (cf_net cfg)" "nw_connections ?net = nw_connections (cf_net cfg)"
    "nw_enabled ?net = nw_enabled (cf_net cfg)" by (simp_all add: AddServer_def)
  have "\<forall>a. Some a \<in> set (cf_saved cfg) \<union> set (cf_rafts cfg) \<longrightarrow> a < Suc ?a"
    using inv less_SucI unfolding config_inv_def by blast
  moreover have "set ((cf_rafts cfg)[i := Some ?a]) \<subseteq> insert (Some ?a) (set (cf_rafts cfg))" by (rule set_update_subset_insert)
  ultimately have brk: "\<forall>a. Some a \<in> set (cf_saved ?cfg) \<union> set (cf_rafts ?cfg) \<longrightarrow> a < cf_brk ?cfg" by auto
  have "sizes_ok ?cfg" using inv unfolding config_inv_def sizes_ok_def rows by simp
  moreover have "names_ok ?cfg \<and> links_ok ?cfg" by (rule same_names_links [OF inv rows]) (simp_all add: net)
  ultimately have "config_inv ?cfg" using brk unfolding config_inv_def by simp
  then show ?thesis using eq by (simp add: grows_def AddServer_def)
qed


text \<open>What \<^verbatim>\<open>start1\<close> leaves: peer \<open>i\<close> is a new live instance that holds what the old one had saved.\<close>

definition alive :: "'v \<Rightarrow> nat \<Rightarrow> string list \<Rightarrow> 'v config \<Rightarrow> bool" where
  "alive zero i names cfg \<longleftrightarrow>
     (\<exists>a p. cf_rafts cfg ! i = Some a \<and> nw_servers (cf_net cfg) (ServerName i) = Some a \<and> cf_saved cfg ! i = Some p \<and>
        nw_store (cf_net cfg) a = AddService MakeServer (MakeService ''Raft'' a (raft_methods zero)) \<and>
        rf_peers (nw_objs (cf_net cfg) a) = map EndName names \<and> rf_me (nw_objs (cf_net cfg) a) = i \<and>
        rf_persister (nw_objs (cf_net cfg) a) = p \<and> \<not> killed (nw_objs (cf_net cfg) a))"

definition started :: "'v \<Rightarrow> string list \<Rightarrow> nat \<Rightarrow> 'v config \<Rightarrow> 'v config \<Rightarrow> bool" where
  "started zero names i cfg cfg' \<longleftrightarrow>
     config_inv cfg' \<and> grows cfg cfg' \<and> cf_n cfg' = cf_n cfg \<and> alive zero i names cfg' \<and>
     saved_contents cfg' i = Some (case saved_contents cfg i of Some c \<Rightarrow> c | None \<Rightarrow> ([], [])) \<and>
     (\<forall>a \<in> {cf_rafts cfg' ! i, cf_saved cfg' ! i}. \<forall>x. a = Some x \<longrightarrow> cf_brk cfg \<le> x) \<and>
     cf_connected cfg' = (cf_connected cfg)[i := False] \<and> cf_endnames cfg' = (cf_endnames cfg)[i := Some names] \<and>
     cf_logs cfg' = cf_logs cfg \<and> nw_ends (cf_net cfg') = nw_ends (cf_net cfg) \<union> EndName ` set names"

lemma with_ends_all:
  "length names = n \<Longrightarrow> with_ends names [0..<n] net net' \<Longrightarrow> nw_ends net' = nw_ends net \<union> EndName ` set names"
proof -
  assume n: "length names = n" and w: "with_ends names [0..<n] net net'"
  have "set names = (\<lambda>j. names ! j) ` set [0..<n]" using arg_cong [OF map_nth [of names], of set] n by simp
  then have "EndName ` set names = (\<lambda>j. EndName (names ! j)) ` set [0..<n]" by (simp only: image_image)
  then show ?thesis using w by (simp only: with_ends_def)
qed

lemma start1_ok:
  assumes inv: "config_inv cfg" and i: "i < cf_n cfg" and fr: "fresh_names cfg names"
  shows "\<exists>cfg'. start1 zero names i cfg = Inr cfg' \<and> started zero names i cfg cfg'"
proof -
  obtain c1 where c1: "crash1 i cfg = Inr c1" "crashed i cfg c1" using crash1_ok [OF inv i] by blast
  then have inv1: "config_inv c1" and i1: "i < cf_n c1" and n1: "cf_n c1 = cf_n cfg" and fr1: "fresh_names c1 names"
    using i fr by (simp_all add: crashed_def fresh_names_def)
  have len: "length (cf_endnames c1) = cf_n c1" "length names = cf_n c1" "length (cf_connected cfg) = cf_n cfg"
    using inv inv1 fr1 by (simp_all add: config_inv_def sizes_ok_def fresh_names_def)
  let ?c1 = "c1\<lparr>cf_endnames := (cf_endnames c1)[i := Some names]\<rparr>"
  obtain net where net: "foldE (make_end names) [0..<cf_n c1] ?c1 = Inr (?c1\<lparr>cf_net := net\<rparr>)"
      "with_ends names [0..<cf_n c1] (cf_net c1) net"
    using make_end_loop [of "cf_n c1" names ?c1] fr1 by (auto simp: fresh_names_def)
  let ?c2 = "?c1\<lparr>cf_net := net\<rparr>"
  have "\<not> cf_connected c1 ! i" using c1(2) i len by (simp add: crashed_def)
  then have inv2: "config_inv ?c2" and i2: "i < cf_n ?c2" using new_row_inv [OF inv1 i1 _ fr1 net(2)] i1 by simp_all
  obtain c3 where c3: "start_persister i ?c2 = Inr c3" "config_inv c3" "grows ?c2 c3" "cf_saved c3 ! i = Some (cf_brk ?c2)"
      "saved_contents c3 i = Some (case saved_contents ?c2 i of Some c \<Rightarrow> c | None \<Rightarrow> ([], []))"
      "cf_net c3 = cf_net ?c2" "cf_connected c3 = cf_connected ?c2" "cf_rafts c3 = cf_rafts ?c2" "cf_n c3 = cf_n ?c2"
      "cf_endnames c3 = cf_endnames ?c2" "cf_logs c3 = cf_logs ?c2"
    using start_persister_ok [OF inv2 i2] by blast
  then have i3: "i < cf_n c3" and len3: "length (cf_rafts c3) = cf_n c3"
    using i1 by (simp_all add: config_inv_def sizes_ok_def)
  note t = start_tail_ok [OF c3(2) i3 c3(4), of zero names]
  then obtain c4 where c4: "start_tail zero names i c3 = Inr c4" and inv4: "config_inv c4" and g4: "grows c3 c4" by blast
  have run: "start1 zero names i cfg = Inr c4"
    using c1(1) i1 len net(1) c3(1) c4 by (simp add: start1_split)
  have "grows c1 ?c2" by (simp add: grows_def)
  moreover have "grows cfg c1" using c1(2) by (simp add: crashed_def)
  ultimately have g1: "grows cfg ?c2" and g3: "grows cfg c3" and g: "grows cfg c4" using c3(3) g4 grows_trans by blast+
  have "saved_contents ?c2 i = saved_contents cfg i" using c1(2) by (simp add: crashed_def saved_contents_def)
  then have s: "saved_contents c4 i = Some (case saved_contents cfg i of Some c \<Rightarrow> c | None \<Rightarrow> ([], []))"
    using c3(5) c4 t by (simp add: saved_contents_def)
  have e: "nw_ends (cf_net c4) = nw_ends (cf_net cfg) \<union> EndName ` set names"
    using c4 t c3(6) with_ends_all [OF len(2) net(2)] c1(2) by (simp add: crashed_def)
  have "alive zero i names c4" using c4 t i3 len3 len(2) c3(4,9) by (auto simp: alive_def killed_def)
  moreover have "\<forall>a \<in> {cf_rafts c4 ! i, cf_saved c4 ! i}. \<forall>x. a = Some x \<longrightarrow> cf_brk cfg \<le> x"
    using c4 t i3 len3 c3(4) g1 g3 by (auto simp: grows_def)
  ultimately show ?thesis
    using run inv4 g s e c4 t c3 c1(2) unfolding started_def by (simp add: crashed_def)
qed


section \<open>A new configuration\<close>

text \<open>All names drawn for the configuration are different.\<close>

definition good_draws :: "nat \<Rightarrow> (nat \<Rightarrow> string list) \<Rightarrow> bool" where
  "good_draws n draws \<longleftrightarrow> (\<forall>i < n. length (draws i) = n) \<and> distinct (concat (map draws [0..<n]))"

lemma good_draws_fresh:
  assumes "good_draws n draws" "k < n" "cf_n cfg = n"
    "nw_ends (cf_net cfg) = EndName ` set (concat (map draws [0..<k]))"
  shows "fresh_names cfg (draws k)"
proof -
  have "[0..<n] = [0..<k] @ k # [Suc k..<n]" using assms(2) upt_add_eq_append [of 0 k "n - k"] by (simp add: upt_conv_Cons)
  then have "concat (map draws [0..<n]) = concat (map draws [0..<k]) @ draws k @ concat (map draws [Suc k..<n])" by simp
  then have d: "distinct (draws k)" "set (draws k) \<inter> set (concat (map draws [0..<k])) = {}"
    using assms(1) by (auto simp: good_draws_def)
  then have "e \<in> set (draws k) \<Longrightarrow> EndName e \<notin> nw_ends (cf_net cfg)" for e using assms(4) by auto
  then show ?thesis using assms d(1) by (simp add: fresh_names_def good_draws_def)
qed

lemma empty_config_inv:
  "nw_ends net = {} \<Longrightarrow> config_inv (empty_config n u net)"
  by (auto simp: config_inv_def sizes_ok_def names_ok_def links_ok_def row_def empty_config_def)

lemma start_all_ok:
  assumes "good_draws n draws" "nw_ends net = {}" "k \<le> n"
  shows "\<exists>cfg. foldE (\<lambda>i. start1 zero (draws i) i) [0..<k] (empty_config n u net) = Inr cfg \<and>
    config_inv cfg \<and> cf_n cfg = n \<and> nw_ends (cf_net cfg) = EndName ` set (concat (map draws [0..<k])) \<and>
    (\<forall>i < k. cf_endnames cfg ! i = Some (draws i)) \<and> cf_logs cfg = replicate n Map.empty"
  using assms(3)
proof (induction k)
  case 0
  then show ?case using assms(2) empty_config_inv [OF assms(2)]
    by (simp add: empty_config_def Reliable_def LongDelays_def)
next
  case (Suc k)
  then obtain c where c: "foldE (\<lambda>i. start1 zero (draws i) i) [0..<k] (empty_config n u net) = Inr c"
      "config_inv c" "cf_n c = n" "nw_ends (cf_net c) = EndName ` set (concat (map draws [0..<k]))"
      "\<forall>i < k. cf_endnames c ! i = Some (draws i)" "cf_logs c = replicate n Map.empty"
    by auto
  have "fresh_names c (draws k)" by (rule good_draws_fresh [OF assms(1) _ c(3,4)]) (use Suc.prems in simp)
  then obtain c' where c': "start1 zero (draws k) k c = Inr c'" "started zero (draws k) k c c'"
    using start1_ok [OF c(2)] c(3) Suc.prems by (metis Suc_le_lessD)
  have len: "length (cf_endnames c) = n" using c(2,3) by (simp add: config_inv_def sizes_ok_def)
  have rows: "\<forall>i < Suc k. cf_endnames c' ! i = Some (draws i)"
    using c'(2) c(5) len Suc.prems by (simp add: started_def less_Suc_eq)
  have run: "foldE (\<lambda>i. start1 zero (draws i) i) [0..<Suc k] (empty_config n u net) = Inr c'"
    using c(1) c'(1) by (simp add: foldE_append)
  show ?case using run rows c'(2) c(3,4,6) by (intro exI [of _ c']) (auto simp: started_def image_Un)
qed

lemma connect_all_ok:
  assumes inv: "config_inv cfg" and rows: "\<forall>i < cf_n cfg. cf_endnames cfg ! i \<noteq> None" and k: "k \<le> cf_n cfg"
  shows "\<exists>cfg'. foldE config_connect [0..<k] cfg = Inr cfg' \<and> config_inv cfg' \<and> same_shape cfg cfg' \<and>
    (\<forall>i < k. cf_connected cfg' ! i)"
  using k
proof (induction k)
  case 0
  then show ?case using inv by (simp add: same_shape_def)
next
  case (Suc k)
  then obtain c where c: "foldE config_connect [0..<k] cfg = Inr c" "config_inv c" "same_shape cfg c"
    "\<forall>i < k. cf_connected c ! i" by auto
  note f = same_shape_fields [OF c(3)]
  have len: "length (cf_connected c) = cf_n cfg" using c(2) f by (simp add: config_inv_def sizes_ok_def)
  obtain c' where c': "config_connect k c = Inr c'" "config_inv c'" "same_shape c c'" "cf_connected c' = (cf_connected c)[k := True]"
    using config_connect_ok [OF c(2), of k] f rows Suc.prems by auto
  have "same_shape cfg c'" by (rule same_shape_trans [OF c(3) c'(3)])
  then show ?case using c c' len Suc.prems by (auto simp: foldE_append less_Suc_eq nth_list_update)
qed


lemma make_config_ok:
  assumes "good_draws n draws" "nw_ends net = {}"
  shows "\<exists>cfg. make_config zero draws n u net = Inr cfg \<and> config_inv cfg \<and> cf_n cfg = n \<and>
    (\<forall>i < n. cf_connected cfg ! i \<and> cf_endnames cfg ! i = Some (draws i)) \<and> cf_logs cfg = replicate n Map.empty"
proof -
  obtain c where c: "foldE (\<lambda>i. start1 zero (draws i) i) [0..<n] (empty_config n u net) = Inr c" "config_inv c" "cf_n c = n"
      "\<forall>i < n. cf_endnames c ! i = Some (draws i)" "cf_logs c = replicate n Map.empty"
    using start_all_ok [OF assms, of n zero u] by auto
  then obtain c' where c': "foldE config_connect [0..<n] c = Inr c'" "config_inv c'" "same_shape c c'" "\<forall>i < n. cf_connected c' ! i"
    using connect_all_ok [OF c(2), of n] by auto
  then show ?thesis using c same_shape_fields [OF c'(3)] by (simp add: make_config_def)
qed


section \<open>Reachable configurations\<close>

text \<open>
  What tests do with a configuration: they build it, cut and restore connections, crash and start
  peers (drawing new names), while calls are in flight that change the network's counters and the
  objects but not its switches, peers save their state, and appliers extend the logs.
\<close>

definition same_switches :: "('n, 'v, 'r) network \<Rightarrow> ('n, 'v, 'r) network \<Rightarrow> bool" where
  "same_switches net net' \<longleftrightarrow>
     nw_ends net' = nw_ends net \<and> nw_enabled net' = nw_enabled net \<and> nw_connections net' = nw_connections net \<and>
     nw_servers net' = nw_servers net"

inductive config_reach :: "'v \<Rightarrow> nat \<Rightarrow> 'v config \<Rightarrow> bool" for zero n where
  make: "good_draws n draws \<Longrightarrow> nw_ends net = {} \<Longrightarrow> make_config zero draws n u net = Inr cfg \<Longrightarrow> config_reach zero n cfg"
| connect: "config_reach zero n cfg \<Longrightarrow> i < n \<Longrightarrow> config_connect i cfg = Inr cfg' \<Longrightarrow> config_reach zero n cfg'"
| disconnect: "config_reach zero n cfg \<Longrightarrow> i < n \<Longrightarrow> config_disconnect i cfg = Inr cfg' \<Longrightarrow> config_reach zero n cfg'"
| crash: "config_reach zero n cfg \<Longrightarrow> i < n \<Longrightarrow> crash1 i cfg = Inr cfg' \<Longrightarrow> config_reach zero n cfg'"
| start: "config_reach zero n cfg \<Longrightarrow> i < n \<Longrightarrow> fresh_names cfg names \<Longrightarrow> start1 zero names i cfg = Inr cfg' \<Longrightarrow>
    config_reach zero n cfg'"
| traffic: "config_reach zero n cfg \<Longrightarrow> same_switches (cf_net cfg) net \<Longrightarrow> config_reach zero n (cfg\<lparr>cf_net := net\<rparr>)"
| save: "config_reach zero n cfg \<Longrightarrow> config_reach zero n (cfg\<lparr>cf_persisters := persisters\<rparr>)"
| applied: "config_reach zero n cfg \<Longrightarrow> length logs = n \<Longrightarrow> config_reach zero n (cfg\<lparr>cf_logs := logs, cf_maxIndex := m\<rparr>)"

definition ready :: "nat \<Rightarrow> 'v config \<Rightarrow> bool" where
  "ready n cfg \<longleftrightarrow> config_inv cfg \<and> cf_n cfg = n \<and> (\<forall>i < n. cf_endnames cfg ! i \<noteq> None)"

lemma ready_traffic:
  assumes "ready n cfg" "same_switches (cf_net cfg) net"
  shows "ready n (cfg\<lparr>cf_net := net\<rparr>)"
proof -
  let ?cfg = "cfg\<lparr>cf_net := net\<rparr>"
  have inv: "config_inv cfg" using assms(1) by (simp add: ready_def)
  have rows: "row ?cfg = row cfg" by (simp add: row_def fun_eq_iff)
  have "names_ok ?cfg \<and> links_ok ?cfg"
    by (rule same_names_links [OF inv rows]) (use assms(2) in \<open>simp_all add: same_switches_def\<close>)
  moreover have "sizes_ok ?cfg" using inv unfolding config_inv_def sizes_ok_def rows by simp
  ultimately have "config_inv ?cfg" using inv unfolding config_inv_def by simp
  then show ?thesis using assms(1) by (simp add: ready_def)
qed

lemma ready_save: "ready n cfg \<Longrightarrow> ready n (cfg\<lparr>cf_persisters := persisters\<rparr>)"
proof -
  assume r: "ready n cfg"
  let ?cfg = "cfg\<lparr>cf_persisters := persisters\<rparr>"
  have rows: "row ?cfg = row cfg" by (simp add: row_def fun_eq_iff)
  have inv: "config_inv cfg" using r by (simp add: ready_def)
  have "names_ok ?cfg \<and> links_ok ?cfg" by (rule same_names_links [OF inv rows]) simp_all
  moreover have "sizes_ok ?cfg" using inv unfolding config_inv_def sizes_ok_def rows by simp
  ultimately have "config_inv ?cfg" using inv unfolding config_inv_def by simp
  then show ?thesis using r by (simp add: ready_def)
qed

lemma ready_applied: "ready n cfg \<Longrightarrow> length logs = n \<Longrightarrow> ready n (cfg\<lparr>cf_logs := logs, cf_maxIndex := m\<rparr>)"
proof -
  assume r: "ready n cfg" and l: "length logs = n"
  let ?cfg = "cfg\<lparr>cf_logs := logs, cf_maxIndex := m\<rparr>"
  have rows: "row ?cfg = row cfg" by (simp add: row_def fun_eq_iff)
  have inv: "config_inv cfg" using r by (simp add: ready_def)
  have "names_ok ?cfg \<and> links_ok ?cfg" by (rule same_names_links [OF inv rows]) simp_all
  moreover have "sizes_ok ?cfg" using inv r l unfolding config_inv_def sizes_ok_def rows by (simp add: ready_def)
  ultimately have "config_inv ?cfg" using inv unfolding config_inv_def by simp
  then show ?thesis using r by (simp add: ready_def)
qed

lemma config_reach_ready: "config_reach zero n cfg \<Longrightarrow> ready n cfg"
proof (induction rule: config_reach.induct)
  case (make draws net u cfg)
  then show ?case using make_config_ok [OF make(1,2), of zero u] by (auto simp: ready_def)
next
  case (connect cfg i cfg')
  then obtain c where "config_connect i cfg = Inr c" "config_inv c" "same_shape cfg c"
    using config_connect_ok [of cfg i] by (auto simp: ready_def)
  then show ?case using connect same_shape_fields [of cfg c] by (simp add: ready_def)
next
  case (disconnect cfg i cfg')
  then obtain c where "config_disconnect i cfg = Inr c" "config_inv c" "same_shape cfg c"
    using config_disconnect_ok [of cfg i] by (auto simp: ready_def)
  then show ?case using disconnect same_shape_fields [of cfg c] by (simp add: ready_def)
next
  case (crash cfg i cfg')
  then show ?case using crash1_ok [of cfg i] by (auto simp: ready_def crashed_def)
next
  case (start cfg i names cfg')
  have "length (cf_endnames cfg) = n" using start.IH by (auto simp: ready_def config_inv_def sizes_ok_def)
  then show ?case using start start1_ok [of cfg i names zero] by (auto simp: ready_def started_def nth_list_update)
qed (rule ready_traffic ready_save ready_applied; assumption)+

end
