(* ===== verification/Raft_Agreement.thy ===== *)
theory Raft_Agreement
  imports Raft_Config
begin

text \<open>
  What the test configuration of the Raft lab establishes by watching: messages the appliers accept
  keep the logs of all peers in agreement and without gaps, so that \<^verbatim>\<open>nCommitted\<close>, \<^verbatim>\<open>wait\<close> and \<^verbatim>\<open>one\<close>
  report commands that many peers have really applied; \<^verbatim>\<open>checkOneLeader\<close> and \<^verbatim>\<open>checkTerms\<close> report the
  leader and the term of the connected peers.
\<close>

section \<open>Logs in agreement\<close>

definition agree :: "(int \<rightharpoonup> 'v iface) list \<Rightarrow> bool" where
  "agree logs \<longleftrightarrow>
     (\<forall>l \<in> set logs. \<forall>l' \<in> set logs. \<forall>k v v'. l k = Some v \<and> l' k = Some v' \<longrightarrow> v = v')"

definition gap_free :: "(int \<rightharpoonup> 'v iface) \<Rightarrow> bool" where
  "gap_free l \<longleftrightarrow> (\<forall>k > 1. l k \<noteq> None \<longrightarrow> l (k - 1) \<noteq> None)"

definition logs_ok :: "(int \<rightharpoonup> 'v iface) list \<Rightarrow> bool" where
  "logs_ok logs \<longleftrightarrow> agree logs \<and> (\<forall>l \<in> set logs. gap_free l)"

lemma agreeD:
  assumes "agree logs" "l \<in> set logs" "l' \<in> set logs" "l k = Some v" "l' k = Some v'"
  shows "v = v'"
  using assms(1) [unfolded agree_def, rule_format, OF assms(2,3), of k v v'] assms(4,5) by simp

lemma gap_freeD:
  assumes "logs_ok logs" "l \<in> set logs" "1 < k" "l k \<noteq> None"
  shows "l (k - 1) \<noteq> None"
  using assms(1) [unfolded logs_ok_def, THEN conjunct2, rule_format, OF assms(2), unfolded gap_free_def, rule_format, of k]
    assms(3,4) by simp

lemma checkLogs_loop_error:
  "err \<noteq> NoError \<Longrightarrow> checkLogs_loop i m logs j err \<noteq> NoError"
  by (induction logs arbitrary: j err) (auto split: option.splits)

lemma checkLogs_loop_NoError:
  "checkLogs_loop i m logs j NoError = NoError \<longleftrightarrow>
     (\<forall>l \<in> set logs. l (am_CommandIndex m) \<in> {None, Some (am_Command m)})"
  by (induction logs arbitrary: j) (auto simp: checkLogs_loop_error split: option.splits)

text \<open>Exactly the messages that disagree with no log and leave no gap are accepted.\<close>

definition acceptable :: "nat \<Rightarrow> 'v ApplyMsg \<Rightarrow> (int \<rightharpoonup> 'v iface) list \<Rightarrow> bool" where
  "acceptable i m logs \<longleftrightarrow>
     (\<forall>l \<in> set logs. l (am_CommandIndex m) \<in> {None, Some (am_Command m)}) \<and>
     (am_CommandIndex m > 1 \<longrightarrow> (logs ! i) (am_CommandIndex m - 1) \<noteq> None)"

definition accept :: "nat \<Rightarrow> 'v ApplyMsg \<Rightarrow> 'v config \<Rightarrow> 'v config" where
  "accept i m cfg =
     cfg\<lparr>cf_logs := (cf_logs cfg)[i := (cf_logs cfg ! i)(am_CommandIndex m \<mapsto> am_Command m)],
         cf_maxIndex := max (cf_maxIndex cfg) (am_CommandIndex m)\<rparr>"

lemma apply_command_eq:
  "i < length (cf_logs cfg) \<Longrightarrow>
   apply_command i m cfg =
     (if acceptable i m (cf_logs cfg) then Inr (accept i m cfg) else Inl (Fatal ''apply error''))"
  by (auto simp: apply_command_def checkLogs_def Let_def acceptable_def accept_def checkLogs_loop_NoError [of i m _ 0]
      max_def)

lemma accept_logs:
  assumes "i < length (cf_logs cfg)" "acceptable i m (cf_logs cfg)" "logs_ok (cf_logs cfg)"
  shows "logs_ok (cf_logs (accept i m cfg))"
proof -
  let ?l = "(cf_logs cfg ! i)(am_CommandIndex m \<mapsto> am_Command m)"
  have sub: "set (cf_logs (accept i m cfg)) \<subseteq> insert ?l (set (cf_logs cfg))"
    by (simp add: accept_def set_update_subset_insert)
  have mem: "cf_logs cfg ! i \<in> set (cf_logs cfg)" using assms(1) by simp
  have new: "v = v'" if "?l k = Some v" "l' \<in> insert ?l (set (cf_logs cfg))" "l' k = Some v'" for k v l' v'
  proof (cases "l' = ?l")
    case False
    then have l': "l' \<in> set (cf_logs cfg)" using that(2) by simp
    show ?thesis
    proof (cases "k = am_CommandIndex m")
      case True
      then show ?thesis using that l' assms(2) unfolding acceptable_def by fastforce
    next
      case False
      then have "(cf_logs cfg ! i) k = Some v" using that(1) by simp
      then show ?thesis using that(3) l' mem assms(3) unfolding logs_ok_def agree_def by blast
    qed
  qed (use that in simp)
  have "agree (cf_logs (accept i m cfg))"
    unfolding agree_def
  proof (intro ballI allI impI; elim conjE)
    fix l l' k v v' assume "l \<in> set (cf_logs (accept i m cfg))" "l' \<in> set (cf_logs (accept i m cfg))" "l k = Some v" "l' k = Some v'"
    moreover have "l \<in> insert ?l (set (cf_logs cfg))" "l' \<in> insert ?l (set (cf_logs cfg))" using calculation sub by blast+
    ultimately show "v = v'" using new [of k] assms(3) unfolding logs_ok_def agree_def by (metis insertE)
  qed
  moreover have "gap_free ?l"
    using assms mem by (auto simp: logs_ok_def gap_free_def acceptable_def)
  ultimately show ?thesis using sub assms(3) unfolding logs_ok_def by blast
qed

text \<open>Runs of the appliers: messages of all peers in the order in which they take the lock.\<close>

definition apply_all :: "(nat \<times> 'v ApplyMsg) list \<Rightarrow> 'v config \<Rightarrow> 'v config result" where
  "apply_all = foldE (\<lambda>(i, m). applier i m)"

lemma applier_cases:
  assumes "applier i m cfg = Inr cfg'" "i < length (cf_logs cfg)"
  shows "cfg' = cfg \<or> am_CommandValid m \<and> acceptable i m (cf_logs cfg) \<and> cfg' = accept i m cfg"
  using assms by (auto simp: applier_def apply_command_eq split: if_splits)

lemma accept_extends:
  assumes "acceptable i m (cf_logs cfg)" "i < length (cf_logs cfg)" "j < length (cf_logs cfg)"
  shows "(cf_logs cfg ! j) \<subseteq>\<^sub>m (cf_logs (accept i m cfg) ! j)"
proof -
  have "cf_logs cfg ! i \<in> set (cf_logs cfg)" using assms(2) by simp
  then have "(cf_logs cfg ! i) (am_CommandIndex m) \<in> {None, Some (am_Command m)}"
    using assms(1) by (simp add: acceptable_def)
  then show ?thesis using assms by (auto simp: accept_def nth_list_update map_le_def)
qed

lemma apply_all_ok:
  assumes "apply_all msgs cfg = Inr cfg'" "logs_ok (cf_logs cfg)" "\<forall>(i, m) \<in> set msgs. i < length (cf_logs cfg)"
  shows "logs_ok (cf_logs cfg') \<and> length (cf_logs cfg') = length (cf_logs cfg) \<and>
    (\<forall>j < length (cf_logs cfg). (cf_logs cfg ! j) \<subseteq>\<^sub>m (cf_logs cfg' ! j)) \<and> cf_maxIndex cfg \<le> cf_maxIndex cfg'"
  using assms
proof (induction msgs arbitrary: cfg)
  case Nil
  then show ?case by (simp add: apply_all_def)
next
  case (Cons im msgs)
  obtain i m where im: "im = (i, m)" by (cases im)
  then obtain c where c: "applier i m cfg = Inr c" "apply_all msgs c = Inr cfg'"
    using Cons.prems(1) by (cases "applier i m cfg") (auto simp: apply_all_def)
  have i: "i < length (cf_logs cfg)" using Cons.prems(3) im by simp
  have step: "logs_ok (cf_logs c) \<and> length (cf_logs c) = length (cf_logs cfg) \<and>
      (\<forall>j < length (cf_logs cfg). (cf_logs cfg ! j) \<subseteq>\<^sub>m (cf_logs c ! j)) \<and> cf_maxIndex cfg \<le> cf_maxIndex c"
    using applier_cases [OF c(1) i] accept_logs [OF i _ Cons.prems(2)] accept_extends [OF _ i] Cons.prems(2)
    by (auto simp: accept_def)
  then show ?case using Cons.IH [OF c(2)] Cons.prems(3) map_le_trans by fastforce
qed

section \<open>Counting commits\<close>

definition committed :: "int \<Rightarrow> 'v config \<Rightarrow> 'v iface list" where
  "committed index cfg = List.map_filter (\<lambda>l. l index) (cf_logs cfg)"

lemma nCommitted_loop_eq:
  assumes "\<forall>e \<in> set els. fst e = NoError" "\<forall>v \<in> set (List.map_filter (\<lambda>l. l index) (map snd els)). v = w"
    "count > 0 \<longrightarrow> cmd = w"
  shows "nCommitted_loop index els count cmd =
    Inr (count + length (List.map_filter (\<lambda>l. l index) (map snd els)),
         if List.map_filter (\<lambda>l. l index) (map snd els) = [] then cmd else w)"
  using assms
proof (induction els arbitrary: count cmd)
  case Nil
  then show ?case by (simp add: map_filter_simps)
next
  case (Cons e els)
  then show ?case by (cases e; cases "snd e index") (auto simp: map_filter_simps)
qed

lemma nCommitted_agree:
  assumes "agree (cf_logs cfg)" "cf_applyErr cfg = replicate (length (cf_logs cfg)) NoError"
  shows "nCommitted index cfg =
    Inr (length (committed index cfg), if committed index cfg = [] then None else hd (committed index cfg))"
proof -
  let ?els = "zip (cf_applyErr cfg) (cf_logs cfg)"
  have snds: "map snd ?els = cf_logs cfg" and errs: "\<forall>e \<in> set ?els. fst e = NoError"
    using assms(2) by (auto simp: set_zip)
  have "\<forall>v \<in> set (committed index cfg). v = hd (committed index cfg)"
  proof
    fix v assume v: "v \<in> set (committed index cfg)"
    then have "hd (committed index cfg) \<in> set (committed index cfg)" by (cases "committed index cfg") auto
    then show "v = hd (committed index cfg)"
      using v assms(1) unfolding committed_def agree_def List.map_filter_def by fastforce
  qed
  then show ?thesis
    using nCommitted_loop_eq [OF errs, of index "hd (committed index cfg)" 0 None] snds
    by (simp add: nCommitted_def committed_def)
qed

text \<open>What a report of \<^verbatim>\<open>nCommitted\<close> means, whatever the logs are.\<close>

lemma nCommitted_loop_sound:
  assumes "nCommitted_loop index els count cmd = Inr (nd, w)"
  shows "nd = count + length (List.map_filter (\<lambda>l. l index) (map snd els)) \<and>
    (\<forall>v \<in> set (List.map_filter (\<lambda>l. l index) (map snd els)). v = w) \<and> (count > 0 \<longrightarrow> cmd = w)"
  using assms
proof (induction els arbitrary: count cmd)
  case Nil
  then show ?case by (simp add: map_filter_simps)
next
  case (Cons e els)
  obtain err l where e: "e = (err, l)" by (cases e)
  show ?case
  proof (cases "l index")
    case None
    then show ?thesis using Cons e by (auto simp: map_filter_simps split: if_splits)
  next
    case (Some v)
    then have "nCommitted_loop index els (count + 1) v = Inr (nd, w)" "count > 0 \<longrightarrow> cmd = v"
      using Cons.prems e by (auto split: if_splits)
    then show ?thesis using Cons.IH [of "count + 1" v] Some e by (auto simp: map_filter_simps)
  qed
qed

lemma nCommitted_sound:
  assumes "nCommitted index cfg = Inr (nd, w)" "length (cf_applyErr cfg) = length (cf_logs cfg)"
  shows "nd = length (committed index cfg) \<and> (\<forall>v \<in> set (committed index cfg). v = w)"
  using nCommitted_loop_sound [OF assms(1) [unfolded nCommitted_def]] assms(2) by (simp add: committed_def)


section \<open>Waiting and agreeing\<close>

definition sized :: "'v config \<Rightarrow> bool" where
  "sized cfg \<longleftrightarrow> length (cf_applyErr cfg) = length (cf_logs cfg)"

text \<open>At least \<open>n\<close> peers have applied a command at the index, and all that have applied this one.\<close>

definition decided :: "int \<Rightarrow> nat \<Rightarrow> 'v iface \<Rightarrow> 'v config \<Rightarrow> bool" where
  "decided index n cmd cfg \<longleftrightarrow>
     n \<le> length (committed index cfg) \<and> (\<forall>v \<in> set (committed index cfg). v = cmd)"

lemma final_look:
  "nCommitted index (cfgs k) = Inr (nd, cmd) \<Longrightarrow> n \<le> nd \<Longrightarrow> \<forall>k. sized (cfgs k) \<Longrightarrow> decided index n cmd (cfgs k)"
  using nCommitted_sound [of index "cfgs k" nd cmd] by (auto simp: decided_def sized_def)

lemma wait_loop_sound:
  assumes "wait_loop cfgs terms index n startTerm iters k = Inr r" "\<forall>k. sized (cfgs k)"
  shows "(\<forall>cmd. r = Decided cmd \<longrightarrow> (\<exists>j. k \<le> j \<and> j \<le> k + length iters \<and> decided index n cmd (cfgs j))) \<and>
    (r = MovedOn \<longrightarrow> startTerm > -1 \<and> (\<exists>j \<ge> k. \<exists>t \<in> set (terms j). t > startTerm))"
  using assms(1)
proof (induction iters arbitrary: k)
  case Nil
  then obtain nd cmd where "nCommitted index (cfgs k) = Inr (nd, cmd)" "n \<le> nd" "r = Decided cmd"
    by (auto simp: bindE_Inr_conv split: if_splits)
  then show ?case using final_look [of index cfgs k nd cmd n] assms(2) by auto
next
  case (Cons iter iters)
  then obtain nd w where nd: "nCommitted index (cfgs k) = Inr (nd, w)" by (auto simp: bindE_Inr_conv)
  consider (enough) "nd \<ge> n" | (moved) "\<not> nd \<ge> n" "startTerm > -1" "\<exists>t \<in> set (terms k). t > startTerm"
    | (again) "\<not> nd \<ge> n" "\<not> (startTerm > -1 \<and> (\<exists>t \<in> set (terms k). t > startTerm))" by blast
  then show ?case
  proof cases
    case enough
    then obtain nd' cmd where "nCommitted index (cfgs (k + 1)) = Inr (nd', cmd)" "n \<le> nd'" "r = Decided cmd"
      using Cons.prems nd by (auto simp: bindE_Inr_conv split: if_splits)
    then show ?thesis using final_look [of index cfgs "k + 1" nd' cmd n] assms(2) by (auto intro!: exI [of _ "k + 1"])
  next
    case moved
    then show ?thesis using Cons.prems nd by auto
  next
    case again
    then have "wait_loop cfgs terms index n startTerm iters (k + 1) = Inr r"
      using Cons.prems nd by (auto split: if_splits)
    note ih = Cons.IH [OF this]
    have "\<exists>j \<ge> k. j \<le> k + length (iter # iters) \<and> decided index n cmd (cfgs j)" if r: "r = Decided cmd" for cmd
    proof -
      obtain j where "k + 1 \<le> j" "j \<le> k + 1 + length iters" "decided index n cmd (cfgs j)" using ih r by blast
      then show ?thesis by (intro exI [of _ j]) simp
    qed
    moreover have "startTerm > -1 \<and> (\<exists>j \<ge> k. \<exists>t \<in> set (terms j). t > startTerm)" if r: "r = MovedOn"
    proof -
      obtain j t where "k + 1 \<le> j" "t \<in> set (terms j)" "t > startTerm" "startTerm > -1" using ih r by blast
      then show ?thesis by (auto intro!: exI [of _ j])
    qed
    ultimately show ?thesis by blast
  qed
qed

text \<open>\<^verbatim>\<open>one\<close> returns the index a connected peer gave for the command, once enough peers have applied it there.\<close>

lemma try_servers_sound:
  assumes "try_servers cfg st sis starts = Inr (index, s)" "index \<noteq> -1"
  shows "s < length (cf_connected cfg) \<and> cf_connected cfg ! s \<and> cf_rafts cfg ! s \<noteq> None \<and> st s = (index, True)"
  using assms(1)
proof (induction sis arbitrary: starts)
  case Nil
  then show ?case using assms(2) by simp
next
  case (Cons si sis)
  let ?s = "(starts + 1) mod cf_n cfg"
  obtain up rf where r: "slice_get (cf_connected cfg) ?s = Inr up"
      "(if up then slice_get (cf_rafts cfg) ?s else Inr None) = Inr rf"
      "(if rf \<noteq> None \<and> snd (st ?s) then Inr (fst (st ?s), ?s) else try_servers cfg st sis ?s) = Inr (index, s)"
    using Cons.prems unfolding try_servers.simps Let_def bindE_Inr_conv by blast
  show ?case
  proof (cases "rf \<noteq> None \<and> snd (st ?s)")
    case True
    then have "s = ?s" "st ?s = (index, True)" using r(3) by (auto simp: prod_eq_iff)
    then show ?thesis using True r(1,2) by (auto simp: slice_get_def split: if_splits)
  next
    case False
    then show ?thesis using r(3) Cons.IH by auto
  qed
qed

lemma await_commit_sound:
  assumes "await_commit cmd expectedServers index looks = Inr True" "\<forall>cfg \<in> set looks. sized cfg"
  shows "\<exists>cfg \<in> set looks. committed index cfg \<noteq> [] \<and> decided index expectedServers cmd cfg"
  using assms
proof (induction looks)
  case (Cons cfg cfgs)
  then obtain nd cmd1 where nd: "nCommitted index cfg = Inr (nd, cmd1)" by (auto simp: bindE_Inr_conv)
  have s: "nd = length (committed index cfg)" "\<forall>v \<in> set (committed index cfg). v = cmd1"
    using nCommitted_sound [OF nd] Cons.prems(2) by (simp_all add: sized_def)
  show ?case
  proof (cases "nd > 0 \<and> nd \<ge> expectedServers \<and> cmd1 = cmd")
    case True
    then show ?thesis using s by (auto simp: decided_def)
  next
    case False
    then have "await_commit cmd expectedServers index cfgs = Inr True" using Cons.prems(1) nd by auto
    then show ?thesis using Cons by simp
  qed
qed simp

definition agreement :: "'v iface \<Rightarrow> nat \<Rightarrow> int \<Rightarrow> 'v one_round \<Rightarrow> bool" where
  "agreement cmd expectedServers index r \<longleftrightarrow>
     (\<exists>s < length (cf_connected (or_cfg r)). cf_connected (or_cfg r) ! s \<and> cf_rafts (or_cfg r) ! s \<noteq> None \<and>
        or_start r s = (index, True)) \<and>
     (\<exists>cfg \<in> set (or_looks r). committed index cfg \<noteq> [] \<and> decided index expectedServers cmd cfg)"

lemma one_loop_sound:
  assumes "one_loop cmd expectedServers retry rounds starts = Inr index" "\<forall>r \<in> set rounds. \<forall>cfg \<in> set (or_looks r). sized cfg"
  shows "\<exists>r \<in> set rounds. agreement cmd expectedServers index r"
  using assms
proof (induction rounds arbitrary: starts)
  case (Cons r rounds)
  obtain ix s where t: "try_servers (or_cfg r) (or_start r) [0..<cf_n (or_cfg r)] starts = Inr (ix, s)"
    using Cons.prems(1) by (auto simp: bindE_Inr_conv)
  show ?case
  proof (cases "ix \<noteq> -1 \<and> await_commit cmd expectedServers ix (or_looks r) = Inr True")
    case True
    then have "index = ix" using Cons.prems(1) t by simp
    then have "agreement cmd expectedServers index r"
      using try_servers_sound [OF t] await_commit_sound [of cmd expectedServers ix "or_looks r"] True Cons.prems(2)
      unfolding agreement_def by auto
    then show ?thesis by simp
  next
    case False
    then have "one_loop cmd expectedServers retry rounds s = Inr index"
      using Cons.prems(1) t by (auto simp: bindE_Inr_conv split: if_splits)
    from Cons.IH [OF this] show ?thesis using Cons.prems(2) by auto
  qed
qed simp


section \<open>Leaders\<close>

text \<open>The connected peers that call themselves leader in a term.\<close>

definition leaders_in :: "(nat \<Rightarrow> int \<times> bool) \<Rightarrow> bool list \<Rightarrow> nat \<Rightarrow> int \<Rightarrow> nat list" where
  "leaders_in gs connected n t = filter (\<lambda>i. connected ! i \<and> gs i = (t, True)) [0..<n]"

definition leader_table :: "(nat \<Rightarrow> int \<times> bool) \<Rightarrow> bool list \<Rightarrow> nat \<Rightarrow> (int \<times> nat list) list \<Rightarrow> bool" where
  "leader_table gs connected n tbl \<longleftrightarrow>
     distinct (map fst tbl) \<and>
     (\<forall>t. map_of tbl t = (if leaders_in gs connected n t = [] then None else Some (leaders_in gs connected n t)))"

lemma add_leader_table:
  assumes "k < length connected" "leader_table gs connected k tbl"
  shows "\<exists>tbl'. add_leader gs connected k tbl = Inr tbl' \<and> leader_table gs connected (Suc k) tbl'"
proof (cases "connected ! k \<and> snd (gs k)")
  case True
  obtain t where t: "gs k = (t, True)" using True by (cases "gs k") auto
  let ?old = "leaders_in gs connected k t"
  have "(case map_of tbl t of None \<Rightarrow> [] | Some l \<Rightarrow> l) = ?old" using assms(2) by (simp add: leader_table_def)
  then have "add_leader gs connected k tbl = Inr (AList.update t (?old @ [k]) tbl)"
    using assms(1) True t by (simp add: add_leader_def Let_def)
  moreover have "leaders_in gs connected (Suc k) t' = (if t' = t then ?old @ [k] else leaders_in gs connected k t')" for t'
    using True t by (auto simp: leaders_in_def)
  then have "leader_table gs connected (Suc k) (AList.update t (?old @ [k]) tbl)"
    using assms(2) by (auto simp: leader_table_def update_conv' distinct_update)
  ultimately show ?thesis by blast
next
  case False
  then have "leaders_in gs connected (Suc k) t = leaders_in gs connected k t" for t by (auto simp: leaders_in_def)
  then show ?thesis using assms False by (auto simp: add_leader_def leader_table_def)
qed

lemma leader_table_all:
  assumes "k \<le> length connected"
  shows "\<exists>tbl. foldE (add_leader gs connected) [0..<k] [] = Inr tbl \<and> leader_table gs connected k tbl"
  using assms
proof (induction k)
  case 0
  then show ?case by (simp add: leader_table_def leaders_in_def)
next
  case (Suc k)
  then obtain tbl where tbl: "foldE (add_leader gs connected) [0..<k] [] = Inr tbl" "leader_table gs connected k tbl" by auto
  then obtain tbl' where "add_leader gs connected k tbl = Inr tbl'" "leader_table gs connected (Suc k) tbl'"
    using add_leader_table [of k connected gs tbl] Suc.prems by auto
  then show ?case using tbl by (simp add: foldE_append)
qed

lemma scan_leaders_sound:
  assumes "scan_leaders tbl t0 = Inr t"
  shows "(\<forall>(u, l) \<in> set tbl. length l \<le> 1 \<and> u \<le> t) \<and> t0 \<le> t \<and> (t = t0 \<or> t \<in> fst ` set tbl)"
  using assms
proof (induction tbl arbitrary: t0)
  case (Cons ul tbl)
  obtain u l where ul: "ul = (u, l)" by (cases ul)
  then have "length l \<le> 1" "scan_leaders tbl (if u > t0 then u else t0) = Inr t"
    using Cons.prems by (auto split: if_splits)
  then show ?case using Cons.IH [of "if u > t0 then u else t0"] ul by (auto split: if_splits)
qed simp

text \<open>The leader of the newest term, and that each term has only one.\<close>

definition one_leader :: "(nat \<Rightarrow> int \<times> bool) \<Rightarrow> bool list \<Rightarrow> nat \<Rightarrow> nat \<Rightarrow> bool" where
  "one_leader gs connected n i \<longleftrightarrow>
     i < n \<and> connected ! i \<and> snd (gs i) \<and>
     (\<forall>j < n. connected ! j \<and> snd (gs j) \<longrightarrow> fst (gs j) \<le> fst (gs i)) \<and>
     (\<forall>j < n. \<forall>k < n. connected ! j \<and> connected ! k \<and> snd (gs j) \<and> snd (gs k) \<and> fst (gs j) = fst (gs k) \<longrightarrow> j = k)"

lemma leaders_in_iff: "i \<in> set (leaders_in gs connected n t) \<longleftrightarrow> i < n \<and> connected ! i \<and> gs i = (t, True)"
  by (auto simp: leaders_in_def)


lemma distinct_length_le_one: "distinct xs \<Longrightarrow> \<forall>x \<in> set xs. \<forall>y \<in> set xs. x = y \<Longrightarrow> length xs \<le> 1"
  using card_le_Suc0_iff_eq [of "set xs"] by (simp add: distinct_card)

lemma scan_leaders_total: "\<forall>(u, l) \<in> set tbl. length l \<le> 1 \<Longrightarrow> \<exists>t. scan_leaders tbl t0 = Inr t"
  by (induction tbl arbitrary: t0) auto

lemma leader_table_entry:
  assumes "leader_table gs connected n tbl" "(u, l) \<in> set tbl"
  shows "l = leaders_in gs connected n u" "l \<noteq> []"
proof -
  have "map_of tbl u = Some l" using assms map_of_is_SomeI unfolding leader_table_def by fast
  then show "l = leaders_in gs connected n u" "l \<noteq> []" using assms(1) by (auto simp: leader_table_def split: if_splits)
qed

lemma leader_table_covers:
  assumes "leader_table gs connected n tbl" "j < n" "connected ! j" "snd (gs j)"
  shows "(fst (gs j), leaders_in gs connected n (fst (gs j))) \<in> set tbl"
proof -
  have "j \<in> set (leaders_in gs connected n (fst (gs j)))" using assms by (simp add: leaders_in_iff prod_eq_iff)
  then have "map_of tbl (fst (gs j)) = Some (leaders_in gs connected n (fst (gs j)))"
    using assms(1) by (auto simp: leader_table_def)
  then show ?thesis by (rule map_of_SomeD)
qed

lemma leader_of_table:
  assumes tbl: "leader_table gs connected n tbl" and scan: "scan_leaders tbl (-1) = Inr t"
    and i: "slice_get (case map_of tbl t of None \<Rightarrow> [] | Some l \<Rightarrow> l) 0 = Inr i"
  shows "one_leader gs connected n i"
proof -
  let ?L = "leaders_in gs connected n"
  note s = scan_leaders_sound [OF scan]
  have "(case map_of tbl t of None \<Rightarrow> [] | Some l \<Rightarrow> l) = ?L t" using tbl by (simp add: leader_table_def)
  then have "i \<in> set (?L t)" using i nth_mem [of 0 "?L t"] by (auto simp: slice_get_def split: if_splits)
  then have "i < n" "connected ! i" "gs i = (t, True)" by (simp_all add: leaders_in_iff)
  moreover have "fst (gs j) \<le> t" if "j < n" "connected ! j" "snd (gs j)" for j
    using leader_table_covers [OF tbl that] s by blast
  moreover have "j = k" if jk: "j < n" "k < n" "connected ! j" "connected ! k" "snd (gs j)" "snd (gs k)" "fst (gs j) = fst (gs k)" for j k
  proof -
    have "length (?L (fst (gs j))) \<le> 1" using leader_table_covers [OF tbl jk(1,3,5)] s by blast
    moreover have "j \<in> set (?L (fst (gs j)))" "k \<in> set (?L (fst (gs j)))" using jk by (simp_all add: leaders_in_iff prod_eq_iff)
    ultimately show "j = k" by (cases "?L (fst (gs j))") auto
  qed
  ultimately show ?thesis unfolding one_leader_def by auto
qed

lemma checkOneLeader_sound:
  assumes "checkOneLeader_loop gs cfg iters = Inr i" "length (cf_connected cfg) = cf_n cfg"
  shows "\<exists>iter \<in> set iters. one_leader (gs iter) (cf_connected cfg) (cf_n cfg) i"
  using assms(1)
proof (induction iters)
  case (Cons iter iters)
  obtain tbl where tbl: "foldE (add_leader (gs iter) (cf_connected cfg)) [0..<cf_n cfg] [] = Inr tbl"
      "leader_table (gs iter) (cf_connected cfg) (cf_n cfg) tbl"
    using leader_table_all [of "cf_n cfg" "cf_connected cfg" "gs iter"] assms(2) by auto
  then obtain t where t: "scan_leaders tbl (-1) = Inr t" using Cons.prems by (auto simp: bindE_Inr_conv)
  show ?case
  proof (cases "tbl = []")
    case True
    then show ?thesis using Cons tbl(1) t by auto
  next
    case False
    then show ?thesis using leader_of_table [OF tbl(2) t] Cons.prems tbl(1) t by simp
  qed
qed simp

text \<open>A single leader of the newest term is found at the first look.\<close>

lemma checkOneLeader_complete:
  assumes one: "one_leader (gs iter) (cf_connected cfg) (cf_n cfg) i" and "length (cf_connected cfg) = cf_n cfg"
    and nonneg: "0 \<le> fst (gs iter i)"
  shows "checkOneLeader_loop gs cfg (iter # iters) = Inr i"
proof -
  let ?gs = "gs iter" and ?c = "cf_connected cfg" and ?n = "cf_n cfg"
  let ?L = "leaders_in ?gs ?c ?n"
  obtain tbl where tbl: "foldE (add_leader ?gs ?c) [0..<?n] [] = Inr tbl" "leader_table ?gs ?c ?n tbl"
    using leader_table_all [of ?n ?c ?gs] assms(2) by auto
  have uniq: "length (?L u) \<le> 1" for u
  proof -
    have "distinct (?L u)" by (simp add: leaders_in_def)
    moreover have "\<forall>j \<in> set (?L u). \<forall>k \<in> set (?L u). j = k" using one by (auto simp: leaders_in_iff one_leader_def)
    ultimately show ?thesis by (metis distinct_length_le_one)
  qed
  then have "\<forall>(u, l) \<in> set tbl. length l \<le> 1" using leader_table_entry(1) [OF tbl(2)] by auto
  then obtain t where t: "scan_leaders tbl (-1) = Inr t" using scan_leaders_total by blast
  note s = scan_leaders_sound [OF t]
  have i: "i < ?n" "?c ! i" "?gs i = (fst (?gs i), True)" using one by (auto simp: one_leader_def prod_eq_iff)
  have ent: "(fst (?gs i), ?L (fst (?gs i))) \<in> set tbl" using leader_table_covers [OF tbl(2) i(1,2)] i(3) by (metis snd_conv)
  then have "fst (?gs i) \<le> t" using s by blast
  moreover have "t \<le> fst (?gs i)"
  proof -
    obtain l where "(t, l) \<in> set tbl" using s nonneg \<open>fst (?gs i) \<le> t\<close> by force
    then obtain j where "j \<in> set (?L t)" using leader_table_entry [OF tbl(2)] by (metis list.set_intros(1) neq_Nil_conv)
    then show ?thesis using one by (auto simp: leaders_in_iff one_leader_def)
  qed
  ultimately have te: "t = fst (?gs i)" by simp
  have mem: "i \<in> set (?L t)" using i te by (simp add: leaders_in_iff)
  then have "?L t = [i]" using uniq [of t] by (cases "?L t") auto
  then have "map_of tbl t = Some [i]" using tbl(2) by (simp add: leader_table_def)
  then show ?thesis using tbl(1) t ent by auto
qed

section \<open>Terms\<close>

lemma checkTerms_sound:
  assumes "checkTerms gs cfg = Inr t" "\<forall>i < cf_n cfg. fst (gs i) \<noteq> -1"
  shows "\<forall>i < cf_n cfg. cf_connected cfg ! i \<longrightarrow> fst (gs i) = t"
proof -
  let ?f = "\<lambda>i term.
       bindE (slice_get (cf_connected cfg) i) (\<lambda>up.
       if up then
         (let xterm = fst (gs i) in
          if term = -1 then Inr xterm
          else if term \<noteq> xterm then Inl (Fatal ''servers disagree on term'')
          else Inr term)
       else Inr term)"
  have "foldE ?f [0..<k] (-1) = Inr u \<Longrightarrow> k \<le> cf_n cfg \<Longrightarrow> \<forall>i < k. cf_connected cfg ! i \<longrightarrow> u \<noteq> -1 \<and> fst (gs i) = u" for k u
  proof (induction k arbitrary: u)
    case (Suc k)
    then obtain w where w: "foldE ?f [0..<k] (-1) = Inr w" "?f k w = Inr u"
      by (auto simp: foldE_append bindE_Inr_conv)
    then have ih: "\<forall>i < k. cf_connected cfg ! i \<longrightarrow> w \<noteq> -1 \<and> fst (gs i) = w" using Suc by simp
    have "fst (gs k) \<noteq> -1" using assms(2) Suc.prems(2) by simp
    then show ?case using ih w(2)
      by (auto simp: slice_get_def Let_def less_Suc_eq split: if_splits)
  qed simp
  from this [of "cf_n cfg" t] show ?thesis using assms(1) by (simp add: checkTerms_def)
qed

end
