(* ===== verification/Raft_Properties.thy ===== *)
theory Raft_Properties
  imports Raft_Config_Correct Raft_Agreement Labgob
begin

text \<open>
  What the outline of the Raft lab and its test configuration guarantee: connectivity as the tests
  see it, stable storage across crashes, agreement of what is applied, leaders and terms.
\<close>

section \<open>Connectivity\<close>

text \<open>C24.
  In every configuration that a test can reach by building it, connecting, disconnecting, crashing
  and starting peers while calls are in flight: none of these operations panics, the end through
  which peer \<open>i\<close> calls peer \<open>j\<close> leads to \<open>j\<close>, and it is enabled exactly if both are connected.
\<close>

theorem config_connectivity:
  assumes "config_reach zero n cfg" "i < n" "j < n"
  shows "(\<exists>es. cf_endnames cfg ! i = Some es \<and> length es = n \<and>
      nw_connections (cf_net cfg) (EndName (es ! j)) = Some (ServerName j) \<and>
      (nw_enabled (cf_net cfg) (EndName (es ! j)) \<longleftrightarrow> cf_connected cfg ! i \<and> cf_connected cfg ! j)) \<and>
    (\<exists>c. config_connect i cfg = Inr c \<and> cf_connected c = (cf_connected cfg)[i := True]) \<and>
    (\<exists>c. config_disconnect i cfg = Inr c \<and> cf_connected c = (cf_connected cfg)[i := False]) \<and>
    (\<exists>c. crash1 i cfg = Inr c) \<and>
    (\<forall>names. fresh_names cfg names \<longrightarrow> (\<exists>c. start1 zero names i cfg = Inr c))"
proof -
  have inv: "config_inv cfg" and n: "cf_n cfg = n" and row: "cf_endnames cfg ! i \<noteq> None"
    using config_reach_ready [OF assms(1)] assms(2) by (auto simp: ready_def)
  obtain es where es: "row cfg i es" using row n assms(2) by (auto simp: row_def)
  then have "length es = n" using inv n by (simp add: config_inv_def sizes_ok_def)
  moreover have "nw_connections (cf_net cfg) (EndName (es ! j)) = Some (ServerName j) \<and>
      (nw_enabled (cf_net cfg) (EndName (es ! j)) \<longleftrightarrow> cf_connected cfg ! i \<and> cf_connected cfg ! j)"
    using inv es assms(3) n unfolding config_inv_def links_ok_def by blast
  moreover have "cf_endnames cfg ! i = Some es" using es by (simp add: row_def)
  moreover have i: "i < cf_n cfg" using assms(2) n by simp
  ultimately show ?thesis
    using config_connect_ok [OF inv i row] config_disconnect_ok [OF inv i] crash1_ok [OF inv i] start1_ok [OF inv i]
    by blast
qed

definition demo_draws :: "nat \<Rightarrow> string list" where
  "demo_draws i = (if i = 0 then [''aa'', ''ab''] else [''ba'', ''bb''])"

definition demo_base :: "(name, bytes, name raft) network" where
  "demo_base = MakeNetwork (\<lambda>_. MakeServer) (\<lambda>_. Raft_Make [] 0 (\<lambda>_. MakePersister) 0)"

lemma demo_draws_good: "good_draws 2 demo_draws"
proof -
  have "[0..<2] = [0, 1 :: nat]" by (simp add: upt_rec)
  then show ?thesis by (simp add: good_draws_def demo_draws_def)
qed

lemma demo_base_empty: "nw_ends demo_base = {}"
  by (simp add: demo_base_def MakeNetwork_def)

lemma demo_make: "\<exists>cfg. make_config [] demo_draws 2 False demo_base = Inr cfg \<and> config_reach [] 2 cfg \<and>
    (\<forall>i < 2. cf_connected cfg ! i \<and> cf_endnames cfg ! i = Some (demo_draws i)) \<and> cf_logs cfg = [Map.empty, Map.empty]"
proof -
  obtain cfg where cfg: "make_config [] demo_draws 2 False demo_base = Inr cfg"
      "\<forall>i < 2. cf_connected cfg ! i \<and> cf_endnames cfg ! i = Some (demo_draws i)" "cf_logs cfg = replicate 2 Map.empty"
    using make_config_ok [OF demo_draws_good demo_base_empty, of "[]" False] by auto
  have "config_reach [] 2 cfg" by (rule config_reach.make [OF demo_draws_good demo_base_empty cfg(1)])
  then show ?thesis using cfg by (auto simp: numeral_2_eq_2)
qed

theorem config_connectivity_witness:
  "\<exists>cfg c. make_config [] demo_draws 2 False demo_base = Inr cfg \<and> config_disconnect 1 cfg = Inr c \<and>
     nw_enabled (cf_net cfg) (EndName ''ab'') \<and> \<not> nw_enabled (cf_net c) (EndName ''ab'')"
proof -
  obtain cfg where cfg: "make_config [] demo_draws 2 False demo_base = Inr cfg" "config_reach [] 2 cfg"
      "\<forall>i < 2. cf_connected cfg ! i \<and> cf_endnames cfg ! i = Some (demo_draws i)" using demo_make by blast
  have up: "nw_enabled (cf_net cfg) (EndName ''ab'')"
    using config_connectivity [OF cfg(2), of 0 1] cfg(3) by (auto simp: demo_draws_def)
  obtain c where c: "config_disconnect 1 cfg = Inr c" "cf_connected c = (cf_connected cfg)[1 := False]"
    using config_connectivity [OF cfg(2), of 1 1] by auto
  have inv: "config_inv cfg" "cf_n cfg = 2" using config_reach_ready [OF cfg(2)] by (simp_all add: ready_def)
  then have len: "length (cf_connected cfg) = 2" by (simp add: config_inv_def sizes_ok_def)
  have "same_shape cfg c" using config_disconnect_ok [OF inv(1), of 1] inv(2) c(1) by auto
  then have "cf_endnames c = cf_endnames cfg" using same_shape_fields by blast
  moreover have "config_reach [] 2 c" using config_reach.disconnect [OF cfg(2) _ c(1)] by simp
  ultimately have "\<not> nw_enabled (cf_net c) (EndName ''ab'')"
    using config_connectivity [of "[]" 2 c 0 1] cfg(3) c(2) len by (auto simp: demo_draws_def)
  then show ?thesis using cfg(1) c(1) up by blast
qed

section \<open>Crashes\<close>

text \<open>C25.
  Crash a peer and start it again: the old instance is killed and its server is gone, so that calls
  to it fail; the new instance is alive, served under the same name, and reads back exactly the
  state and the snapshot that had been saved; and it has a persister of its own, so that nothing the
  old instance still writes can reach it.
\<close>

theorem crash_restart_keeps_state:
  assumes "config_reach zero n cfg" "i < n" "cf_saved cfg ! i = Some p" "cf_rafts cfg ! i = Some r"
    "fresh_names cfg names"
  shows "\<exists>c c' q. crash1 i cfg = Inr c \<and> start1 zero names i c = Inr c' \<and>
    killed (nw_objs (cf_net c) r) \<and> nw_servers (cf_net c) (ServerName i) = None \<and>
    cf_saved c' ! i = Some q \<and> q \<noteq> p \<and>
    ReadRaftState (cf_persisters c' q) = ReadRaftState (cf_persisters cfg p) \<and>
    ReadSnapshot (cf_persisters c' q) = ReadSnapshot (cf_persisters cfg p) \<and>
    (\<exists>a. nw_servers (cf_net c') (ServerName i) = Some a \<and> \<not> killed (nw_objs (cf_net c') a) \<and>
       rf_persister (nw_objs (cf_net c') a) = q)"
proof -
  have inv: "config_inv cfg" and n: "cf_n cfg = n" using config_reach_ready [OF assms(1)] by (simp_all add: ready_def)
  have i: "i < cf_n cfg" using assms(2) n by simp
  have "length (cf_saved cfg) = n" using inv n by (simp add: config_inv_def sizes_ok_def)
  then have "Some p \<in> set (cf_saved cfg)" using assms(2,3) by (metis nth_mem)
  then have p: "p < cf_brk cfg" using inv by (simp add: config_inv_def)
  obtain c where c: "crash1 i cfg = Inr c" "crashed i cfg c" using crash1_ok [OF inv i] by blast
  then have inv1: "config_inv c" and i1: "i < cf_n c" and fr: "fresh_names c names" and g: "cf_brk cfg \<le> cf_brk c"
    using i assms(5) by (simp_all add: crashed_def fresh_names_def grows_def)
  obtain c' where c': "start1 zero names i c = Inr c'" "started zero names i c c'" using start1_ok [OF inv1 i1 fr] by blast
  obtain a q where aq: "nw_servers (cf_net c') (ServerName i) = Some a" "cf_saved c' ! i = Some q"
      "rf_persister (nw_objs (cf_net c') a) = q" "\<not> killed (nw_objs (cf_net c') a)"
    using c'(2) by (auto simp: started_def alive_def)
  have "saved_contents c' i = saved_contents cfg i"
    using c(2) c'(2) assms(3) by (auto simp: started_def crashed_def saved_contents_def)
  then have "ReadRaftState (cf_persisters c' q) = ReadRaftState (cf_persisters cfg p)"
    "ReadSnapshot (cf_persisters c' q) = ReadSnapshot (cf_persisters cfg p)"
    using aq(2) assms(3) by (simp_all add: saved_contents_def)
  moreover have "q \<noteq> p" using c'(2) aq(2) g p by (auto simp: started_def)
  moreover have "killed (nw_objs (cf_net c) r)" "nw_servers (cf_net c) (ServerName i) = None"
    using c(2) assms(4) by (simp_all add: crashed_def)
  ultimately show ?thesis using c(1) c'(1) aq by blast
qed

text \<open>A configuration of one peer that has saved something.\<close>

definition demo_peer :: "bytes config" where
  "demo_peer =
     (let c = (case make_config [] (\<lambda>_. [''a'']) 1 False demo_base of Inr c \<Rightarrow> c | Inl _ \<Rightarrow> empty_config 1 False demo_base);
          p = (case cf_saved c ! 0 of Some p \<Rightarrow> p | None \<Rightarrow> 0) in
      c\<lparr>cf_persisters := (cf_persisters c)(p := SaveStateAndSnapshot [1, 2] [3] (cf_persisters c p))\<rparr>)"


lemma demo_peer_reach: "config_reach [] 1 demo_peer"
proof -
  have good: "good_draws 1 (\<lambda>_. [''a''])" by (simp add: good_draws_def)
  obtain c where "make_config [] (\<lambda>_. [''a'']) 1 False demo_base = Inr c"
    using make_config_ok [OF good demo_base_empty, of "[]" False] by blast
  then show ?thesis
    using config_reach.save [OF config_reach.make [OF good demo_base_empty]] by (simp add: demo_peer_def Let_def)
qed

lemma demo_peer_fields: "cf_saved demo_peer = [Some 0]" "cf_rafts demo_peer = [Some 1]" "nw_ends (cf_net demo_peer) = {EndName ''a''}"
    "ReadRaftState (cf_persisters demo_peer 0) = [1, 2]" "cf_n demo_peer = 1"
  by code_simp+

theorem crash_restart_keeps_state_witness:
  "\<exists>c c' q. crash1 0 demo_peer = Inr c \<and> start1 [] [''b''] 0 c = Inr c' \<and> cf_saved c' ! 0 = Some q \<and> q \<noteq> 0 \<and>
     ReadRaftState (cf_persisters c' q) = [1, 2]"
proof -
  have "fresh_names demo_peer [''b'']" by (simp add: fresh_names_def demo_peer_fields)
  from crash_restart_keeps_state [OF demo_peer_reach _ _ _ this, of 0 0 1] show ?thesis
    by (auto simp: demo_peer_fields)
qed


section \<open>What is applied\<close>

text \<open>C26.
  As long as the appliers, taking messages of all peers in any order, do not end the program: no two
  peers have applied different commands at the same index, no peer has skipped an index, and nothing
  that was applied is lost or changed.
\<close>

theorem appliers_agree:
  assumes "apply_all msgs cfg = Inr cfg'" "logs_ok (cf_logs cfg)" "\<forall>(i, m) \<in> set msgs. i < length (cf_logs cfg)"
  shows "(\<forall>i < length (cf_logs cfg). \<forall>j < length (cf_logs cfg). \<forall>k v w.
      (cf_logs cfg' ! i) k = Some v \<and> (cf_logs cfg' ! j) k = Some w \<longrightarrow> v = w) \<and>
    (\<forall>i < length (cf_logs cfg). \<forall>k > 1. (cf_logs cfg' ! i) k \<noteq> None \<longrightarrow> (cf_logs cfg' ! i) (k - 1) \<noteq> None) \<and>
    (\<forall>i < length (cf_logs cfg). cf_logs cfg ! i \<subseteq>\<^sub>m cf_logs cfg' ! i)"
proof -
  have ok: "logs_ok (cf_logs cfg')" and len: "length (cf_logs cfg') = length (cf_logs cfg)"
    and ext: "\<forall>j < length (cf_logs cfg). cf_logs cfg ! j \<subseteq>\<^sub>m cf_logs cfg' ! j"
    using apply_all_ok [OF assms] by auto
  have mem: "i < length (cf_logs cfg) \<Longrightarrow> cf_logs cfg' ! i \<in> set (cf_logs cfg')" for i using len by simp
  show ?thesis
  proof (intro conjI)
    show "\<forall>i < length (cf_logs cfg). \<forall>j < length (cf_logs cfg). \<forall>k v w.
      (cf_logs cfg' ! i) k = Some v \<and> (cf_logs cfg' ! j) k = Some w \<longrightarrow> v = w"
    proof (intro allI impI)
      fix i j k v w assume "i < length (cf_logs cfg)" "j < length (cf_logs cfg)"
        "(cf_logs cfg' ! i) k = Some v \<and> (cf_logs cfg' ! j) k = Some w"
      then show "v = w" using agreeD [OF _ mem [of i] mem [of j], of k v w] ok by (simp add: logs_ok_def)
    qed
    show "\<forall>i < length (cf_logs cfg). \<forall>k > 1. (cf_logs cfg' ! i) k \<noteq> None \<longrightarrow> (cf_logs cfg' ! i) (k - 1) \<noteq> None"
      using gap_freeD [OF ok mem] by blast
  qed (rule ext)
qed

definition demo_msg :: "int \<Rightarrow> bytes \<Rightarrow> bytes ApplyMsg" where
  "demo_msg k v = \<lparr>am_CommandValid = True, am_Command = Some v, am_CommandIndex = k, am_SnapshotValid = False,
     am_Snapshot = [], am_SnapshotTerm = 0, am_SnapshotIndex = 0\<rparr>"

definition demo_cfg :: "bytes config" where
  "demo_cfg = empty_config 2 False demo_base"

definition demo_msgs :: "(nat \<times> bytes ApplyMsg) list" where
  "demo_msgs = [(0, demo_msg 1 [5]), (1, demo_msg 1 [5]), (0, demo_msg 2 [6])]"

lemma demo_cfg_ok: "logs_ok (cf_logs demo_cfg)" "length (cf_logs demo_cfg) = 2"
  by (simp_all add: demo_cfg_def empty_config_def logs_ok_def agree_def gap_free_def)

lemma demo_applied:
  obtains cfg' where "apply_all demo_msgs demo_cfg = Inr cfg'" "(cf_logs cfg' ! 0) 1 = Some (Some [5])"
    "(cf_logs cfg' ! 0) 2 = Some (Some [6])" "(cf_logs cfg' ! 1) 2 = None" "length (cf_logs cfg') = 2"
proof -
  have e: "map_sum id (\<lambda>c. ((cf_logs c ! 0) 1, (cf_logs c ! 0) 2, (cf_logs c ! 1) 2, length (cf_logs c)))
      (apply_all demo_msgs demo_cfg) = Inr (Some (Some [5]), Some (Some [6]), None, 2)" by code_simp
  show thesis
  proof (cases "apply_all demo_msgs demo_cfg")
    case (Inr c)
    then show thesis using e by (intro that [of c]) simp_all
  qed (use e in simp)
qed

theorem appliers_agree_witness:
  "\<exists>cfg'. apply_all demo_msgs demo_cfg = Inr cfg' \<and> (cf_logs cfg' ! 0) 1 = Some (Some [5]) \<and>
     (\<forall>w. (cf_logs cfg' ! 1) 1 = Some w \<longrightarrow> w = Some [5])"
proof -
  obtain cfg' where c: "apply_all demo_msgs demo_cfg = Inr cfg'" "(cf_logs cfg' ! 0) 1 = Some (Some [5])"
    using demo_applied by metis
  have "\<forall>(i, m) \<in> set demo_msgs. i < length (cf_logs demo_cfg)" by (simp add: demo_msgs_def demo_cfg_ok)
  from appliers_agree [OF c(1) demo_cfg_ok(1) this] have
    "\<forall>i < 2. \<forall>j < 2. \<forall>k v w. (cf_logs cfg' ! i) k = Some v \<and> (cf_logs cfg' ! j) k = Some w \<longrightarrow> v = w"
    unfolding demo_cfg_ok by (rule conjunct1)
  note a = this [rule_format, of 0 1 1 "Some [5]"]
  have "w = Some [5]" if "(cf_logs cfg' ! 1) 1 = Some w" for w using a [of w] c(2) that by simp
  then show ?thesis using c by blast
qed

text \<open>C27.
  The applier of a peer ends the program exactly for a command that differs from what some peer has
  applied at that index, or that leaves a gap; every other command is recorded, and the largest index
  applied is kept up to date.
\<close>

theorem applier_detects_conflicts:
  assumes "i < length (cf_logs cfg)" "am_CommandValid m"
  shows "applier i m cfg =
    (if (\<exists>l \<in> set (cf_logs cfg). \<exists>v. l (am_CommandIndex m) = Some v \<and> v \<noteq> am_Command m) \<or>
        am_CommandIndex m > 1 \<and> (cf_logs cfg ! i) (am_CommandIndex m - 1) = None
     then Inl (Fatal ''apply error'')
     else Inr (cfg\<lparr>cf_logs := (cf_logs cfg)[i := (cf_logs cfg ! i)(am_CommandIndex m \<mapsto> am_Command m)],
                   cf_maxIndex := max (cf_maxIndex cfg) (am_CommandIndex m)\<rparr>))"
proof -
  have "acceptable i m (cf_logs cfg) \<longleftrightarrow>
      \<not> ((\<exists>l \<in> set (cf_logs cfg). \<exists>v. l (am_CommandIndex m) = Some v \<and> v \<noteq> am_Command m) \<or>
        am_CommandIndex m > 1 \<and> (cf_logs cfg ! i) (am_CommandIndex m - 1) = None)"
    unfolding acceptable_def by (metis insert_iff not_None_eq option.distinct(1) option.inject singletonD)
  then show ?thesis using assms by (simp add: applier_def apply_command_eq accept_def)
qed

theorem applier_detects_conflicts_witness:
  "\<exists>cfg'. apply_all demo_msgs demo_cfg = Inr cfg' \<and> applier 1 (demo_msg 2 [7]) cfg' = Inl (Fatal ''apply error'') \<and>
     applier 1 (demo_msg 3 [6]) cfg' = Inl (Fatal ''apply error'')"
proof -
  obtain cfg' where c: "apply_all demo_msgs demo_cfg = Inr cfg'" and l: "(cf_logs cfg' ! 0) 2 = Some (Some [6])"
      "(cf_logs cfg' ! 1) 2 = None" "length (cf_logs cfg') = 2"
    using demo_applied by metis
  have l0: "cf_logs cfg' ! 0 \<in> set (cf_logs cfg')" using l(3) by simp
  have "\<exists>l \<in> set (cf_logs cfg'). \<exists>v. l 2 = Some v \<and> v \<noteq> Some [7]" using l(1) by (intro bexI [OF _ l0]) simp
  then have "applier 1 (demo_msg 2 [7]) cfg' = Inl (Fatal ''apply error'')"
    using applier_detects_conflicts [of 1 cfg' "demo_msg 2 [7]"] l(3) by (simp add: demo_msg_def)
  moreover have "applier 1 (demo_msg 3 [6]) cfg' = Inl (Fatal ''apply error'')"
    using applier_detects_conflicts [of 1 cfg' "demo_msg 3 [6]"] l by (simp add: demo_msg_def)
  ultimately show ?thesis using c by blast
qed


section \<open>Agreement\<close>

text \<open>C28.
  If \<^verbatim>\<open>one(cmd, expectedServers, retry)\<close> returns an index, some connected peer accepted the command at
  that index, and at some moment at least \<^verbatim>\<open>expectedServers\<close> peers, and at least one, had applied a
  command there; every peer that had applied one had applied \<^verbatim>\<open>cmd\<close>.
\<close>

theorem one_means_agreement:
  assumes "config_one cmd expectedServers retry rounds = Inr index"
    "\<forall>r \<in> set rounds. \<forall>cfg \<in> set (or_looks r). length (cf_applyErr cfg) = length (cf_logs cfg)"
  shows "\<exists>r \<in> set rounds.
    (\<exists>s < length (cf_connected (or_cfg r)). cf_connected (or_cfg r) ! s \<and> cf_rafts (or_cfg r) ! s \<noteq> None \<and>
       or_start r s = (index, True)) \<and>
    (\<exists>cfg \<in> set (or_looks r). committed index cfg \<noteq> [] \<and> expectedServers \<le> length (committed index cfg) \<and>
       (\<forall>v \<in> set (committed index cfg). v = cmd))"
  using one_loop_sound [OF assms(1) [unfolded config_one_def]] assms(2)
  by (auto simp: agreement_def decided_def sized_def)

definition demo_round :: "bytes one_round" where
  "demo_round = \<lparr>or_cfg = demo_cfg\<lparr>cf_connected := [False, True], cf_rafts := [Some 0, Some 1]\<rparr>, or_start = (\<lambda>_. (1, True)),
     or_looks = [demo_cfg, demo_cfg\<lparr>cf_logs := [[1 \<mapsto> Some [5]], [1 \<mapsto> Some [5]]]\<rparr>]\<rparr>"

theorem one_means_agreement_witness:
  "config_one (Some [5]) 2 True [demo_round] = Inr 1 \<and>
   (\<exists>cfg \<in> set (or_looks demo_round). 2 \<le> length (committed 1 cfg) \<and> (\<forall>v \<in> set (committed 1 cfg). v = Some [5]))"
proof -
  have "config_one (Some [5]) 2 True [demo_round] = Inr 1" by code_simp
  moreover have "\<forall>r \<in> set [demo_round]. \<forall>cfg \<in> set (or_looks r). length (cf_applyErr cfg) = length (cf_logs cfg)"
    by (simp add: demo_round_def demo_cfg_def empty_config_def)
  ultimately show ?thesis using one_means_agreement [of "Some [5]" 2 True "[demo_round]" 1] by auto
qed

text \<open>If \<^verbatim>\<open>wait(index, n, startTerm)\<close> returns a command, at least \<open>n\<close> peers had applied a command at that
  index when it looked last, within thirty-one looks, and all of those had applied this one; if it
  gives up early, a term beyond \<^verbatim>\<open>startTerm\<close> was seen.
\<close>

theorem wait_means_decided:
  assumes "config_wait cfgs terms index n startTerm = Inr r"
    "\<forall>k. length (cf_applyErr (cfgs k)) = length (cf_logs (cfgs k))"
  shows "(\<forall>cmd. r = Decided cmd \<longrightarrow>
      (\<exists>j \<le> 30. n \<le> length (committed index (cfgs j)) \<and> (\<forall>v \<in> set (committed index (cfgs j)). v = cmd))) \<and>
    (r = MovedOn \<longrightarrow> startTerm > -1 \<and> (\<exists>j. \<exists>t \<in> set (terms j). t > startTerm))"
proof -
  have s: "\<forall>k. sized (cfgs k)" using assms(2) by (simp add: sized_def)
  from wait_loop_sound [OF assms(1) [unfolded config_wait_def] s] show ?thesis unfolding decided_def by auto
qed

theorem wait_means_decided_witness:
  "\<exists>j \<le> 30 :: nat. 2 \<le> length (committed 1 (or_looks demo_round ! (if j < 3 then 0 else 1)))"
proof -
  let ?cfgs = "\<lambda>j :: nat. or_looks demo_round ! (if j < 3 then 0 else 1)"
  have r: "config_wait ?cfgs (\<lambda>_. []) 1 2 (-1) = Inr (Decided (Some [5]))" by code_simp
  have s: "\<forall>k. length (cf_applyErr (?cfgs k)) = length (cf_logs (?cfgs k))"
    by (simp add: demo_round_def demo_cfg_def empty_config_def)
  from wait_means_decided [OF r s, THEN conjunct1, rule_format, of "Some [5]"] show ?thesis by fast
qed

section \<open>Leaders\<close>

text \<open>C29.
  \<^verbatim>\<open>checkOneLeader\<close> returns a peer only if, in one of its ten rounds, this peer is connected, leads
  the newest term in which a connected peer leads, and no term has two leaders among the connected
  peers; and if that is so in the first round already, it does return that peer.
\<close>

theorem checkOneLeader_correct:
  assumes "length (cf_connected cfg) = cf_n cfg"
  shows "(\<forall>i. checkOneLeader gs cfg = Inr i \<longrightarrow> (\<exists>iter < 10. one_leader (gs iter) (cf_connected cfg) (cf_n cfg) i)) \<and>
    (\<forall>i. one_leader (gs 0) (cf_connected cfg) (cf_n cfg) i \<and> 0 \<le> fst (gs 0 i) \<longrightarrow> checkOneLeader gs cfg = Inr i)"
proof (intro conjI allI impI)
  fix i assume "checkOneLeader gs cfg = Inr i"
  then show "\<exists>iter < 10. one_leader (gs iter) (cf_connected cfg) (cf_n cfg) i"
    using checkOneLeader_sound [of gs cfg "[0..<10]" i] assms by (auto simp: checkOneLeader_def)
next
  fix i assume "one_leader (gs 0) (cf_connected cfg) (cf_n cfg) i \<and> 0 \<le> fst (gs 0 i)"
  moreover have "[0..<10] = 0 # [1..<10 :: nat]" by (simp add: upt_conv_Cons)
  ultimately show "checkOneLeader gs cfg = Inr i"
    using checkOneLeader_complete [of gs 0 cfg i "[1..<10]"] assms by (simp only: checkOneLeader_def)
qed

theorem checkOneLeader_correct_witness:
  "checkOneLeader (\<lambda>_ i. if i = 0 then (3, True) else (4, True)) (demo_cfg\<lparr>cf_connected := [True, True]\<rparr>) = Inr 1"
proof -
  have "one_leader (\<lambda>i. if i = 0 then (3, True) else (4, True)) [True, True] 2 1"
    by (auto simp: one_leader_def less_2_cases_iff)
  then show ?thesis
    by (intro checkOneLeader_correct [THEN conjunct2, rule_format]) (simp_all add: demo_cfg_def empty_config_def)
qed

text \<open>
  The goroutine of a peer ends: once the peer has been killed, the ticker stops at its next look at
  the flag.
\<close>

theorem ticker_stops_after_Kill:
  assumes "\<forall>k \<ge> m. dead k = rf_dead (Raft_Kill rf)"
  shows "\<exists>k \<le> m. ticker dead 0 = Some k"
  using ticker_stops [of dead m] assms by (auto simp: Raft_Kill_def)

theorem ticker_stops_after_Kill_witness:
  "\<exists>k \<le> 5. ticker (\<lambda>k. if k < 5 then rf_dead (Raft_Make [] 0 (\<lambda>_. MakePersister) 0)
       else rf_dead (Raft_Kill (Raft_Make [] 0 (\<lambda>_. MakePersister) 0))) 0 = Some k"
  by (rule ticker_stops_after_Kill [where rf = "Raft_Make [] 0 (\<lambda>_. MakePersister) 0"]) (simp add: Raft_Kill_def)

end
