(* ===== verification/Cluster.thy ===== *)
theory Cluster
  imports Raft_Config
begin

text \<open>
  \<^verbatim>\<open>kvraft\<close> (\<^verbatim>\<open>common.go\<close>, \<^verbatim>\<open>client.go\<close>, \<^verbatim>\<open>server.go\<close>) and its test configuration \<^verbatim>\<open>kvraft/config.go\<close>, which
  \<^verbatim>\<open>shardctrler/config.go\<close> repeats for another type of server.  A configuration is a \<open>cluster\<close>; the
  type of server it is used with is given by \<open>server_ops\<close>.  Servers, peers, clerks and persisters are at addresses
  handed out by one counter; the objects behind the network's services are servers or Raft peers.
  Random names and numbers are arguments.
\<close>

section \<open>Servers\<close>

datatype 's object = RaftObj "name raft" | ServerObj 's

text \<open>
  What a configuration needs of a server's type: its name, the address of its Raft peer, what \<^verbatim>\<open>Kill\<close> does to
  the server itself, how it is made (from its number, \<^verbatim>\<open>maxraftstate\<close> and its peer), and the methods that
  reflection finds.
\<close>

record ('v, 's) server_ops =
  so_name :: string
  so_rf :: "'s \<Rightarrow> nat"
  so_Kill :: "'s \<Rightarrow> 's"
  so_make :: "nat \<Rightarrow> int \<Rightarrow> nat \<Rightarrow> 's"
  so_methods :: "('v, 's object) rpc_method list"

record ('v, 's) cluster =
  kc_net :: "(name, 'v, 's object) network"
  kc_n :: nat
  kc_servers :: "nat option list"
  kc_saved :: "nat option list"
  kc_endnames :: "string list option list"
  kc_clerks :: "nat \<rightharpoonup> string list"
  kc_nextClientId :: int
  kc_maxraftstate :: int
  kc_rpcs0 :: int
  kc_ops :: "32 word"
  kc_persisters :: "nat \<Rightarrow> Persister"
  kc_brk :: nat

section \<open>Connections\<close>

definition kc_enable :: "bool \<Rightarrow> string \<Rightarrow> ('v, 's) cluster \<Rightarrow> ('v, 's) cluster" where
  "kc_enable b e c = c\<lparr>kc_net := Enable (EndName e) b (kc_net c)\<rparr>"

definition kc_endname :: "('v, 's) cluster \<Rightarrow> nat \<Rightarrow> nat \<Rightarrow> string result" where
  "kc_endname c i j =
     bindE (slice_get (kc_endnames c) i) (\<lambda>row.
       case row of None \<Rightarrow> Inl IndexOutOfRange | Some es \<Rightarrow> slice_get es j)"

definition connectUnlocked :: "nat \<Rightarrow> nat list \<Rightarrow> ('v, 's) cluster \<Rightarrow> ('v, 's) cluster result" where
  "connectUnlocked i to c =
     bindE (foldE (\<lambda>t c. bindE (kc_endname c i t) (\<lambda>e. Inr (kc_enable True e c))) to c) (\<lambda>c.
     foldE (\<lambda>t c. bindE (kc_endname c t i) (\<lambda>e. Inr (kc_enable True e c))) to c)"

text \<open>
  The test in the second loop is on \<^verbatim>\<open>cfg.endnames[j]\<close>, for the position \<open>j\<close> in \<^verbatim>\<open>from\<close>, and not on
  \<^verbatim>\<open>cfg.endnames[from[j]]\<close>.
\<close>

definition disconnectUnlocked :: "nat \<Rightarrow> nat list \<Rightarrow> ('v, 's) cluster \<Rightarrow> ('v, 's) cluster result" where
  "disconnectUnlocked i from c =
     bindE (foldE (\<lambda>f c.
         bindE (slice_get (kc_endnames c) i) (\<lambda>row.
         if row \<noteq> None then bindE (kc_endname c i f) (\<lambda>e. Inr (kc_enable False e c)) else Inr c)) from c) (\<lambda>c.
     foldE (\<lambda>(j, f) c.
         bindE (slice_get (kc_endnames c) j) (\<lambda>row.
         if row \<noteq> None then bindE (kc_endname c f i) (\<lambda>e. Inr (kc_enable False e c)) else Inr c))
       (enumerate 0 from) c)"

text \<open>The exported functions take the configuration's lock around the others.\<close>

definition kc_connect :: "nat \<Rightarrow> nat list \<Rightarrow> ('v, 's) cluster \<Rightarrow> ('v, 's) cluster result" where
  "kc_connect i to c = connectUnlocked i to c"

definition kc_disconnect :: "nat \<Rightarrow> nat list \<Rightarrow> ('v, 's) cluster \<Rightarrow> ('v, 's) cluster result" where
  "kc_disconnect i from c = disconnectUnlocked i from c"

definition kc_All :: "('v, 's) cluster \<Rightarrow> nat list" where
  "kc_All c = [0..<kc_n c]"

definition ConnectAll :: "('v, 's) cluster \<Rightarrow> ('v, 's) cluster result" where
  "ConnectAll c = foldE (\<lambda>i c. connectUnlocked i (kc_All c) c) [0..<kc_n c] c"

definition cluster_partition :: "nat list \<Rightarrow> nat list \<Rightarrow> ('v, 's) cluster \<Rightarrow> ('v, 's) cluster result" where
  "cluster_partition p1 p2 c =
     bindE (foldE (\<lambda>i c. bindE (disconnectUnlocked i p2 c) (connectUnlocked i p1)) p1 c) (\<lambda>c.
     foldE (\<lambda>i c. bindE (disconnectUnlocked i p1 c) (connectUnlocked i p2)) p2 c)"

section \<open>Clerks\<close>

text \<open>The shuffle; \<open>draw i\<close> is the number drawn below \<open>i + 1\<close>.\<close>

definition swap_at :: "'a list \<Rightarrow> nat \<Rightarrow> nat \<Rightarrow> 'a list" where
  "swap_at xs i j = xs[i := xs ! j, j := xs ! i]"

definition random_handles :: "(nat \<Rightarrow> nat) \<Rightarrow> 'a list \<Rightarrow> 'a list" where
  "random_handles draw kvh = fold (\<lambda>i sa. swap_at sa i (draw i mod (i + 1))) [0..<length kvh] kvh"

record Clerk =
  ck_servers :: "name list"

definition MakeClerk :: "name list \<Rightarrow> Clerk" where
  "MakeClerk servers = \<lparr>ck_servers = servers\<rparr>"

definition Clerk_Get :: "Clerk \<Rightarrow> string \<Rightarrow> string" where
  "Clerk_Get ck key = ''''"

definition Clerk_PutAppend :: "Clerk \<Rightarrow> string \<Rightarrow> string \<Rightarrow> string \<Rightarrow> unit" where
  "Clerk_PutAppend ck key val op = ()"

definition Clerk_Put :: "Clerk \<Rightarrow> string \<Rightarrow> string \<Rightarrow> unit" where
  "Clerk_Put ck key val = Clerk_PutAppend ck key val ''Put''"

definition Clerk_Append :: "Clerk \<Rightarrow> string \<Rightarrow> string \<Rightarrow> unit" where
  "Clerk_Append ck key val = Clerk_PutAppend ck key val ''Append''"

definition clerk_names :: "('v, 's) cluster \<Rightarrow> nat \<Rightarrow> string list" where
  "clerk_names c ck = (case kc_clerks c ck of None \<Rightarrow> [] | Some v \<Rightarrow> v)"

definition ConnectClientUnlocked :: "nat \<Rightarrow> nat list \<Rightarrow> ('v, 's) cluster \<Rightarrow> ('v, 's) cluster result" where
  "ConnectClientUnlocked ck to c =
     (let endnames = clerk_names c ck in
      foldE (\<lambda>t c. bindE (slice_get endnames t) (\<lambda>s. Inr (kc_enable True s c))) to c)"

definition DisconnectClientUnlocked :: "nat \<Rightarrow> nat list \<Rightarrow> ('v, 's) cluster \<Rightarrow> ('v, 's) cluster result" where
  "DisconnectClientUnlocked ck from c =
     (let endnames = clerk_names c ck in
      foldE (\<lambda>f c. bindE (slice_get endnames f) (\<lambda>s. Inr (kc_enable False s c))) from c)"

definition ConnectClient :: "nat \<Rightarrow> nat list \<Rightarrow> ('v, 's) cluster \<Rightarrow> ('v, 's) cluster result" where
  "ConnectClient ck to c = ConnectClientUnlocked ck to c"

definition DisconnectClient :: "nat \<Rightarrow> nat list \<Rightarrow> ('v, 's) cluster \<Rightarrow> ('v, 's) cluster result" where
  "DisconnectClient ck from c = DisconnectClientUnlocked ck from c"

text \<open>The loop that creates ends; it also is the one of \<^verbatim>\<open>StartServer\<close>.\<close>

definition kc_make_end :: "string list \<Rightarrow> nat \<Rightarrow> ('v, 's) cluster \<Rightarrow> ('v, 's) cluster result" where
  "kc_make_end names j c =
     bindE (slice_get names j) (\<lambda>e.
     bindE (MakeEnd (EndName e) (kc_net c)) (\<lambda>net.
     Inr (c\<lparr>kc_net := Connect (EndName e) (ServerName j) net\<rparr>)))"

definition makeClient ::
    "string list \<Rightarrow> (nat \<Rightarrow> nat) \<Rightarrow> nat list \<Rightarrow> ('v, 's) cluster \<Rightarrow> (nat \<times> Clerk \<times> ('v, 's) cluster) result" where
  "makeClient names draw to c =
     bindE (foldE (kc_make_end names) [0..<kc_n c] c) (\<lambda>c.
     let endnames = take (kc_n c) names;
         ck = MakeClerk (random_handles draw (map EndName endnames));
         a = kc_brk c;
         c = c\<lparr>kc_clerks := (kc_clerks c)(a \<mapsto> endnames), kc_nextClientId := kc_nextClientId c + 1, kc_brk := Suc a\<rparr> in
     bindE (ConnectClientUnlocked a to c) (\<lambda>c. Inr (a, ck, c)))"

text \<open>The files named like the ends, which \<^verbatim>\<open>deleteClient\<close> removes, are not part of the state.\<close>

definition deleteClient :: "nat \<Rightarrow> ('v, 's) cluster \<Rightarrow> ('v, 's) cluster" where
  "deleteClient ck c = c\<lparr>kc_clerks := (kc_clerks c)(ck := None)\<rparr>"

section \<open>Shutting down and starting servers\<close>

definition kc_kill :: "('v, 's) server_ops \<Rightarrow> nat \<Rightarrow> ('v, 's) cluster \<Rightarrow> ('v, 's) cluster" where
  "kc_kill ops a c =
     (case nw_objs (kc_net c) a of
        ServerObj s \<Rightarrow>
          (let objs = (nw_objs (kc_net c))(a := ServerObj (so_Kill ops s));
               objs = (case objs (so_rf ops s) of
                         RaftObj rf \<Rightarrow> objs(so_rf ops s := RaftObj (Raft_Kill rf)) | ServerObj _ \<Rightarrow> objs)
           in c\<lparr>kc_net := (kc_net c)\<lparr>nw_objs := objs\<rparr>\<rparr>)
      | RaftObj _ \<Rightarrow> c)"

definition kc_save :: "nat \<Rightarrow> Persister \<Rightarrow> ('v, 's) cluster \<Rightarrow> ('v, 's) cluster result" where
  "kc_save i p c =
     bindE (slice_set (kc_saved c) i (Some (kc_brk c))) (\<lambda>s.
     Inr (c\<lparr>kc_persisters := (kc_persisters c)(kc_brk c := p), kc_saved := s, kc_brk := Suc (kc_brk c)\<rparr>))"

definition ShutdownServer :: "('v, 's) server_ops \<Rightarrow> nat \<Rightarrow> ('v, 's) cluster \<Rightarrow> ('v, 's) cluster result" where
  "ShutdownServer ops i c =
     bindE (disconnectUnlocked i (kc_All c) c) (\<lambda>c.
     let c = c\<lparr>kc_net := DeleteServer (ServerName i) (kc_net c)\<rparr> in
     bindE (slice_get (kc_saved c) i) (\<lambda>saved.
     bindE (case saved of None \<Rightarrow> Inr c | Some a \<Rightarrow> kc_save i (Persister_Copy (kc_persisters c a)) c) (\<lambda>c.
     bindE (slice_get (kc_servers c) i) (\<lambda>kv.
     case kv of
       None \<Rightarrow> Inr c
     | Some a \<Rightarrow>
         (let c = kc_kill ops a c in
          bindE (slice_set (kc_servers c) i None) (\<lambda>ss. Inr (c\<lparr>kc_servers := ss\<rparr>)))))))"

definition raft_service_methods :: "'v \<Rightarrow> ('v, 's object) rpc_method list" where
  "raft_service_methods zero =
     map (\<lambda>m. \<lparr>mt_Name = mt_Name m, mt_PkgPath = mt_PkgPath m, mt_NumIn = mt_NumIn m, mt_In2_Ptr = mt_In2_Ptr m,
            mt_NumOut = mt_NumOut m,
            mt_Func = (\<lambda>rcvr args. case rcvr of
              RaftObj rf \<Rightarrow> bindE (mt_Func m rf args) (\<lambda>(v, rf). Inr (v, RaftObj rf))
            | ServerObj s \<Rightarrow> Inl TypeAssertion)\<rparr>) (raft_methods zero)"

text \<open>
  \<^verbatim>\<open>StartServer\<close>: new ends, a new persister with the old contents, the server with its Raft peer, and a
  network server that offers the services of both.
\<close>

definition StartServer ::
    "('v, 's) server_ops \<Rightarrow> 'v \<Rightarrow> string list \<Rightarrow> nat \<Rightarrow> ('v, 's) cluster \<Rightarrow> ('v, 's) cluster result" where
  "StartServer ops zero names i c =
     bindE (slice_set (kc_endnames c) i (Some (take (kc_n c) names))) (\<lambda>rows.
     let c = c\<lparr>kc_endnames := rows\<rparr> in
     bindE (foldE (kc_make_end names) [0..<kc_n c] c) (\<lambda>c.
     bindE (slice_get (kc_saved c) i) (\<lambda>saved.
     bindE (kc_save i (case saved of
              Some a \<Rightarrow> Persister_Copy (kc_persisters c a) | None \<Rightarrow> MakePersister) c) (\<lambda>c.
     bindE (slice_get (kc_saved c) i) (\<lambda>saved.
     case saved of
       None \<Rightarrow> Inl NilDereference
     | Some p \<Rightarrow>
         (let r = kc_brk c; a = Suc r;
              rf = Raft_Make (map EndName (take (kc_n c) names)) i (kc_persisters c) p;
              kv = so_make ops i (kc_maxraftstate c) r;
              srv = AddService (AddService MakeServer (MakeService (so_name ops) a (so_methods ops)))
                      (MakeService ''Raft'' r (raft_service_methods zero));
              net = kc_net c;
              net = net\<lparr>nw_objs := (nw_objs net)(r := RaftObj rf, a := ServerObj kv), nw_store := (nw_store net)(a := srv)\<rparr> in
          bindE (slice_set (kc_servers c) i (Some a)) (\<lambda>ss.
          Inr (c\<lparr>kc_brk := Suc a, kc_servers := ss, kc_net := AddServer (ServerName i) a net\<rparr>))))))))"

definition empty_cluster :: "nat \<Rightarrow> int \<Rightarrow> (name, 'v, 's object) network \<Rightarrow> ('v, 's) cluster" where
  "empty_cluster n maxraftstate net =
     \<lparr>kc_net = net, kc_n = n, kc_servers = replicate n None, kc_saved = replicate n None,
      kc_endnames = replicate n None, kc_clerks = Map.empty, kc_nextClientId = int n + 1000,
      kc_maxraftstate = maxraftstate, kc_rpcs0 = 0, kc_ops = 0, kc_persisters = (\<lambda>_. MakePersister), kc_brk = 0\<rparr>"

definition kc_make_config ::
    "('v, 's) server_ops \<Rightarrow> 'v \<Rightarrow> (nat \<Rightarrow> string list) \<Rightarrow> nat \<Rightarrow> bool \<Rightarrow> int \<Rightarrow> (name, 'v, 's object) network
       \<Rightarrow> ('v, 's) cluster result" where
  "kc_make_config ops zero draws n unreliable maxraftstate net =
     bindE (foldE (\<lambda>i. StartServer ops zero (draws i) i) [0..<n] (empty_cluster n maxraftstate net)) (\<lambda>c.
     bindE (ConnectAll c) (\<lambda>c.
     Inr (c\<lparr>kc_net := Reliable (\<not> unreliable) (kc_net c)\<rparr>)))"

text \<open>
  The names as \<^verbatim>\<open>StartServer\<close> draws them: \<open>rnd i j\<close> are the bytes that \<^verbatim>\<open>crand.Read\<close> gives for the name of the end
  from server \<open>i\<close> to server \<open>j\<close>.  They are all drawn before the first server is started, which nothing depends on.
\<close>

definition random_endnames :: "nat \<Rightarrow> (nat \<Rightarrow> nat \<Rightarrow> 8 word) \<Rightarrow> string list result" where
  "random_endnames n rnd =
     foldE (\<lambda>j names. bindE (randstring 20 (rnd j)) (\<lambda>s. slice_set names j s)) [0..<n] (replicate n [])"

definition kc_random_config ::
    "('v, 's) server_ops \<Rightarrow> 'v \<Rightarrow> (nat \<Rightarrow> nat \<Rightarrow> nat \<Rightarrow> 8 word) \<Rightarrow> nat \<Rightarrow> bool \<Rightarrow> int \<Rightarrow> (name, 'v, 's object) network
       \<Rightarrow> ('v, 's) cluster result" where
  "kc_random_config ops zero rnd n unreliable maxraftstate net =
     bindE (foldE (\<lambda>i rows. bindE (random_endnames n (rnd i)) (\<lambda>names. slice_set rows i names)) [0..<n] (replicate n [])) (\<lambda>rows.
     kc_make_config ops zero (\<lambda>i. rows ! i) n unreliable maxraftstate net)"

definition kc_cleanup :: "('v, 's) server_ops \<Rightarrow> test_state \<Rightarrow> ('v, 's) cluster \<Rightarrow> ('v, 's) cluster result" where
  "kc_cleanup ops t c =
     (let c = fold (\<lambda>s c. case s of None \<Rightarrow> c | Some a \<Rightarrow> kc_kill ops a c) (kc_servers c) c in
      bindE (Cleanup (kc_net c)) (\<lambda>net.
      bindE (checkTimeout t) (\<lambda>_. Inr (c\<lparr>kc_net := net\<rparr>))))"

section \<open>Leader and sizes\<close>

text \<open>\<open>gs i\<close> is what \<^verbatim>\<open>cfg.kvservers[i].rf.GetState()\<close> returns; a missing server is dereferenced.\<close>

fun Leader_loop :: "(nat \<Rightarrow> int \<times> bool) \<Rightarrow> nat option list \<Rightarrow> nat list \<Rightarrow> (bool \<times> nat) result" where
  "Leader_loop gs servers [] = Inr (False, 0)"
| "Leader_loop gs servers (i # is) =
     bindE (slice_get servers i) (\<lambda>kv.
     if kv = None then Inl NilDereference
     else if snd (gs i) then Inr (True, i)
     else Leader_loop gs servers is)"

definition Leader :: "(nat \<Rightarrow> int \<times> bool) \<Rightarrow> ('v, 's) cluster \<Rightarrow> (bool \<times> nat) result" where
  "Leader gs c = Leader_loop gs (kc_servers c) [0..<kc_n c]"

text \<open>The body of the loop of \<^verbatim>\<open>make_partition\<close>, over \<open>(p1, p2, j)\<close>.\<close>

definition partition_step :: "nat \<Rightarrow> nat \<Rightarrow> nat list \<times> nat list \<times> nat \<Rightarrow> (nat list \<times> nat list \<times> nat) result" where
  "partition_step l i = (\<lambda>(p1, p2, j).
     if i \<noteq> l then
       (if j < length p1 then bindE (slice_set p1 j i) (\<lambda>p1. Inr (p1, p2, j + 1))
        else bindE (slice_set p2 (j - length p1) i) (\<lambda>p2. Inr (p1, p2, j + 1)))
     else Inr (p1, p2, j))"

definition make_partition :: "(nat \<Rightarrow> int \<times> bool) \<Rightarrow> ('v, 's) cluster \<Rightarrow> (nat list \<times> nat list) result" where
  "make_partition gs c =
     bindE (Leader gs c) (\<lambda>(_, l).
     let p1 = replicate (kc_n c div 2 + 1) 0; p2 = replicate (kc_n c div 2) 0 in
     bindE (foldE (partition_step l) [0..<kc_n c] (p1, p2, 0)) (\<lambda>(p1, p2, j).
     bindE (int_set p2 (int (length p2) - 1) l) (\<lambda>p2.
     Inr (p1, p2))))"

fun max_size :: "(Persister \<Rightarrow> nat) \<Rightarrow> ('v, 's) cluster \<Rightarrow> nat list \<Rightarrow> nat \<Rightarrow> nat result" where
  "max_size size_of c [] m = Inr m"
| "max_size size_of c (i # is) m =
     bindE (slice_get (kc_saved c) i) (\<lambda>saved.
     case saved of
       None \<Rightarrow> Inl NilDereference
     | Some a \<Rightarrow> (let n = size_of (kc_persisters c a) in max_size size_of c is (if n > m then n else m)))"

definition kc_LogSize :: "('v, 's) cluster \<Rightarrow> nat result" where
  "kc_LogSize c = max_size RaftStateSize c [0..<kc_n c] 0"

definition kc_SnapshotSize :: "('v, 's) cluster \<Rightarrow> nat result" where
  "kc_SnapshotSize c = max_size SnapshotSize c [0..<kc_n c] 0"

section \<open>Statistics\<close>

definition kc_rpcTotal :: "('v, 's) cluster \<Rightarrow> int" where
  "kc_rpcTotal c = GetTotalCount (kc_net c)"

definition kc_begin :: "('v, 's) cluster \<Rightarrow> ('v, 's) cluster" where
  "kc_begin c = c\<lparr>kc_rpcs0 := kc_rpcTotal c, kc_ops := 0\<rparr>"

definition kc_op :: "('v, 's) cluster \<Rightarrow> ('v, 's) cluster" where
  "kc_op c = c\<lparr>kc_ops := kc_ops c + 1\<rparr>"

text \<open>The numbers that are printed, besides the time, when the test has not failed.\<close>

definition kc_end :: "test_state \<Rightarrow> ('v, 's) cluster \<Rightarrow> (nat \<times> int \<times> int) option result" where
  "kc_end t c =
     bindE (checkTimeout t) (\<lambda>_.
     Inr (if ts_failed t = False then Some (kc_n c, kc_rpcTotal c - kc_rpcs0 c, sint (kc_ops c)) else None))"

section \<open>The key/value server\<close>

record KVServer =
  kv_me :: nat
  kv_rf :: nat
  kv_dead :: "32 word"
  kv_maxraftstate :: int

definition KVServer_Get :: "KVServer \<Rightarrow> 'v \<Rightarrow> 'v \<Rightarrow> 'v \<times> KVServer" where
  "KVServer_Get kv args reply = (reply, kv)"

definition KVServer_PutAppend :: "KVServer \<Rightarrow> 'v \<Rightarrow> 'v \<Rightarrow> 'v \<times> KVServer" where
  "KVServer_PutAppend kv args reply = (reply, kv)"

definition KVServer_Kill :: "KVServer \<Rightarrow> KVServer" where
  "KVServer_Kill kv = kv\<lparr>kv_dead := 1\<rparr>"

definition KVServer_killed :: "KVServer \<Rightarrow> bool" where
  "KVServer_killed kv = (kv_dead kv = 1)"

definition StartKVServer :: "nat \<Rightarrow> int \<Rightarrow> nat \<Rightarrow> KVServer" where
  "StartKVServer me maxraftstate rf =
     \<lparr>kv_me = me, kv_rf = rf, kv_dead = 0, kv_maxraftstate = maxraftstate\<rparr>"

definition handler_method :: "string \<Rightarrow> ('s \<Rightarrow> 'v \<Rightarrow> 'v \<times> 's) \<Rightarrow> ('v, 's object) rpc_method" where
  "handler_method nm f =
     \<lparr>mt_Name = nm, mt_PkgPath = [], mt_NumIn = 3, mt_In2_Ptr = True, mt_NumOut = 0,
      mt_Func = (\<lambda>rcvr args. case rcvr of
        ServerObj s \<Rightarrow> (case f s args of (v, s) \<Rightarrow> Inr (v, ServerObj s)) | RaftObj _ \<Rightarrow> Inl TypeAssertion)\<rparr>"

definition kv_ops :: "'v \<Rightarrow> ('v, KVServer) server_ops" where
  "kv_ops zero =
     \<lparr>so_name = ''KVServer'', so_rf = kv_rf, so_Kill = KVServer_Kill, so_make = StartKVServer,
      so_methods = [handler_method ''Get'' (\<lambda>kv args. KVServer_Get kv args zero),
        plain_method ''Kill'' 1 0,
        handler_method ''PutAppend'' (\<lambda>kv args. KVServer_PutAppend kv args zero)]\<rparr>"

end
