(* ===== verification/Cluster_Correct.thy ===== *)
theory Cluster_Correct
  imports Cluster "HOL-Library.Multiset"
begin

text \<open>
  What partitions of a cluster do to the network, the partition that puts the leader into the minority, and the
  shuffle of a clerk's handles.
\<close>

section \<open>Switching\<close>

definition en :: "('v, 's) cluster \<Rightarrow> nat \<Rightarrow> nat \<Rightarrow> string" where
  "en c i j = (case kc_endnames c ! i of Some es \<Rightarrow> es ! j | None \<Rightarrow> [])"

text \<open>All servers have been started, and all names are different.\<close>

definition wired :: "('v, 's) cluster \<Rightarrow> bool" where
  "wired c \<longleftrightarrow>
     length (kc_endnames c) = kc_n c \<and>
     (\<forall>i < kc_n c. \<exists>es. kc_endnames c ! i = Some es \<and> length es = kc_n c) \<and>
     (\<forall>i < kc_n c. \<forall>j < kc_n c. \<forall>i' < kc_n c. \<forall>j' < kc_n c. en c i j = en c i' j' \<longrightarrow> i = i' \<and> j = j')"

definition switched :: "('v, 's) cluster \<Rightarrow> (string \<times> bool) list \<Rightarrow> ('v, 's) cluster" where
  "switched c sw = c\<lparr>kc_net := fold (\<lambda>(e, b). Enable (EndName e) b) sw (kc_net c)\<rparr>"

lemma en_net [simp]: "en (c\<lparr>kc_net := net\<rparr>) = en c"
  by (simp add: en_def fun_eq_iff)

lemma switched_simps [simp]:
  "switched c [] = c"
  "switched (switched c sw) sw' = switched c (sw @ sw')"
  "kc_endnames (switched c sw) = kc_endnames c" "kc_n (switched c sw) = kc_n c" "en (switched c sw) = en c"
  by (simp_all add: switched_def en_def fun_eq_iff)

lemma kc_enable_switched: "kc_enable b e c = switched c [(e, b)]"
  by (simp add: switched_def kc_enable_def)

lemma switched_wired [simp]: "wired (switched c sw) = wired c"
  by (simp add: wired_def)

lemma fold_enable:
  assumes "(e, b) \<in> set sw" "\<forall>b'. (e, b') \<in> set sw \<longrightarrow> b' = b"
  shows "nw_enabled (fold (\<lambda>(e, b). Enable (EndName e) b) sw net) (EndName e) = b"
  using assms
proof (induction sw rule: rev_induct)
  case (snoc x sw)
  obtain e' b' where x: "x = (e', b')" by (cases x)
  let ?f = "\<lambda>(e, b). Enable (EndName e) b"
  have step: "nw_enabled (fold ?f (sw @ [x]) net) (EndName e) = (if e' = e then b' else nw_enabled (fold ?f sw net) (EndName e))"
    by (simp add: x sw.laws)
  show ?case
  proof (cases "e' = e")
    case True
    then have "b' = b" using snoc.prems(2) x by simp
    then show ?thesis using step True by simp
  next
    case False
    have m: "(e, b) \<in> set sw" using snoc.prems(1) x False by auto
    have a: "\<forall>b'. (e, b') \<in> set sw \<longrightarrow> b' = b" using snoc.prems(2) unfolding set_append by blast
    from snoc.IH [OF m a] step False show ?thesis by simp
  qed
qed simp

lemma fold_enable_other:
  "e \<notin> fst ` set sw \<Longrightarrow> nw_enabled (fold (\<lambda>(e, b). Enable (EndName e) b) sw net) (EndName e) = nw_enabled net (EndName e)"
  by (induction sw arbitrary: net) (auto simp: sw.laws)

lemma kc_endname_wired: "wired c \<Longrightarrow> i < kc_n c \<Longrightarrow> j < kc_n c \<Longrightarrow> kc_endname c i j = Inr (en c i j)"
  by (auto simp: wired_def kc_endname_def en_def)

text \<open>A loop each of whose steps switches one end.\<close>

lemma foldE_switched:
  assumes "\<And>x sw. x \<in> set xs \<Longrightarrow> f x (switched c sw) = Inr (switched c (sw @ [g x]))"
  shows "foldE f xs (switched c sw) = Inr (switched c (sw @ map g xs))"
  using assms by (induction xs arbitrary: sw) simp_all

lemmas foldE_switched_start = foldE_switched [where sw = "[]", unfolded switched_simps(1) append_Nil]

lemma switch_loop:
  assumes "wired c" "\<forall>t \<in> set to. f t < kc_n c \<and> g t < kc_n c"
  shows "foldE (\<lambda>t c. bindE (kc_endname c (f t) (g t)) (\<lambda>e. Inr (kc_enable b e c))) to c =
    Inr (switched c (map (\<lambda>t. (en c (f t) (g t), b)) to))"
  by (rule foldE_switched_start) (use assms in \<open>simp add: kc_endname_wired kc_enable_switched\<close>)

definition sw_connect :: "('v, 's) cluster \<Rightarrow> nat \<Rightarrow> nat list \<Rightarrow> (string \<times> bool) list" where
  "sw_connect c i to = map (\<lambda>t. (en c i t, True)) to @ map (\<lambda>t. (en c t i, True)) to"

definition sw_disconnect :: "('v, 's) cluster \<Rightarrow> nat \<Rightarrow> nat list \<Rightarrow> (string \<times> bool) list" where
  "sw_disconnect c i to = map (\<lambda>t. (en c i t, False)) to @ map (\<lambda>t. (en c t i, False)) to"

lemma connectUnlocked_eq:
  assumes "wired c" "i < kc_n c" "\<forall>t \<in> set to. t < kc_n c"
  shows "connectUnlocked i to c = Inr (switched c (sw_connect c i to))"
  using switch_loop [of c to "\<lambda>_. i" "\<lambda>t. t" True] switch_loop [of "switched c (map (\<lambda>t. (en c i t, True)) to)" to "\<lambda>t. t" "\<lambda>_. i" True] assms
  by (simp add: connectUnlocked_def sw_connect_def)

lemma wired_row: "wired c \<Longrightarrow> i < kc_n c \<Longrightarrow> \<exists>es. slice_get (kc_endnames c) i = Inr (Some es)"
  by (auto simp: wired_def)

lemma guarded_loop:
  assumes "wired c" "i < kc_n c" "\<forall>f \<in> set from. f < kc_n c"
  shows "foldE (\<lambda>f c. bindE (slice_get (kc_endnames c) i) (\<lambda>row.
       if row \<noteq> None then bindE (kc_endname c i f) (\<lambda>e. Inr (kc_enable False e c)) else Inr c)) from c =
    Inr (switched c (map (\<lambda>t. (en c i t, False)) from))"
  by (rule foldE_switched_start)
    (use wired_row [OF assms(1,2)] assms in \<open>auto simp: kc_endname_wired kc_enable_switched\<close>)

lemma enumerated_loop:
  assumes "wired c" "i < kc_n c" "\<forall>f \<in> set from. f < kc_n c" "length from \<le> kc_n c"
  shows "foldE (\<lambda>(j, f) c. bindE (slice_get (kc_endnames c) j) (\<lambda>row.
       if row \<noteq> None then bindE (kc_endname c f i) (\<lambda>e. Inr (kc_enable False e c)) else Inr c)) (enumerate 0 from) c =
    Inr (switched c (map (\<lambda>t. (en c t i, False)) from))"
proof -
  let ?g = "\<lambda>(j, t). (en c t i, False)"
  have step: "(case x of (j, f) \<Rightarrow> \<lambda>c. bindE (slice_get (kc_endnames c) j) (\<lambda>row.
       if row \<noteq> None then bindE (kc_endname c f i) (\<lambda>e. Inr (kc_enable False e c)) else Inr c)) (switched c sw) =
      Inr (switched c (sw @ [?g x]))" if x: "x \<in> set (enumerate 0 from)" for x sw
  proof -
    obtain j t where jt: "x = (j, t)" "j < kc_n c" "t < kc_n c"
    proof (cases x)
      case (Pair j t)
      have "j < length from" "t = from ! j" using x unfolding Pair in_set_enumerate_eq by simp_all
      then have "j < kc_n c" "t < kc_n c" using assms(3,4) nth_mem [of j "from"] by simp_all
      then show ?thesis using that Pair by blast
    qed
    show ?thesis using wired_row [OF assms(1) jt(2)] assms jt by (auto simp: kc_endname_wired kc_enable_switched)
  qed
  have "map ?g (enumerate 0 from) = map (\<lambda>t. (en c t i, False)) from"
    by (rule nth_equalityI) (simp_all add: nth_enumerate_eq)
  then show ?thesis using foldE_switched_start [of "enumerate 0 from", OF step] by simp
qed

lemma disconnectUnlocked_eq:
  assumes "wired c" "i < kc_n c" "\<forall>t \<in> set from. t < kc_n c" "length from \<le> kc_n c"
  shows "disconnectUnlocked i from c = Inr (switched c (sw_disconnect c i from))"
  using guarded_loop [OF assms(1-3)]
    enumerated_loop [of "switched c (map (\<lambda>t. (en c i t, False)) from)" i "from"] assms
  by (simp add: disconnectUnlocked_def sw_disconnect_def)

section \<open>Partitions\<close>

definition sw_side :: "('v, 's) cluster \<Rightarrow> nat list \<Rightarrow> nat list \<Rightarrow> (string \<times> bool) list" where
  "sw_side c here there = concat (map (\<lambda>i. sw_disconnect c i there @ sw_connect c i here) here)"

lemma side_loop:
  assumes "wired c" "\<forall>i \<in> set is \<union> set here \<union> set there. i < kc_n c" "length there \<le> kc_n c"
  shows "foldE (\<lambda>i c. bindE (disconnectUnlocked i there c) (connectUnlocked i here)) is c =
    Inr (switched c (concat (map (\<lambda>i. sw_disconnect c i there @ sw_connect c i here) is)))"
  using assms
proof (induction "is" arbitrary: c)
  case (Cons i "is")
  have eqs: "sw_connect (switched c sw) = sw_connect c" "sw_disconnect (switched c sw) = sw_disconnect c" for sw
    by (simp_all add: sw_connect_def sw_disconnect_def fun_eq_iff)
  show ?case using Cons by (simp add: disconnectUnlocked_eq connectUnlocked_eq eqs)
qed simp

lemma sw_side_switched: "sw_side (switched c sw) = sw_side c"
  by (simp add: sw_side_def sw_connect_def sw_disconnect_def fun_eq_iff)

lemma partition_eq:
  assumes "wired c" "\<forall>i \<in> set p1 \<union> set p2. i < kc_n c" "length p1 \<le> kc_n c" "length p2 \<le> kc_n c"
  shows "cluster_partition p1 p2 c = Inr (switched c (sw_side c p1 p2 @ sw_side c p2 p1))"
proof -
  have side: "foldE (\<lambda>i c. bindE (disconnectUnlocked i q c) (connectUnlocked i p)) p c = Inr (switched c (sw_side c p q))"
    if "wired c" "\<forall>i \<in> set p \<union> set q. i < kc_n c" "length q \<le> kc_n c" for p q and c :: "('a, 'b) cluster"
    unfolding sw_side_def by (rule side_loop) (use that in auto)
  have un: "set p2 \<union> set p1 = set p1 \<union> set p2" by blast
  have a: "foldE (\<lambda>i c. bindE (disconnectUnlocked i p2 c) (connectUnlocked i p1)) p1 c = Inr (switched c (sw_side c p1 p2))"
    using assms by (intro side) simp_all
  have b: "foldE (\<lambda>i c. bindE (disconnectUnlocked i p1 c) (connectUnlocked i p2)) p2 (switched c (sw_side c p1 p2)) =
      Inr (switched (switched c (sw_side c p1 p2)) (sw_side (switched c (sw_side c p1 p2)) p2 p1))"
    using assms by (intro side) (simp_all add: un)
  show ?thesis unfolding cluster_partition_def a bindE_simps b sw_side_switched by simp
qed

lemma sw_side_mem:
  "(x, b) \<in> set (sw_side c p q) \<longleftrightarrow>
     (\<exists>i \<in> set p. (\<exists>t \<in> set q. (x = en c i t \<or> x = en c t i) \<and> \<not> b) \<or> (\<exists>t \<in> set p. (x = en c i t \<or> x = en c t i) \<and> b))"
  unfolding sw_side_def sw_connect_def sw_disconnect_def
  by (cases b) (auto simp: image_iff)

lemma partition_switches:
  assumes w: "wired c" and r: "\<forall>i \<in> set p1 \<union> set p2. i < kc_n c" and d: "set p1 \<inter> set p2 = {}"
    and i: "i \<in> set p1 \<union> set p2" and j: "j \<in> set p1 \<union> set p2"
  shows "nw_enabled (kc_net (switched c (sw_side c p1 p2 @ sw_side c p2 p1))) (EndName (en c i j)) \<longleftrightarrow> (i \<in> set p1 \<longleftrightarrow> j \<in> set p1)"
proof -
  let ?sw = "sw_side c p1 p2 @ sw_side c p2 p1" and ?b = "i \<in> set p1 \<longleftrightarrow> j \<in> set p1"
  have inj: "a < kc_n c \<Longrightarrow> b < kc_n c \<Longrightarrow> en c i j = en c a b \<Longrightarrow> a = i \<and> b = j" for a b
    using w r i j unfolding wired_def by metis
  have m: "(en c i j, ?b) \<in> set ?sw" unfolding set_append Un_iff sw_side_mem using i j d by blast
  have a: "b' = ?b" if b': "(en c i j, b') \<in> set ?sw" for b'
  proof -
    consider a b where "en c i j = en c a b \<or> en c i j = en c b a" "a \<in> set p1" "b \<in> set p2" "\<not> b'"
      | a b where "en c i j = en c a b" "a \<in> set p1" "b \<in> set p1" "b'"
      | a b where "en c i j = en c a b" "a \<in> set p2" "b \<in> set p2" "b'"
      using b' unfolding set_append Un_iff sw_side_mem by blast
    then show ?thesis
    proof cases
      case (1 a b)
      then have "a = i \<and> b = j \<or> b = i \<and> a = j" using inj r by blast
      then show ?thesis using 1 d by blast
    next
      case (2 a b)
      then have "a = i \<and> b = j" using inj r by blast
      then show ?thesis using 2 by blast
    next
      case (3 a b)
      then have "a = i \<and> b = j" using inj r by blast
      then show ?thesis using 3 d by blast
    qed
  qed
  from fold_enable [OF m] a have "nw_enabled (fold (\<lambda>(e, b). Enable (EndName e) b) ?sw (kc_net c)) (EndName (en c i j)) = ?b"
    by blast
  then show ?thesis by (simp add: switched_def)
qed

lemma partition_keeps_others:
  assumes "\<And>i j. i \<in> set p1 \<union> set p2 \<Longrightarrow> j \<in> set p1 \<union> set p2 \<Longrightarrow> en c i j \<noteq> e"
  shows "nw_enabled (kc_net (switched c (sw_side c p1 p2 @ sw_side c p2 p1))) (EndName e) = nw_enabled (kc_net c) (EndName e)"
proof -
  have "(e, b) \<notin> set (sw_side c p1 p2 @ sw_side c p2 p1)" for b
    unfolding set_append Un_iff sw_side_mem using assms by blast
  then have "e \<notin> fst ` set (sw_side c p1 p2 @ sw_side c p2 p1)" by force
  from fold_enable_other [OF this, of "kc_net c"] show ?thesis by (simp add: switched_def)
qed

section \<open>The partition around the leader\<close>

lemma Leader_loop_spec:
  assumes "\<forall>i \<in> set is. i < length servers \<and> servers ! i \<noteq> None"
  shows "Leader_loop gs servers is = Inr (case filter (\<lambda>i. snd (gs i)) is of [] \<Rightarrow> (False, 0) | l # _ \<Rightarrow> (True, l))"
  using assms by (induction "is") auto

text \<open>The first server that takes itself for the leader, or server 0.\<close>

definition chosen :: "(nat \<Rightarrow> int \<times> bool) \<Rightarrow> nat \<Rightarrow> nat" where
  "chosen gs n = (case filter (\<lambda>i. snd (gs i)) [0..<n] of [] \<Rightarrow> 0 | l # _ \<Rightarrow> l)"

lemma chosen_first:
  assumes "filter (\<lambda>i. snd (gs i)) [0..<n] = l # ls"
  shows "chosen gs n = l \<and> l < n \<and> snd (gs l)"
proof -
  have "l \<in> set (filter (\<lambda>i. snd (gs i)) [0..<n])" unfolding assms by simp
  then show ?thesis unfolding set_filter using assms by (simp add: chosen_def)
qed

lemma chosen_less: "0 < n \<Longrightarrow> chosen gs n < n"
  by (cases "filter (\<lambda>i. snd (gs i)) [0..<n]") (auto dest: chosen_first simp: chosen_def)

lemma chosen_leads: "i < n \<Longrightarrow> snd (gs i) \<Longrightarrow> snd (gs (chosen gs n))"
  by (cases "filter (\<lambda>i. snd (gs i)) [0..<n]") (auto dest: chosen_first simp: filter_empty_conv)

definition all_up :: "('v, 's) cluster \<Rightarrow> bool" where
  "all_up c \<longleftrightarrow> length (kc_servers c) = kc_n c \<and> list_all (\<lambda>s. s \<noteq> None) (kc_servers c)"

lemma Leader_chosen: "all_up c \<Longrightarrow> \<exists>b. Leader gs c = Inr (b, chosen gs (kc_n c))"
  unfolding Leader_def all_up_def chosen_def
  by (subst Leader_loop_spec) (auto simp: list_all_length split: list.split)

lemma partition_step_skip: "partition_step l l s = Inr s"
  by (simp add: partition_step_def split: prod.split)

lemma partition_step_put:
  assumes "i \<noteq> l" "j < length p1 + length p2"
  obtains q1 q2 where "partition_step l i (p1, p2, j) = Inr (q1, q2, j + 1)" "q1 @ q2 = (p1 @ p2)[j := i]" "length q1 = length p1"
proof (cases "j < length p1")
  case True
  then show thesis using assms(1) by (intro that [of "p1[j := i]" p2]) (simp_all add: partition_step_def list_update_append)
next
  case False
  then show thesis using assms
    by (intro that [of p1 "p2[j - length p1 := i]"]) (simp_all add: partition_step_def list_update_append)
qed

lemma partition_loop:
  assumes "length (filter (\<lambda>i. i \<noteq> l) is) \<le> length rest" "p1 @ p2 = xs @ rest"
  obtains q1 q2 where "foldE (partition_step l) is (p1, p2, length xs) = Inr (q1, q2, length (xs @ filter (\<lambda>i. i \<noteq> l) is))"
    "q1 @ q2 = xs @ filter (\<lambda>i. i \<noteq> l) is @ drop (length (filter (\<lambda>i. i \<noteq> l) is)) rest" "length q1 = length p1"
  using assms
proof (induction "is" arbitrary: p1 p2 xs rest thesis)
  case Nil
  show ?case by (rule Nil.prems(1) [of p1 p2]) (simp_all add: Nil.prems(3))
next
  case (Cons i "is")
  show ?case
  proof (cases "i = l")
    case True
    have "length (filter (\<lambda>i. i \<noteq> l) is) \<le> length rest" using Cons.prems(2) True by simp
    from Cons.IH [OF _ this Cons.prems(3)] obtain r1 r2
      where "foldE (partition_step l) is (p1, p2, length xs) = Inr (r1, r2, length (xs @ filter (\<lambda>i. i \<noteq> l) is))"
        "r1 @ r2 = xs @ filter (\<lambda>i. i \<noteq> l) is @ drop (length (filter (\<lambda>i. i \<noteq> l) is)) rest" "length r1 = length p1" .
    then show ?thesis using Cons.prems(1) [of r1 r2] True by (simp add: partition_step_skip)
  next
    case False
    then obtain r rest' where rest: "rest = r # rest'" using Cons.prems(2) by (cases rest) auto
    have "length xs < length p1 + length p2" using arg_cong [OF Cons.prems(3), of length] rest by simp
    from partition_step_put [OF False this] obtain q1 q2 where step: "partition_step l i (p1, p2, length xs) = Inr (q1, q2, length xs + 1)"
      and q: "q1 @ q2 = (p1 @ p2)[length xs := i]" "length q1 = length p1" .
    have q': "q1 @ q2 = (xs @ [i]) @ rest'" using q Cons.prems(3) rest by (simp add: list_update_append)
    have len: "length (filter (\<lambda>i. i \<noteq> l) is) \<le> length rest'" using Cons.prems(2) False rest by simp
    from Cons.IH [OF _ len q'] obtain r1 r2
      where "foldE (partition_step l) is (q1, q2, length (xs @ [i])) = Inr (r1, r2, length ((xs @ [i]) @ filter (\<lambda>i. i \<noteq> l) is))"
        "r1 @ r2 = (xs @ [i]) @ filter (\<lambda>i. i \<noteq> l) is @ drop (length (filter (\<lambda>i. i \<noteq> l) is)) rest'" "length r1 = length q1" .
    then show ?thesis using Cons.prems(1) [of r1 r2] step q(2) False rest by simp
  qed
qed

lemma filter_other: "l < n \<Longrightarrow> length (filter (\<lambda>i. i \<noteq> l) [0..<n]) = n - 1"
proof -
  assume l: "l < n"
  have "length (filter (\<lambda>i. i \<noteq> l) [0..<n]) = card (set (filter (\<lambda>i. i \<noteq> l) [0..<n]))"
    by (rule distinct_card [symmetric]) simp
  also have "set (filter (\<lambda>i. i \<noteq> l) [0..<n]) = {0..<n} - {l}" by auto
  also have "card \<dots> = n - 1" using l by simp
  finally show ?thesis .
qed

lemma make_partition_spec:
  assumes up: "all_up c" and n: "2 \<le> kc_n c"
  obtains p1 p2 where "make_partition gs c = Inr (p1, p2)" "length p1 = kc_n c div 2 + 1"
    "p1 @ p2 = filter (\<lambda>i. i \<noteq> chosen gs (kc_n c)) [0..<kc_n c] @ (if even (kc_n c) then [0, chosen gs (kc_n c)] else [chosen gs (kc_n c)])"
proof -
  let ?n = "kc_n c" and ?l = "chosen gs (kc_n c)" and ?h = "kc_n c div 2"
  let ?os = "filter (\<lambda>i. i \<noteq> chosen gs (kc_n c)) [0..<kc_n c]"
  obtain b where L: "Leader gs c = Inr (b, ?l)" using Leader_chosen [OF up] by blast
  have os: "length ?os = ?n - 1" using chosen_less [of ?n gs] n by (simp only: filter_other)
  have cells: "replicate (?h + 1) 0 @ replicate ?h 0 = [] @ replicate (?h + 1 + ?h) (0::nat)" by (simp add: replicate_add)
  have le: "length ?os \<le> length (replicate (?h + 1 + ?h) (0::nat))" unfolding os by simp
  obtain q1 q2 where loop: "foldE (partition_step ?l) [0..<?n] (replicate (?h + 1) 0, replicate ?h 0, length ([]::nat list)) =
        Inr (q1, q2, length ([] @ ?os))"
    and q: "q1 @ q2 = [] @ ?os @ drop (length ?os) (replicate (?h + 1 + ?h) 0)" "length q1 = length (replicate (?h + 1) (0::nat))"
    using partition_loop [OF le cells] .
  have rest: "drop (length ?os) (replicate (?h + 1 + ?h) 0) = (if even ?n then [0, 0] else [0::nat])"
  proof -
    have "2 * ?h + 1 - length ?os = (if even ?n then 2 else 1)" using n os by (cases "even ?n") (auto elim!: evenE oddE)
    then have "drop (length ?os) (replicate (?h + 1 + ?h) 0) = replicate (if even ?n then 2 else 1) (0::nat)"
      unfolding drop_replicate by (simp only: mult_2 add.assoc add.commute add.left_commute)
    then show ?thesis by (cases "even ?n") (simp_all add: numeral_2_eq_2 del: drop_replicate)
  qed
  have l2: "length q2 = ?h" using arg_cong [OF q(1), of length] q(2) os n by simp
  have "length (q1 @ q2) = 2 * ?h + 1" using q(2) l2 by simp
  have h: "0 < ?h" using n by simp
  have upd: "q1 @ q2[?h - 1 := ?l] = (q1 @ q2)[2 * ?h := ?l]"
    using q(2) h by (simp add: list_update_append)
  show thesis
  proof (rule that)
    show "make_partition gs c = Inr (q1, q2[?h - 1 := ?l])"
      using loop L l2 h by (simp add: make_partition_def nat_diff_distrib)
    show "length q1 = ?h + 1" using q(2) by simp
    show "q1 @ q2[?h - 1 := ?l] = ?os @ (if even ?n then [0, ?l] else [?l])"
      unfolding upd q(1) rest using os n by (cases "even ?n") (auto simp: list_update_append elim!: evenE oddE)
  qed
qed

section \<open>Shuffling handles\<close>

lemma mset_swap_at: "i < length xs \<Longrightarrow> j < length xs \<Longrightarrow> mset (swap_at xs i j) = mset xs"
  by (simp add: swap_at_def mset_swap)

lemma random_handles_mset: "mset (random_handles draw kvh) = mset kvh"
proof -
  have "length (fold (\<lambda>i sa. swap_at sa i (draw i mod (i + 1))) is sa) = length sa" for "is" and sa :: "'a list"
    by (induction "is" arbitrary: sa) (simp_all add: swap_at_def)
  moreover have "mset (fold (\<lambda>i sa. swap_at sa i (draw i mod (i + 1))) is sa) = mset sa"
    if "\<forall>i \<in> set is. i < length sa" for "is" and sa :: "'a list"
    using that
  proof (induction "is" arbitrary: sa)
    case (Cons i "is")
    have "draw i mod (i + 1) < length sa" using Cons.prems by (auto intro: le_less_trans [of _ i] simp: less_Suc_eq_le [symmetric])
    moreover have "length (swap_at sa i (draw i mod (i + 1))) = length sa" by (simp add: swap_at_def)
    ultimately show ?case using Cons by (simp add: mset_swap_at)
  qed simp
  ultimately show ?thesis unfolding random_handles_def by simp
qed

section \<open>A new configuration\<close>

lemma make_ends_ok:
  assumes "distinct names" "EndName ` set names \<inter> nw_ends (kc_net c) = {}" "m \<le> length names"
  shows "\<exists>net. foldE (kc_make_end names) [0..<m] c = Inr (c\<lparr>kc_net := net\<rparr>) \<and>
    nw_ends net = EndName ` set (take m names) \<union> nw_ends (kc_net c)"
  using assms(3)
proof (induction m)
  case 0
  then show ?case by (intro exI [of _ "kc_net c"]) simp
next
  case (Suc m)
  then obtain net where net: "foldE (kc_make_end names) [0..<m] c = Inr (c\<lparr>kc_net := net\<rparr>)"
      "nw_ends net = EndName ` set (take m names) \<union> nw_ends (kc_net c)" by auto
  have "names ! m \<notin> set (take m names)" using assms(1) Suc.prems by (auto simp: in_set_conv_nth nth_eq_iff_index_eq)
  moreover have "EndName (names ! m) \<notin> nw_ends (kc_net c)"
  proof -
    have "EndName (names ! m) \<in> EndName ` set names" using Suc.prems by simp
    then show ?thesis using assms(2) by auto
  qed
  ultimately have "EndName (names ! m) \<notin> nw_ends net" unfolding net(2) by auto
  then obtain net' where "MakeEnd (EndName (names ! m)) net = Inr net'" "nw_ends net' = insert (EndName (names ! m)) (nw_ends net)"
    by (simp add: MakeEnd_def)
  then have "kc_make_end names m (c\<lparr>kc_net := net\<rparr>) = Inr (c\<lparr>kc_net := Connect (EndName (names ! m)) (ServerName m) net'\<rparr>)"
    "nw_ends (Connect (EndName (names ! m)) (ServerName m) net') = insert (EndName (names ! m)) (nw_ends net)"
    using Suc.prems by (simp_all add: kc_make_end_def Connect_def)
  then show ?case using net Suc.prems by (auto simp: foldE_append take_Suc_conv_app_nth)
qed

text \<open>The servers below \<open>i\<close> have been started, with the names drawn for them.\<close>

definition servers_up :: "(nat \<Rightarrow> string list) \<Rightarrow> nat \<Rightarrow> nat \<Rightarrow> ('v, 's) cluster \<Rightarrow> bool" where
  "servers_up draws n i c \<longleftrightarrow>
     kc_n c = n \<and> length (kc_saved c) = n \<and>
     kc_endnames c = map (\<lambda>j. Some (draws j)) [0..<i] @ replicate (n - i) None \<and>
     length (kc_servers c) = n \<and> (\<forall>j < i. kc_servers c ! j \<noteq> None) \<and>
     nw_ends (kc_net c) = EndName ` (\<Union>j < i. set (draws j))"

definition fresh_draws :: "(nat \<Rightarrow> string list) \<Rightarrow> nat \<Rightarrow> bool" where
  "fresh_draws draws n \<longleftrightarrow> (\<forall>i < n. length (draws i) = n) \<and> distinct (concat (map draws [0..<n]))"

lemma fresh_drawsD:
  assumes "fresh_draws draws n" "i < n"
  shows "length (draws i) = n" "distinct (draws i)" "j < n \<Longrightarrow> i \<noteq> j \<Longrightarrow> set (draws i) \<inter> set (draws j) = {}"
proof -
  have d: "distinct (concat (map draws [0..<n]))" "length (draws i) = n" using assms by (auto simp: fresh_draws_def)
  then show "length (draws i) = n" "distinct (draws i)" using assms(2) by (auto simp: distinct_concat_iff)
  show "set (draws i) \<inter> set (draws j) = {}" if j: "j < n" "i \<noteq> j"
  proof (rule ccontr)
    assume ne: "set (draws i) \<inter> set (draws j) \<noteq> {}"
    define a where "a = min i j"
    define b where "b = max i j"
    have ab: "a < b" "b < n" "set (draws a) \<inter> set (draws b) \<noteq> {}"
      using j assms(2) ne by (auto simp: a_def b_def min_def max_def)
    have "[0..<n] = [0..<b] @ b # [Suc b..<n]" using ab upt_add_eq_append [of 0 b "n - b"] by (simp add: upt_conv_Cons)
    then have "distinct (concat (map draws [0..<b]) @ draws b)" using d(1) by auto
    moreover have "set (draws a) \<subseteq> set (concat (map draws [0..<b]))" using ab(1) by auto
    ultimately show False using ab(3) by auto
  qed
qed

lemma StartServer_distinct:
  assumes s: "servers_up draws n i c" and i: "i < n" and fd: "length (draws i) = n" "distinct (draws i)"
    and free: "EndName ` set (draws i) \<inter> nw_ends (kc_net c) = {}"
  shows "\<exists>c'. StartServer ops zero (draws i) i c = Inr c' \<and> servers_up draws n (Suc i) c'"
proof -
  let ?c = "c\<lparr>kc_endnames := (kc_endnames c)[i := Some (draws i)]\<rparr>"
  have c: "kc_n c = n" "length (kc_endnames c) = n" "length (kc_saved c) = n" "length (kc_servers c) = n"
    using s i by (simp_all add: servers_up_def)
  have "EndName ` set (draws i) \<inter> nw_ends (kc_net ?c) = {}" using free by simp
  from make_ends_ok [OF fd(2) this, of n] fd(1) obtain net
    where net: "foldE (kc_make_end (draws i)) [0..<n] ?c = Inr (?c\<lparr>kc_net := net\<rparr>)"
      "nw_ends net = EndName ` set (draws i) \<union> nw_ends (kc_net c)" by auto
  obtain c' where eq: "StartServer ops zero (draws i) i c = Inr c'" and c': "kc_n c' = n" "length (kc_saved c') = n"
      "kc_endnames c' = (kc_endnames c)[i := Some (draws i)]" "\<exists>a. kc_servers c' = (kc_servers c)[i := Some a]"
      "nw_ends (kc_net c') = nw_ends net"
    using c i net(1) fd(1) by (auto simp: StartServer_def Let_def kc_save_def AddServer_def)
  have rows: "kc_endnames c' = map (\<lambda>j. Some (draws j)) [0..<Suc i] @ replicate (n - Suc i) None"
  proof -
    have "replicate (n - i) None = None # replicate (n - Suc i) (None :: string list option)"
      using i by (simp add: Suc_diff_Suc flip: replicate_Suc)
    then show ?thesis using c'(3) s by (simp add: servers_up_def list_update_append)
  qed
  have "servers_up draws n (Suc i) c'"
    using s c c' rows net(2) i by (auto simp: servers_up_def less_Suc_eq nth_list_update image_Un lessThan_Suc)
  then show ?thesis using eq by blast
qed

lemma StartServer_started:
  assumes s: "servers_up draws n i c" and f: "fresh_draws draws n" and i: "i < n"
  shows "\<exists>c'. StartServer ops zero (draws i) i c = Inr c' \<and> servers_up draws n (Suc i) c'"
proof -
  note fd = fresh_drawsD [OF f i]
  have "\<forall>j < i. \<forall>x \<in> set (draws i). x \<notin> set (draws j)" using fd(3) i by (metis disjoint_iff less_trans nat_neq_iff)
  then have "EndName ` set (draws i) \<inter> nw_ends (kc_net c) = {}" using s by (auto simp: servers_up_def)
  from StartServer_distinct [OF s i fd(1,2) this] show ?thesis .
qed

lemma start_all:
  assumes "fresh_draws draws n" "nw_ends net = {}" "k \<le> n"
  shows "\<exists>c. foldE (\<lambda>i. StartServer ops zero (draws i) i) [0..<k] (empty_cluster n maxraftstate net) = Inr c \<and> servers_up draws n k c"
  using assms(3)
proof (induction k)
  case 0
  then show ?case using assms by (simp add: servers_up_def empty_cluster_def)
next
  case (Suc k)
  then obtain c where c: "foldE (\<lambda>i. StartServer ops zero (draws i) i) [0..<k] (empty_cluster n maxraftstate net) = Inr c"
    "servers_up draws n k c" by auto
  then obtain c' where "StartServer ops zero (draws k) k c = Inr c'" "servers_up draws n (Suc k) c'"
    using StartServer_started [OF c(2) assms(1)] Suc.prems by auto
  then show ?case using c(1) by (simp add: foldE_append)
qed

lemma started_wired:
  assumes s: "servers_up draws n n c" and f: "fresh_draws draws n"
  shows "wired c" "all_up c" "\<And>i j. i < n \<Longrightarrow> en c i j = draws i ! j"
proof -
  show en: "\<And>i j. i < n \<Longrightarrow> en c i j = draws i ! j" using s by (simp add: servers_up_def en_def)
  show "all_up c" using s by (auto simp: all_up_def servers_up_def list_all_length)
  have "i = i' \<and> j = j'" if "i < n" "j < n" "i' < n" "j' < n" "draws i ! j = draws i' ! j'" for i j i' j'
  proof -
    have "draws i ! j \<in> set (draws i) \<inter> set (draws i')" using that fresh_drawsD(1) [OF f] by (metis IntI nth_mem)
    then have "i = i'" using fresh_drawsD(3) [OF f that(1,3)] by blast
    then show ?thesis using that fresh_drawsD(1,2) [OF f that(1)] by (simp add: nth_eq_iff_index_eq)
  qed
  then show "wired c" using s en fresh_drawsD(1) [OF f] by (simp add: wired_def servers_up_def)
qed

lemma ConnectAll_eq:
  assumes "wired c"
  shows "ConnectAll c = Inr (switched c (concat (map (\<lambda>i. sw_connect c i [0..<kc_n c]) [0..<kc_n c])))"
proof -
  have "foldE (\<lambda>i c. connectUnlocked i (kc_All c) c) is c = Inr (switched c (concat (map (\<lambda>i. sw_connect c i [0..<kc_n c]) is)))"
    if "wired c" "\<forall>i \<in> set is. i < kc_n c" for "is" and c :: "('a, 'b) cluster"
    using that
  proof (induction "is" arbitrary: c)
    case (Cons i "is")
    have "sw_connect (switched c sw) = sw_connect c" for sw by (simp add: sw_connect_def fun_eq_iff)
    then show ?case using Cons by (simp add: connectUnlocked_eq kc_All_def)
  qed simp
  from this [OF assms, of "[0..<kc_n c]"] show ?thesis unfolding ConnectAll_def by simp
qed

definition all_connected :: "('v, 's) cluster \<Rightarrow> bool" where
  "all_connected c \<longleftrightarrow> (\<forall>i < kc_n c. \<forall>j < kc_n c. nw_enabled (kc_net c) (EndName (en c i j)))"

lemma ConnectAll_connects:
  assumes "wired c"
  obtains sw where "ConnectAll c = Inr (switched c sw)" "all_connected (switched c sw)"
proof -
  let ?sw = "concat (map (\<lambda>i. sw_connect c i [0..<kc_n c]) [0..<kc_n c])"
  have "nw_enabled (fold (\<lambda>(e, b). Enable (EndName e) b) ?sw (kc_net c)) (EndName (en c i j))" if "i < kc_n c" "j < kc_n c" for i j
  proof -
    have "(en c i j, True) \<in> set (sw_connect c i [0..<kc_n c])" using that by (auto simp: sw_connect_def)
    then have "(en c i j, True) \<in> set ?sw" using that by auto
    moreover have "\<forall>b. (en c i j, b) \<in> set ?sw \<longrightarrow> b = True" by (auto simp: sw_connect_def)
    ultimately show ?thesis using fold_enable by blast
  qed
  then have "all_connected (switched c ?sw)" unfolding all_connected_def switched_simps by (simp add: switched_def)
  then show thesis using that ConnectAll_eq [OF assms] by blast
qed

lemma switched_all_up [simp]: "all_up (switched c sw) = all_up c"
  by (simp add: all_up_def switched_def)

lemma kc_make_config_ok:
  assumes f: "fresh_draws draws n" and e: "nw_ends net = {}"
  obtains c where "kc_make_config ops zero draws n unreliable maxraftstate net = Inr c"
    "kc_n c = n" "wired c" "all_up c" "all_connected c" "\<And>i j. i < n \<Longrightarrow> en c i j = draws i ! j"
proof -
  obtain c1 where c1: "foldE (\<lambda>i. StartServer ops zero (draws i) i) [0..<n] (empty_cluster n maxraftstate net) = Inr c1" "servers_up draws n n c1"
    using start_all [OF f e, of n] by blast
  note w = started_wired [OF c1(2) f]
  from ConnectAll_connects [OF w(1)] obtain sw where sw: "ConnectAll c1 = Inr (switched c1 sw)" "all_connected (switched c1 sw)" .
  let ?c = "(switched c1 sw)\<lparr>kc_net := Reliable (\<not> unreliable) (kc_net (switched c1 sw))\<rparr>"
  have en: "en ?c = en c1" by simp
  have "kc_n ?c = n" "wired ?c" "all_up ?c" "all_connected ?c"
    using c1(2) w(1,2) sw(2) by (simp_all add: servers_up_def wired_def all_up_def all_connected_def Reliable_def switched_def)
  moreover have "kc_make_config ops zero draws n unreliable maxraftstate net = Inr ?c"
    using c1(1) sw(1) by (simp add: kc_make_config_def)
  ultimately show thesis using that w(3) en by metis
qed


section \<open>Random names\<close>

text \<open>A name that is in use already ends the program.\<close>

abbreviation end_exists :: go_panic where
  "end_exists \<equiv> Fatal ''MakeEnd: already exists''"

lemma make_ends_clash:
  assumes "m \<le> length names" "\<not> (distinct (take m names) \<and> EndName ` set (take m names) \<inter> nw_ends (kc_net c) = {})"
  shows "foldE (kc_make_end names) [0..<m] c = Inl end_exists"
  using assms
proof (induction m)
  case (Suc m)
  let ?t = "take m names"
  show ?case
  proof (cases "distinct ?t \<and> EndName ` set ?t \<inter> nw_ends (kc_net c) = {}")
    case True
    then obtain net where net: "foldE (kc_make_end ?t) [0..<m] c = Inr (c\<lparr>kc_net := net\<rparr>)"
        "nw_ends net = EndName ` set ?t \<union> nw_ends (kc_net c)" using make_ends_ok [of ?t c m] Suc.prems(1) by auto
    have "foldE (kc_make_end names) [0..<m] c = foldE (kc_make_end ?t) [0..<m] c"
      using Suc.prems(1) by (intro foldE_body_cong) (simp_all add: kc_make_end_def slice_get_def fun_eq_iff)
    moreover have "EndName (names ! m) \<in> nw_ends net" using True Suc.prems unfolding net(2) by (auto simp: take_Suc_conv_app_nth)
    then have "kc_make_end names m (c\<lparr>kc_net := net\<rparr>) = Inl end_exists"
      using Suc.prems(1) by (simp add: kc_make_end_def MakeEnd_def slice_get_def)
    ultimately show ?thesis using net(1) by (simp add: foldE_append)
  next
    case False
    then show ?thesis using Suc by (simp add: foldE_append)
  qed
qed simp

lemma StartServer_clash:
  assumes "servers_up draws n i c" "i < n" "length (draws i) = n"
    "\<not> (distinct (draws i) \<and> EndName ` set (draws i) \<inter> nw_ends (kc_net c) = {})"
  shows "StartServer ops zero (draws i) i c = Inl end_exists"
proof -
  let ?c = "c\<lparr>kc_endnames := (kc_endnames c)[i := Some (draws i)]\<rparr>"
  have "foldE (kc_make_end (draws i)) [0..<n] ?c = Inl end_exists" by (rule make_ends_clash) (use assms in simp_all)
  then show ?thesis using assms(1-3) by (simp add: StartServer_def servers_up_def)
qed

lemma start_all_or_clash:
  assumes len: "\<And>i. i < n \<Longrightarrow> length (draws i) = n" and e: "nw_ends net = {}" and "k \<le> n"
  shows "if distinct (concat (map draws [0..<k]))
    then \<exists>c. foldE (\<lambda>i. StartServer ops zero (draws i) i) [0..<k] (empty_cluster n maxraftstate net) = Inr c \<and> servers_up draws n k c
    else foldE (\<lambda>i. StartServer ops zero (draws i) i) [0..<k] (empty_cluster n maxraftstate net) = Inl end_exists"
  using assms(3)
proof (induction k)
  case 0
  then show ?case using e by (simp add: servers_up_def empty_cluster_def)
next
  case (Suc k)
  show ?case
  proof (cases "distinct (concat (map draws [0..<k]))")
    case True
    then obtain c where c: "foldE (\<lambda>i. StartServer ops zero (draws i) i) [0..<k] (empty_cluster n maxraftstate net) = Inr c" "servers_up draws n k c"
      using Suc by auto
    have "nw_ends (kc_net c) = EndName ` set (concat (map draws [0..<k]))" using c(2) by (simp add: servers_up_def atLeast0LessThan)
    then have "EndName ` set (draws k) \<inter> nw_ends (kc_net c) = {} \<longleftrightarrow> set (concat (map draws [0..<k])) \<inter> set (draws k) = {}"
      unfolding disjoint_iff by (simp add: image_iff Bex_def) blast
    then have iff: "distinct (concat (map draws [0..<Suc k])) \<longleftrightarrow> distinct (draws k) \<and> EndName ` set (draws k) \<inter> nw_ends (kc_net c) = {}"
      using True by (simp add: Int_commute)
    have k: "k < n" "length (draws k) = n" using Suc.prems len by simp_all
    show ?thesis
    proof (cases "distinct (concat (map draws [0..<Suc k]))")
      case True
      then obtain c' where "StartServer ops zero (draws k) k c = Inr c'" "servers_up draws n (Suc k) c'"
        using StartServer_distinct [OF c(2) k(1,2), of ops zero] iff by blast
      then show ?thesis using True c(1) by (simp add: foldE_append)
    next
      case False
      then have "StartServer ops zero (draws k) k c = Inl end_exists" using StartServer_clash [OF c(2) k] iff by blast
      then show ?thesis using False c(1) by (simp add: foldE_append)
    qed
  next
    case False
    then show ?thesis using Suc by (simp add: foldE_append)
  qed
qed

lemma kc_make_config_clash:
  assumes "\<And>i. i < n \<Longrightarrow> length (draws i) = n" "nw_ends net = {}" "\<not> fresh_draws draws n"
  shows "kc_make_config ops zero draws n unreliable maxraftstate net = Inl end_exists"
  using start_all_or_clash [where n = n and k = n and ops = ops and zero = zero and maxraftstate = maxraftstate, OF assms(1,2)] assms(1,3) by (auto simp: fresh_draws_def kc_make_config_def)

text \<open>A loop that fills a slice.\<close>

lemma fill_loop:
  assumes "\<And>j. j < n \<Longrightarrow> f j = Inr (g j)" "m \<le> n" "length xs = n"
  shows "foldE (\<lambda>j xs. bindE (f j) (\<lambda>s. slice_set xs j s)) [0..<m] xs = Inr (map g [0..<m] @ drop m xs)"
  using assms(2)
proof (induction m)
  case (Suc m)
  have "(map g [0..<m] @ drop m xs)[m := g m] = map g [0..<Suc m] @ drop (Suc m) xs"
    using Suc.prems assms(3) by (simp add: list_update_append Cons_nth_drop_Suc [symmetric])
  then show ?case using Suc assms(1) [of m] assms(3) by (simp add: foldE_append slice_set_def)
qed simp

lemma kc_random_config_eq:
  "kc_random_config ops zero rnd n unreliable maxraftstate net =
     kc_make_config ops zero (\<lambda>i. map (\<lambda>i. map (\<lambda>j. random_name 20 (rnd i j)) [0..<n]) [0..<n] ! i) n unreliable maxraftstate net"
proof -
  have "random_endnames n r = Inr (map (\<lambda>j. random_name 20 (r j)) [0..<n])" for r
    using fill_loop [of n "\<lambda>j. randstring 20 (r j)" "\<lambda>j. random_name 20 (r j)" n "replicate n []"]
    by (simp add: random_endnames_def randstring_ok(1))
  then show ?thesis
    using fill_loop [of n "\<lambda>i. random_endnames n (rnd i)" "\<lambda>i. map (\<lambda>j. random_name 20 (rnd i j)) [0..<n]" n "replicate n []"]
    by (simp add: kc_random_config_def)
qed

text \<open>Random names are fresh exactly if the first fifteen of the bytes that are drawn for each of them differ.\<close>

lemma random_draws_fresh:
  "fresh_draws (\<lambda>i. map (\<lambda>i. map (\<lambda>j. random_name 20 (rnd i j)) [0..<n]) [0..<n] ! i) n \<longleftrightarrow>
     inj_on (\<lambda>(i, j). map (rnd i j) [0..<15]) ({..<n} \<times> {..<n})"
proof -
  let ?rows = "\<lambda>i. map (\<lambda>j. random_name 20 (rnd i j)) [0..<n]"
  have rows: "map ((!) (map ?rows [0..<n])) [0..<n] = map ?rows [0..<n]" by (rule nth_equalityI) simp_all
  have "concat (map ?rows [0..<n]) = map (\<lambda>(i, j). random_name 20 (rnd i j)) (List.product [0..<n] [0..<n])"
    by (simp add: product_concat_map map_concat comp_def)
  moreover have "set (List.product [0..<n] [0..<n]) = {..<n} \<times> {..<n}" by auto
  ultimately have "fresh_draws (\<lambda>i. map ?rows [0..<n] ! i) n \<longleftrightarrow> inj_on (\<lambda>(i, j). random_name 20 (rnd i j)) ({..<n} \<times> {..<n})"
    by (simp add: fresh_draws_def rows distinct_map distinct_product del: map_eq_conv)
  moreover have "random_name 20 r = random_name 20 r' \<longleftrightarrow> map r [0..<15] = map r' [0..<15]" for r r' using random_name_inj [of 5 r r'] by simp
  ultimately show ?thesis unfolding inj_on_def by (simp add: split_def)
qed

end
