(* ===== verification/Shards.thy ===== *)
theory Shards
  imports Cluster
begin

text \<open>
  The shard controller (\<^verbatim>\<open>shardctrler/common.go\<close>, \<^verbatim>\<open>client.go\<close>, \<^verbatim>\<open>server.go\<close> and the operations of
  \<^verbatim>\<open>config.go\<close> that depend on the type of server) and the sharded key/value service
  (\<^verbatim>\<open>shardkv/common.go\<close>, \<^verbatim>\<open>client.go\<close>, \<^verbatim>\<open>server.go\<close>).

  A clerk's loop is driven by what its calls return.  Everything outside the clerk (the network, the servers, other
  clerks) is one value of type \<open>'w\<close>; \<open>call e meth args w\<close> is what \<^verbatim>\<open>ClientEnd.Call\<close> on the end \<open>e\<close> returns in the world \<open>w\<close>
  (\<open>None\<close>: false) with the world afterwards, and \<open>sleep w\<close> the world after \<^verbatim>\<open>time.Sleep\<close>.  Both are arguments.
\<close>

section \<open>Loops that try again\<close>

text \<open>
  One attempt ends with a panic, with a result, or without result; then \<open>next\<close>, which may never return, prepares the following
  attempt.  The value \<open>None\<close> means that the loop never returns.
\<close>

type_synonym ('r, 's) attempt = "'s \<Rightarrow> ('r option \<times> 's) result"

partial_function (option) retry :: "('r, 's) attempt \<Rightarrow> ('s \<Rightarrow> 's option) \<Rightarrow> 's \<Rightarrow> ('r \<times> 's) result option" where
  "retry attempt next s =
     (case attempt s of
        Inl e \<Rightarrow> Some (Inl e)
      | Inr (Some r, s) \<Rightarrow> Some (Inr (r, s))
      | Inr (None, s) \<Rightarrow> Option.bind (next s) (retry attempt next))"

text \<open>The states in which the attempts of the loop start.\<close>

inductive attempts :: "('r, 's) attempt \<Rightarrow> ('s \<Rightarrow> 's option) \<Rightarrow> 's \<Rightarrow> 's \<Rightarrow> bool" for attempt "next" s where
  first: "attempts attempt next s s"
| again: "attempts attempt next s s1 \<Longrightarrow> attempt s1 = Inr (None, s2) \<Longrightarrow> next s2 = Some s3 \<Longrightarrow> attempts attempt next s s3"

lemma retry_step: "attempt s1 = Inr (None, s2) \<Longrightarrow> next s2 = Some s3 \<Longrightarrow> retry attempt next s1 = retry attempt next s3"
  by (simp add: retry.simps [of attempt "next" s1])

lemma retry_attempts: "attempts attempt next s s' \<Longrightarrow> retry attempt next s = retry attempt next s'"
  by (induction rule: attempts.induct) (auto simp: retry_step)

lemma attempts_earlier:
  assumes "attempts attempt next s3 s'" "attempt s = Inr (None, s2)" "next s2 = Some s3"
  shows "attempts attempt next s s'"
  using assms by (induction rule: attempts.induct) (auto intro: attempts.intros)

lemma retry_SomeE:
  assumes "retry attempt next s = Some y"
  shows "\<exists>s'. attempts attempt next s s' \<and>
    ((\<exists>e. attempt s' = Inl e \<and> y = Inl e) \<or> (\<exists>r s''. attempt s' = Inr (Some r, s'') \<and> y = Inr (r, s'')))"
  using assms
proof (induction attempt "next" s y rule: retry.raw_induct [rotated, consumes 1, case_names 1])
  case (1 retry' attempt "next" s y)
  show ?case
  proof (cases "attempt s")
    case (Inl e)
    then show ?thesis using 1(2) by (auto intro: attempts.first)
  next
    case (Inr x)
    obtain o1 s2 where x: "x = (o1, s2)" by (cases x)
    show ?thesis
    proof (cases o1)
      case None
      then obtain s3 where n: "next s2 = Some s3" "retry' attempt next s3 = Some y"
        using 1(2) Inr x by (auto simp: bind_eq_Some_conv)
      then show ?thesis using 1(1) [OF n(2)] attempts_earlier Inr x None by metis
    next
      case (Some r)
      then show ?thesis using 1(2) Inr x by (auto intro: attempts.first)
    qed
  qed
qed

text \<open>The loop returns exactly if some attempt has a result, and then with the result of that attempt.\<close>

lemma retry_returns_iff:
  "retry attempt next s = Some (Inr (r, s'')) \<longleftrightarrow> (\<exists>s'. attempts attempt next s s' \<and> attempt s' = Inr (Some r, s''))"
proof
  assume "\<exists>s'. attempts attempt next s s' \<and> attempt s' = Inr (Some r, s'')"
  then obtain s' where s': "attempts attempt next s s'" "attempt s' = Inr (Some r, s'')" by blast
  have "retry attempt next s' = Some (Inr (r, s''))" using s'(2) by (simp add: retry.simps [of attempt "next" s'])
  then show "retry attempt next s = Some (Inr (r, s''))" using retry_attempts [OF s'(1)] by simp
next
  assume "retry attempt next s = Some (Inr (r, s''))"
  from retry_SomeE [OF this] show "\<exists>s'. attempts attempt next s s' \<and> attempt s' = Inr (Some r, s'')" by auto
qed

lemma retry_panics_iff:
  "retry attempt next s = Some (Inl e) \<longleftrightarrow> (\<exists>s'. attempts attempt next s s' \<and> attempt s' = Inl e)"
proof
  assume "\<exists>s'. attempts attempt next s s' \<and> attempt s' = Inl e"
  then obtain s' where s': "attempts attempt next s s'" "attempt s' = Inl e" by blast
  have "retry attempt next s' = Some (Inl e)" using s'(2) by (simp add: retry.simps [of attempt "next" s'])
  then show "retry attempt next s = Some (Inl e)" using retry_attempts [OF s'(1)] by simp
next
  assume "retry attempt next s = Some (Inl e)"
  from retry_SomeE [OF this] show "\<exists>s'. attempts attempt next s s' \<and> attempt s' = Inl e" by auto
qed

section \<open>The shard controller's data\<close>

definition NShards :: nat where
  "NShards = 10"

record Config =
  Num :: int
  Shards :: "int list"
  Groups :: "int \<rightharpoonup> string list"

text \<open>The zero value of \<^verbatim>\<open>Config\<close>; its map is \<^verbatim>\<open>nil\<close>, which reads like an empty map.\<close>

definition zero_Config :: Config where
  "zero_Config = \<lparr>Num = 0, Shards = replicate NShards 0, Groups = Map.empty\<rparr>"

definition OK :: string where
  "OK = ''OK''"

record JoinArgs =
  ja_Servers :: "int \<rightharpoonup> string list"

record LeaveArgs =
  la_GIDs :: "int list"

record MoveArgs =
  ma_Shard :: int
  ma_GID :: int

record QueryArgs =
  qa_Num :: int

text \<open>\<^verbatim>\<open>JoinReply\<close>, \<^verbatim>\<open>LeaveReply\<close> and \<^verbatim>\<open>MoveReply\<close> have the same two fields, which \<^verbatim>\<open>QueryReply\<close> extends.\<close>

record CtrlerReply =
  cr_WrongLeader :: bool
  cr_Err :: string

record QueryReply = CtrlerReply +
  qr_Config :: Config

section \<open>The shard controller's clerk\<close>

type_synonym ('e, 'a, 'r, 'w) calls = "'e \<Rightarrow> string \<Rightarrow> 'a \<Rightarrow> 'w \<Rightarrow> 'r option \<times> 'w"

record 'e ctrler_clerk =
  sc_servers :: "'e list"

definition ctrler_MakeClerk :: "'e list \<Rightarrow> 'e ctrler_clerk" where
  "ctrler_MakeClerk servers = \<lparr>sc_servers = servers\<rparr>"

text \<open>The inner loop, which all four operations have: the servers in order, up to the first that answers as the leader.\<close>

fun try_ctrlers :: "('e \<Rightarrow> 'w \<Rightarrow> 'a CtrlerReply_scheme option \<times> 'w) \<Rightarrow> 'e list \<Rightarrow> 'w \<Rightarrow> 'a CtrlerReply_scheme option \<times> 'w" where
  "try_ctrlers rpc [] w = (None, w)"
| "try_ctrlers rpc (srv # srvs) w =
     (case rpc srv w of
        (Some reply, w) \<Rightarrow> if cr_WrongLeader reply = False then (Some reply, w) else try_ctrlers rpc srvs w
      | (None, w) \<Rightarrow> try_ctrlers rpc srvs w)"

definition until_leader ::
    "('e \<Rightarrow> 'w \<Rightarrow> 'a CtrlerReply_scheme option \<times> 'w) \<Rightarrow> ('w \<Rightarrow> 'w) \<Rightarrow> 'e ctrler_clerk \<Rightarrow> 'w
       \<Rightarrow> ('a CtrlerReply_scheme \<times> 'w) result option" where
  "until_leader rpc sleep ck = retry (\<lambda>w. Inr (try_ctrlers rpc (sc_servers ck) w)) (\<lambda>w. Some (sleep w))"

definition Clerk_Query ::
    "('e, QueryArgs, QueryReply, 'w) calls \<Rightarrow> ('w \<Rightarrow> 'w) \<Rightarrow> 'e ctrler_clerk \<Rightarrow> int \<Rightarrow> 'w \<Rightarrow> (Config \<times> 'w) option" where
  "Clerk_Query call sleep ck num w =
     (let args = \<lparr>qa_Num = num\<rparr> in
      case until_leader (\<lambda>srv. call srv ''ShardCtrler.Query'' args) sleep ck w of
        Some (Inr (reply, w)) \<Rightarrow> Some (qr_Config reply, w)
      | _ \<Rightarrow> None)"

definition Clerk_Join ::
    "('e, JoinArgs, CtrlerReply, 'w) calls \<Rightarrow> ('w \<Rightarrow> 'w) \<Rightarrow> 'e ctrler_clerk \<Rightarrow> (int \<rightharpoonup> string list) \<Rightarrow> 'w \<Rightarrow> 'w option" where
  "Clerk_Join call sleep ck servers w =
     (let args = \<lparr>ja_Servers = servers\<rparr> in
      case until_leader (\<lambda>srv. call srv ''ShardCtrler.Join'' args) sleep ck w of
        Some (Inr (reply, w)) \<Rightarrow> Some w
      | _ \<Rightarrow> None)"

definition Clerk_Leave ::
    "('e, LeaveArgs, CtrlerReply, 'w) calls \<Rightarrow> ('w \<Rightarrow> 'w) \<Rightarrow> 'e ctrler_clerk \<Rightarrow> int list \<Rightarrow> 'w \<Rightarrow> 'w option" where
  "Clerk_Leave call sleep ck gids w =
     (let args = \<lparr>la_GIDs = gids\<rparr> in
      case until_leader (\<lambda>srv. call srv ''ShardCtrler.Leave'' args) sleep ck w of
        Some (Inr (reply, w)) \<Rightarrow> Some w
      | _ \<Rightarrow> None)"

definition Clerk_Move ::
    "('e, MoveArgs, CtrlerReply, 'w) calls \<Rightarrow> ('w \<Rightarrow> 'w) \<Rightarrow> 'e ctrler_clerk \<Rightarrow> int \<Rightarrow> int \<Rightarrow> 'w \<Rightarrow> 'w option" where
  "Clerk_Move call sleep ck shard gid w =
     (let args = \<lparr>ma_Shard = shard, ma_GID = gid\<rparr> in
      case until_leader (\<lambda>srv. call srv ''ShardCtrler.Move'' args) sleep ck w of
        Some (Inr (reply, w)) \<Rightarrow> Some w
      | _ \<Rightarrow> None)"

section \<open>The shard controller's server\<close>

record ShardCtrler =
  sc_me :: nat
  sc_rf :: nat
  sc_configs :: "Config list"

definition ShardCtrler_Join :: "ShardCtrler \<Rightarrow> 'v \<Rightarrow> 'v \<Rightarrow> 'v \<times> ShardCtrler" where
  "ShardCtrler_Join sc args reply = (reply, sc)"

definition ShardCtrler_Leave :: "ShardCtrler \<Rightarrow> 'v \<Rightarrow> 'v \<Rightarrow> 'v \<times> ShardCtrler" where
  "ShardCtrler_Leave sc args reply = (reply, sc)"

definition ShardCtrler_Move :: "ShardCtrler \<Rightarrow> 'v \<Rightarrow> 'v \<Rightarrow> 'v \<times> ShardCtrler" where
  "ShardCtrler_Move sc args reply = (reply, sc)"

definition ShardCtrler_Query :: "ShardCtrler \<Rightarrow> 'v \<Rightarrow> 'v \<Rightarrow> 'v \<times> ShardCtrler" where
  "ShardCtrler_Query sc args reply = (reply, sc)"

text \<open>\<^verbatim>\<open>Kill\<close> only kills the Raft peer, which the configuration does; the server itself is left as it is.\<close>

definition ShardCtrler_Kill :: "ShardCtrler \<Rightarrow> ShardCtrler" where
  "ShardCtrler_Kill sc = sc"

definition ShardCtrler_Raft :: "ShardCtrler \<Rightarrow> nat" where
  "ShardCtrler_Raft sc = sc_rf sc"

definition ctrler_StartServer :: "nat \<Rightarrow> nat \<Rightarrow> ShardCtrler" where
  "ctrler_StartServer me rf =
     \<lparr>sc_me = me, sc_rf = rf, sc_configs = [zero_Config\<lparr>Groups := Map.empty\<rparr>]\<rparr>"

definition ctrler_ops :: "'v \<Rightarrow> ('v, ShardCtrler) server_ops" where
  "ctrler_ops zero =
     \<lparr>so_name = ''ShardCtrler'', so_rf = ShardCtrler_Raft, so_Kill = ShardCtrler_Kill,
      so_make = (\<lambda>me _ rf. ctrler_StartServer me rf),
      so_methods = [handler_method ''Join'' (\<lambda>sc args. ShardCtrler_Join sc args zero),
        plain_method ''Kill'' 1 0,
        handler_method ''Leave'' (\<lambda>sc args. ShardCtrler_Leave sc args zero),
        handler_method ''Move'' (\<lambda>sc args. ShardCtrler_Move sc args zero),
        handler_method ''Query'' (\<lambda>sc args. ShardCtrler_Query sc args zero),
        plain_method ''Raft'' 1 1]\<rparr>"

text \<open>
  \<^verbatim>\<open>shardctrler/config.go\<close>: the operations of the configuration that start and stop servers.  There is no
  \<^verbatim>\<open>maxraftstate\<close>, and the others do not depend on the type of server.
\<close>

definition ctrler_cleanup :: "'v \<Rightarrow> test_state \<Rightarrow> ('v, ShardCtrler) cluster \<Rightarrow> ('v, ShardCtrler) cluster result" where
  "ctrler_cleanup zero = kc_cleanup (ctrler_ops zero)"

definition ctrler_ShutdownServer :: "'v \<Rightarrow> nat \<Rightarrow> ('v, ShardCtrler) cluster \<Rightarrow> ('v, ShardCtrler) cluster result" where
  "ctrler_ShutdownServer zero = ShutdownServer (ctrler_ops zero)"

definition ctrler_config_StartServer ::
    "'v \<Rightarrow> string list \<Rightarrow> nat \<Rightarrow> ('v, ShardCtrler) cluster \<Rightarrow> ('v, ShardCtrler) cluster result" where
  "ctrler_config_StartServer zero = StartServer (ctrler_ops zero) zero"

definition ctrler_make_config ::
    "'v \<Rightarrow> (nat \<Rightarrow> string list) \<Rightarrow> nat \<Rightarrow> bool \<Rightarrow> (name, 'v, ShardCtrler object) network
       \<Rightarrow> ('v, ShardCtrler) cluster result" where
  "ctrler_make_config zero draws n unreliable net = kc_make_config (ctrler_ops zero) zero draws n unreliable 0 net"

section \<open>The sharded key/value service\<close>

definition ErrNoKey :: string where
  "ErrNoKey = ''ErrNoKey''"

definition ErrWrongGroup :: string where
  "ErrWrongGroup = ''ErrWrongGroup''"

definition ErrWrongLeader :: string where
  "ErrWrongLeader = ''ErrWrongLeader''"

record PutAppendArgs =
  pa_Key :: string
  pa_Value :: string
  pa_Op :: string

record PutAppendReply =
  pr_Err :: string

record GetArgs =
  ga_Key :: string

record GetReply =
  gr_Err :: string
  gr_Value :: string

text \<open>\<^verbatim>\<open>key[0]\<close> is a byte.\<close>

definition key2shard :: "string \<Rightarrow> nat" where
  "key2shard key =
     (let shard = 0;
          shard = (if length key > 0 then of_char (key ! 0) else shard)
      in shard mod NShards)"

record ('e, 'w) shardkv_clerk =
  kk_sm :: "'e ctrler_clerk"
  kk_config :: Config
  kk_make_end :: "string \<Rightarrow> 'w \<Rightarrow> 'e \<times> 'w"

definition shardkv_MakeClerk :: "'e list \<Rightarrow> (string \<Rightarrow> 'w \<Rightarrow> 'e \<times> 'w) \<Rightarrow> ('e, 'w) shardkv_clerk" where
  "shardkv_MakeClerk ctrlers mk_end =
     \<lparr>kk_sm = ctrler_MakeClerk ctrlers, kk_config = zero_Config, kk_make_end = mk_end\<rparr>"

text \<open>The loops over the servers of a group.\<close>

fun Get_servers ::
    "('e, GetArgs, GetReply, 'w) calls \<Rightarrow> (string \<Rightarrow> 'w \<Rightarrow> 'e \<times> 'w) \<Rightarrow> GetArgs \<Rightarrow> string list \<Rightarrow> 'w \<Rightarrow> string option \<times> 'w" where
  "Get_servers call mk_end args [] w = (None, w)"
| "Get_servers call mk_end args (s # servers) w =
     (case mk_end s w of (srv, w) \<Rightarrow>
      case call srv ''ShardKV.Get'' args w of
        (Some reply, w) \<Rightarrow>
          if gr_Err reply = OK \<or> gr_Err reply = ErrNoKey then (Some (gr_Value reply), w)
          else if gr_Err reply = ErrWrongGroup then (None, w)
          else Get_servers call mk_end args servers w
      | (None, w) \<Rightarrow> Get_servers call mk_end args servers w)"

fun PutAppend_servers ::
    "('e, PutAppendArgs, PutAppendReply, 'w) calls \<Rightarrow> (string \<Rightarrow> 'w \<Rightarrow> 'e \<times> 'w) \<Rightarrow> PutAppendArgs \<Rightarrow> string list \<Rightarrow> 'w
       \<Rightarrow> unit option \<times> 'w" where
  "PutAppend_servers call mk_end args [] w = (None, w)"
| "PutAppend_servers call mk_end args (s # servers) w =
     (case mk_end s w of (srv, w) \<Rightarrow>
      case call srv ''ShardKV.PutAppend'' args w of
        (Some reply, w) \<Rightarrow>
          if pr_Err reply = OK then (Some (), w)
          else if pr_Err reply = ErrWrongGroup then (None, w)
          else PutAppend_servers call mk_end args servers w
      | (None, w) \<Rightarrow> PutAppend_servers call mk_end args servers w)"

text \<open>One round of the outer loop, up to the sleep: the group that the clerk's configuration gives for the key's shard is asked.\<close>

definition group_attempt ::
    "((string \<Rightarrow> 'w \<Rightarrow> 'e \<times> 'w) \<Rightarrow> string list \<Rightarrow> 'w \<Rightarrow> 'r option \<times> 'w) \<Rightarrow> string \<Rightarrow> ('r, ('e, 'w) shardkv_clerk \<times> 'w) attempt" where
  "group_attempt ask key = (\<lambda>(ck, w).
     let shard = key2shard key in
     bindE (slice_get (Shards (kk_config ck)) shard) (\<lambda>gid.
     case Groups (kk_config ck) gid of
       Some servers \<Rightarrow> (case ask (kk_make_end ck) servers w of (r, w) \<Rightarrow> Inr (r, (ck, w)))
     | None \<Rightarrow> Inr (None, (ck, w))))"

text \<open>The rest of the round: the latest configuration.\<close>

definition latest_config ::
    "('e, QueryArgs, QueryReply, 'w) calls \<Rightarrow> ('w \<Rightarrow> 'w) \<Rightarrow> ('e, 'w) shardkv_clerk \<times> 'w \<Rightarrow> (('e, 'w) shardkv_clerk \<times> 'w) option" where
  "latest_config qcall sleep = (\<lambda>(ck, w).
     case Clerk_Query qcall sleep (kk_sm ck) (-1) (sleep w) of
       None \<Rightarrow> None
     | Some (config, w) \<Rightarrow> Some (ck\<lparr>kk_config := config\<rparr>, w))"

definition shardkv_Get ::
    "('e, GetArgs, GetReply, 'w) calls \<Rightarrow> ('e, QueryArgs, QueryReply, 'w) calls \<Rightarrow> ('w \<Rightarrow> 'w) \<Rightarrow> string
       \<Rightarrow> ('e, 'w) shardkv_clerk \<times> 'w \<Rightarrow> (string \<times> ('e, 'w) shardkv_clerk \<times> 'w) result option" where
  "shardkv_Get call qcall sleep key =
     (let args = \<lparr>ga_Key = key\<rparr> in
      retry (group_attempt (\<lambda>mk_end. Get_servers call mk_end args) key) (latest_config qcall sleep))"

definition shardkv_PutAppend ::
    "('e, PutAppendArgs, PutAppendReply, 'w) calls \<Rightarrow> ('e, QueryArgs, QueryReply, 'w) calls \<Rightarrow> ('w \<Rightarrow> 'w) \<Rightarrow> string \<Rightarrow> string \<Rightarrow> string
       \<Rightarrow> ('e, 'w) shardkv_clerk \<times> 'w \<Rightarrow> (unit \<times> ('e, 'w) shardkv_clerk \<times> 'w) result option" where
  "shardkv_PutAppend call qcall sleep key val op =
     (let args = \<lparr>pa_Key = key, pa_Value = val, pa_Op = op\<rparr> in
      retry (group_attempt (\<lambda>mk_end. PutAppend_servers call mk_end args) key) (latest_config qcall sleep))"

definition shardkv_Put where
  "shardkv_Put call qcall sleep key val = shardkv_PutAppend call qcall sleep key val ''Put''"

definition shardkv_Append where
  "shardkv_Append call qcall sleep key val = shardkv_PutAppend call qcall sleep key val ''Append''"

section \<open>The sharded key/value server\<close>

text \<open>
  The function \<^verbatim>\<open>make_end\<close> that a server is given is the same for all servers and is not used by the outline;
  it is \<open>config_make_end\<close> of the configuration and not a field here.
\<close>

record 'e ShardKV =
  sk_me :: nat
  sk_rf :: nat
  sk_gid :: int
  sk_ctrlers :: "'e list"
  sk_maxraftstate :: int

definition ShardKV_Get :: "'e ShardKV \<Rightarrow> 'v \<Rightarrow> 'v \<Rightarrow> 'v \<times> 'e ShardKV" where
  "ShardKV_Get kv args reply = (reply, kv)"

definition ShardKV_PutAppend :: "'e ShardKV \<Rightarrow> 'v \<Rightarrow> 'v \<Rightarrow> 'v \<times> 'e ShardKV" where
  "ShardKV_PutAppend kv args reply = (reply, kv)"

definition shardkv_StartServer :: "nat \<Rightarrow> int \<Rightarrow> int \<Rightarrow> 'e list \<Rightarrow> nat \<Rightarrow> 'e ShardKV" where
  "shardkv_StartServer me maxraftstate gid ctrlers rf =
     \<lparr>sk_me = me, sk_rf = rf, sk_gid = gid, sk_ctrlers = ctrlers, sk_maxraftstate = maxraftstate\<rparr>"

end
