(* ===== verification/Shards_Correct.thy ===== *)
theory Shards_Correct
  imports Shards
begin

text \<open>
  When the clerks of the shard controller and of the sharded key/value service return, and with what.
\<close>

section \<open>Asking servers in turn\<close>

datatype 'r reaction = Answer 'r | GiveUp | TryNext

text \<open>
  A loop over servers that reacts to each: it ends with an answer, gives up, or tries the next one.  It has an answer exactly
  if all servers before some server were tried in vain and that one gave the answer.
\<close>

locale asking =
  fixes ask :: "'s list \<Rightarrow> 'w \<Rightarrow> 'r option \<times> 'w" and one :: "'s \<Rightarrow> 'w \<Rightarrow> 'r reaction \<times> 'w"
  assumes ask_Nil: "ask [] w = (None, w)"
    and ask_Cons: "ask (s # ss) w =
      (case one s w of (Answer r, w) \<Rightarrow> (Some r, w) | (GiveUp, w) \<Rightarrow> (None, w) | (TryNext, w) \<Rightarrow> ask ss w)"
begin

inductive in_vain :: "'s list \<Rightarrow> 'w \<Rightarrow> 'w \<Rightarrow> bool" where
  none: "in_vain [] w w"
| one: "one s w = (TryNext, w1) \<Longrightarrow> in_vain ss w1 w2 \<Longrightarrow> in_vain (s # ss) w w2"

inductive_simps in_vain_simps: "in_vain [] w w'" "in_vain (s # ss) w w'"

lemma ask_answers_iff:
  "ask ss w = (Some r, w') \<longleftrightarrow>
     (\<exists>pre s post w1. ss = pre @ s # post \<and> in_vain pre w w1 \<and> one s w1 = (Answer r, w'))"
proof (induction ss arbitrary: w)
  case Nil
  then show ?case by (simp add: ask_Nil)
next
  case (Cons s ss)
  show ?case
  proof (cases "one s w")
    case (Pair x w1)
    have split: "(\<exists>pre t post w1. s # ss = pre @ t # post \<and> in_vain pre w w1 \<and> one t w1 = (Answer r, w')) \<longleftrightarrow>
        one s w = (Answer r, w') \<or>
        (\<exists>w1. one s w = (TryNext, w1) \<and> (\<exists>pre t post w2. ss = pre @ t # post \<and> in_vain pre w1 w2 \<and> one t w2 = (Answer r, w')))"
      (is "?l \<longleftrightarrow> ?r")
    proof
      assume ?l
      then obtain pre t post w1 where t: "s # ss = pre @ t # post" "in_vain pre w w1" "one t w1 = (Answer r, w')" by blast
      then show ?r by (cases pre) (auto simp: in_vain_simps)
    next
      assume ?r
      then show ?l
      proof (elim disjE exE conjE)
        assume "one s w = (Answer r, w')"
        then show ?l using none by (intro exI [of _ "[]"]) auto
      next
        fix w1 pre t post w2
        assume "one s w = (TryNext, w1)" "ss = pre @ t # post" "in_vain pre w1 w2" "one t w2 = (Answer r, w')"
        then show ?l by (intro exI [of _ "s # pre"] exI [of _ t] exI [of _ post] exI [of _ w2]) (auto simp: in_vain_simps)
      qed
    qed
    show ?thesis unfolding split using Cons.IH [of w1] Pair by (cases x) (auto simp: ask_Cons)
  qed
qed

end

definition ctrler_one ::
    "('e \<Rightarrow> 'w \<Rightarrow> 'a CtrlerReply_scheme option \<times> 'w) \<Rightarrow> 'e \<Rightarrow> 'w \<Rightarrow> 'a CtrlerReply_scheme reaction \<times> 'w" where
  "ctrler_one rpc srv w =
     (case rpc srv w of (Some reply, w) \<Rightarrow> (if cr_WrongLeader reply then TryNext else Answer reply, w) | (None, w) \<Rightarrow> (TryNext, w))"

definition Get_one ::
    "('e, GetArgs, GetReply, 'w) calls \<Rightarrow> (string \<Rightarrow> 'w \<Rightarrow> 'e \<times> 'w) \<Rightarrow> GetArgs \<Rightarrow> string \<Rightarrow> 'w \<Rightarrow> string reaction \<times> 'w" where
  "Get_one call mk_end args s w =
     (case mk_end s w of (srv, w) \<Rightarrow> case call srv ''ShardKV.Get'' args w of
        (Some reply, w) \<Rightarrow>
          (if gr_Err reply \<in> {OK, ErrNoKey} then Answer (gr_Value reply) else if gr_Err reply = ErrWrongGroup then GiveUp else TryNext, w)
      | (None, w) \<Rightarrow> (TryNext, w))"

definition PutAppend_one ::
    "('e, PutAppendArgs, PutAppendReply, 'w) calls \<Rightarrow> (string \<Rightarrow> 'w \<Rightarrow> 'e \<times> 'w) \<Rightarrow> PutAppendArgs \<Rightarrow> string \<Rightarrow> 'w
       \<Rightarrow> unit reaction \<times> 'w" where
  "PutAppend_one call mk_end args s w =
     (case mk_end s w of (srv, w) \<Rightarrow> case call srv ''ShardKV.PutAppend'' args w of
        (Some reply, w) \<Rightarrow>
          (if pr_Err reply = OK then Answer () else if pr_Err reply = ErrWrongGroup then GiveUp else TryNext, w)
      | (None, w) \<Rightarrow> (TryNext, w))"

interpretation ctrler: asking "try_ctrlers rpc" "ctrler_one rpc" for rpc
  by unfold_locales (auto simp: ctrler_one_def split: option.split prod.split)

interpretation get: asking "Get_servers call mk_end args" "Get_one call mk_end args" for call mk_end args
  by unfold_locales (auto simp: Get_one_def split: option.split prod.split)

interpretation put: asking "PutAppend_servers call mk_end args" "PutAppend_one call mk_end args" for call mk_end args
  by unfold_locales (auto simp: PutAppend_one_def split: option.split prod.split)

section \<open>The shard controller's clerk\<close>

lemma until_leader_no_panic: "until_leader rpc sleep ck w \<noteq> Some (Inl e)"
  by (simp add: until_leader_def retry_panics_iff)

lemma Query_Some_iff:
  "Clerk_Query call sleep ck num w = Some (config, w') \<longleftrightarrow>
     (\<exists>reply. until_leader (\<lambda>srv. call srv ''ShardCtrler.Query'' \<lparr>qa_Num = num\<rparr>) sleep ck w = Some (Inr (reply, w')) \<and>
        config = qr_Config reply)"
  by (auto simp: Clerk_Query_def Let_def split: option.split sum.split prod.split)

lemma ctrler_one_Answer: "ctrler_one rpc srv w = (Answer reply, w') \<longleftrightarrow> rpc srv w = (Some reply, w') \<and> \<not> cr_WrongLeader reply"
  by (cases "rpc srv w"; cases "fst (rpc srv w)") (auto simp: ctrler_one_def)

lemma try_servers_answer:
  assumes "try_ctrlers rpc srvs w = (Some reply, w')"
  obtains srv w1 where "srv \<in> set srvs" "rpc srv w1 = (Some reply, w')" "\<not> cr_WrongLeader reply"
proof -
  obtain pre srv post w1 where "srvs = pre @ srv # post" "ctrler_one rpc srv w1 = (Answer reply, w')"
    using assms unfolding ctrler.ask_answers_iff by blast
  then show thesis by (intro that [of srv w1]) (simp_all add: ctrler_one_Answer)
qed

lemma until_leader_answer:
  assumes "until_leader rpc sleep ck w = Some (Inr (reply, w'))"
  obtains srv w1 where "srv \<in> set (sc_servers ck)" "rpc srv w1 = (Some reply, w')" "\<not> cr_WrongLeader reply"
  using assms unfolding until_leader_def retry_returns_iff by (auto elim: try_servers_answer)

section \<open>The sharded clerk\<close>

lemma key2shard_less: "key2shard key < NShards"
  by (simp add: key2shard_def NShards_def Let_def)

text \<open>Controllers send arrays of \<^verbatim>\<open>NShards\<close> groups, as the type of \<^verbatim>\<open>Shards\<close> says.\<close>

definition sends_arrays :: "('e, QueryArgs, QueryReply, 'w) calls \<Rightarrow> bool" where
  "sends_arrays qcall \<longleftrightarrow>
     (\<forall>srv meth args w reply w'. qcall srv meth args w = (Some reply, w') \<longrightarrow> length (Shards (qr_Config reply)) = NShards)"

lemma latest_config_array:
  assumes "sends_arrays qcall" "latest_config qcall sleep s = Some (ck, w)"
  shows "length (Shards (kk_config ck)) = NShards"
proof -
  obtain config sm w1 w2 where c: "kk_config ck = config" "Clerk_Query qcall sleep sm (-1) w1 = Some (config, w2)"
    using assms(2) by (fastforce simp: latest_config_def split: option.splits prod.splits)
  then obtain sm w1 reply w2
    where "until_leader (\<lambda>srv. qcall srv ''ShardCtrler.Query'' \<lparr>qa_Num = -1\<rparr>) sleep sm w1 = Some (Inr (reply, w2))"
      "config = qr_Config reply" unfolding Query_Some_iff by blast
  then show ?thesis using assms(1) c(1) unfolding sends_arrays_def by (metis until_leader_answer)
qed

lemma attempts_array:
  assumes "attempts (group_attempt ask key) (latest_config qcall sleep) (ck, w) s'"
    and "sends_arrays qcall" "length (Shards (kk_config ck)) = NShards"
  shows "length (Shards (kk_config (fst s'))) = NShards"
  using assms by (induction rule: attempts.induct) (auto intro: latest_config_array simp: split_paired_all)

lemma group_attempt_array:
  assumes "length (Shards (kk_config ck)) = NShards"
  shows "group_attempt ask key (ck, w) =
    (case Groups (kk_config ck) (Shards (kk_config ck) ! key2shard key) of
       Some servers \<Rightarrow> (case ask (kk_make_end ck) servers w of (r, w) \<Rightarrow> Inr (r, (ck, w)))
     | None \<Rightarrow> Inr (None, (ck, w)))"
  using assms key2shard_less by (simp add: group_attempt_def)

text \<open>What both loops of the sharded clerk do, for any way to ask a group.\<close>

lemma group_retry_iff:
  assumes arr: "sends_arrays qcall" "length (Shards (kk_config ck)) = NShards"
  shows "retry (group_attempt ask key) (latest_config qcall sleep) (ck, w) = Some y \<longleftrightarrow>
    (\<exists>ck' w0 servers r w'. y = Inr (r, ck', w') \<and>
       attempts (group_attempt ask key) (latest_config qcall sleep) (ck, w) (ck', w0) \<and>
       Groups (kk_config ck') (Shards (kk_config ck') ! key2shard key) = Some servers \<and>
       ask (kk_make_end ck') servers w0 = (Some r, w'))"
proof (cases y)
  case (Inl e)
  have "\<not> (attempts (group_attempt ask key) (latest_config qcall sleep) (ck, w) s' \<and> group_attempt ask key s' = Inl e)" for s'
    using attempts_array [OF _ arr, of ask key sleep w s'] group_attempt_array [of "fst s'" ask key "snd s'"]
    by (auto split: option.splits prod.splits)
  then show ?thesis using Inl by (auto simp: retry_panics_iff)
next
  case (Inr x)
  obtain r ck' w' where x: "x = (r, ck', w')" by (cases x)
  have "attempts (group_attempt ask key) (latest_config qcall sleep) (ck, w) (ck1, w0) \<Longrightarrow>
      group_attempt ask key (ck1, w0) = Inr (Some r, ck', w') \<longleftrightarrow> ck1 = ck' \<and>
        (\<exists>servers. Groups (kk_config ck') (Shards (kk_config ck') ! key2shard key) = Some servers \<and>
          ask (kk_make_end ck') servers w0 = (Some r, w'))" for ck1 w0
    using attempts_array [OF _ arr] group_attempt_array [of ck1 ask key w0] by (fastforce split: option.splits prod.splits)
  then show ?thesis unfolding Inr x retry_returns_iff by auto blast+
qed

end
