(* ===== verification/Cluster_Service.thy ===== *)
theory Cluster_Service
  imports Cluster_Correct Shards_Correct
begin

text \<open>
  Configuration, network and clerk together: where the servers of a new configuration are, that a new client reaches
  the servers it is connected to, and what a restart of a server keeps.
\<close>

section \<open>Hosts\<close>

text \<open>The part of a network that operations on ends leave alone.\<close>

definition same_hosts :: "('n, 'v, 'r) network \<Rightarrow> ('n, 'v, 'r) network \<Rightarrow> bool" where
  "same_hosts net net' \<longleftrightarrow>
     nw_servers net' = nw_servers net \<and> nw_store net' = nw_store net \<and> nw_objs net' = nw_objs net \<and>
     nw_reliable net' = nw_reliable net \<and> nw_longReordering net' = nw_longReordering net \<and> nw_done net' = nw_done net"

lemma same_hosts_refl [simp]: "same_hosts net net"
  by (simp add: same_hosts_def)

lemma same_hosts_trans: "same_hosts n1 n2 \<Longrightarrow> same_hosts n2 n3 \<Longrightarrow> same_hosts n1 n3"
  by (simp add: same_hosts_def)

lemma same_hosts_ends [simp]:
  "same_hosts net (Enable e b net') = same_hosts net net'" "same_hosts net (Connect e s net') = same_hosts net net'"
  by (simp_all add: same_hosts_def Enable_def Connect_def)

lemma MakeEnd_hosts: "MakeEnd e net = Inr net' \<Longrightarrow> same_hosts net net'"
  by (auto simp: MakeEnd_def same_hosts_def split: if_splits)

text \<open>An operation on a cluster that only touches ends.\<close>

definition only_ends :: "('v, 's) cluster \<Rightarrow> ('v, 's) cluster \<Rightarrow> bool" where
  "only_ends c c' \<longleftrightarrow> c' = c\<lparr>kc_net := kc_net c'\<rparr> \<and> same_hosts (kc_net c) (kc_net c')"

lemma only_ends_refl [simp]: "only_ends c c"
  by (simp add: only_ends_def)

lemma only_ends_net [simp]: "only_ends c (c\<lparr>kc_net := net\<rparr>) = same_hosts (kc_net c) net"
  by (simp add: only_ends_def)

lemma only_ends_trans: "only_ends c1 c2 \<Longrightarrow> only_ends c2 c3 \<Longrightarrow> only_ends c1 c3"
  unfolding only_ends_def by (metis cluster.surjective cluster.update_convs(1) same_hosts_trans)

lemma only_endsD: "only_ends c c' \<Longrightarrow> same_hosts (kc_net c) (kc_net c')"
  by (simp add: only_ends_def)

lemma only_ends_foldE:
  assumes "foldE f xs c = Inr c'" "\<And>x c c'. f x c = Inr c' \<Longrightarrow> only_ends c c'"
  shows "only_ends c c'"
  using assms(1)
proof (induction xs arbitrary: c)
  case (Cons x xs)
  from Cons.prems obtain c1 where "f x c = Inr c1" "foldE f xs c1 = Inr c'" by (auto elim: bindE_InrE)
  then show ?case using Cons.IH assms(2) only_ends_trans by blast
qed simp

lemma kc_make_end_only: "kc_make_end names j c = Inr c' \<Longrightarrow> only_ends c c'"
  by (auto simp: kc_make_end_def elim!: bindE_InrE dest: MakeEnd_hosts)

lemma switched_only: "only_ends c (switched c sw)"
proof -
  have "same_hosts (kc_net c) (fold (\<lambda>(e, b). Enable (EndName e) b) sw net')" if "same_hosts (kc_net c) net'" for net'
    using that by (induction sw arbitrary: net') auto
  then show ?thesis by (simp add: switched_def)
qed

text \<open>The server object and the network server of the servers below \<open>i\<close>, at addresses that have been handed out.\<close>

definition host :: "('v, 's) server_ops \<Rightarrow> 'v \<Rightarrow> nat \<Rightarrow> nat \<Rightarrow> ('v, 's object) Server" where
  "host ops zero a r =
     AddService (AddService MakeServer (MakeService (so_name ops) a (so_methods ops))) (MakeService ''Raft'' r (raft_service_methods zero))"

definition host_at :: "('v, 's) server_ops \<Rightarrow> 'v \<Rightarrow> ('v, 's) cluster \<Rightarrow> nat \<Rightarrow> nat \<Rightarrow> bool" where
  "host_at ops zero c j a \<longleftrightarrow>
     a < kc_brk c \<and> nw_servers (kc_net c) (ServerName j) = Some a \<and>
     (\<exists>r < kc_brk c. nw_store (kc_net c) a = host ops zero a r \<and> (\<exists>rf. nw_objs (kc_net c) r = RaftObj rf)) \<and> (\<exists>s. nw_objs (kc_net c) a = ServerObj s)"

definition hosted :: "('v, 's) server_ops \<Rightarrow> 'v \<Rightarrow> nat \<Rightarrow> ('v, 's) cluster \<Rightarrow> bool" where
  "hosted ops zero i c \<longleftrightarrow> (\<forall>j < i. \<exists>a. host_at ops zero c j a)"

lemma host_at_only_ends: "only_ends c c' \<Longrightarrow> host_at ops zero c' = host_at ops zero c"
proof -
  assume o: "only_ends c c'"
  then have "kc_brk c' = kc_brk c" unfolding only_ends_def by (metis cluster.select_convs(12) cluster.surjective cluster.update_convs(1))
  then show ?thesis using o by (simp add: fun_eq_iff host_at_def only_ends_def same_hosts_def)
qed

lemma hosted_only_ends: "only_ends c c' \<Longrightarrow> hosted ops zero i c' = hosted ops zero i c"
  by (simp add: hosted_def host_at_only_ends)

lemma hosted_mono:
  assumes "hosted ops zero i c" "kc_brk c \<le> kc_brk c'" "same_hosts (kc_net c) (kc_net c')"
  shows "hosted ops zero i c'"
proof -
  have "host_at ops zero c j a \<Longrightarrow> host_at ops zero c' j a" for j a
    using assms(2,3) by (auto simp: host_at_def same_hosts_def intro: less_le_trans)
  then show ?thesis using assms(1) unfolding hosted_def by blast
qed

text \<open>What \<^verbatim>\<open>StartServer\<close> does, step by step: new ends, a new persister, the peer and the server.\<close>

definition with_server ::
    "('v, 's) server_ops \<Rightarrow> 'v \<Rightarrow> string list \<Rightarrow> nat \<Rightarrow> Persister \<Rightarrow> ('v, 's) cluster \<Rightarrow> ('v, 's) cluster \<Rightarrow> ('v, 's) cluster" where
  "with_server ops zero names i p c c1 =
     c1\<lparr>kc_persisters := (kc_persisters c)(kc_brk c := p), kc_saved := (kc_saved c)[i := Some (kc_brk c)],
        kc_brk := kc_brk c + 3, kc_servers := (kc_servers c)[i := Some (kc_brk c + 2)],
        kc_net := AddServer (ServerName i) (kc_brk c + 2) ((kc_net c1)
      \<lparr>nw_objs := (nw_objs (kc_net c))
          (kc_brk c + 1 := RaftObj (Raft_Make (map EndName (take (kc_n c) names)) i ((kc_persisters c)(kc_brk c := p)) (kc_brk c)),
           kc_brk c + 2 := ServerObj (so_make ops i (kc_maxraftstate c) (kc_brk c + 1))),
        nw_store := (nw_store (kc_net c))(kc_brk c + 2 := host ops zero (kc_brk c + 2) (kc_brk c + 1))\<rparr>)\<rparr>"

lemma StartServer_result:
  assumes s: "StartServer ops zero names i c = Inr c'"
  obtains rows c1 p where "only_ends (c\<lparr>kc_endnames := rows\<rparr>) c1" "i < length (kc_saved c)" "i < length (kc_servers c)"
    "p = (case kc_saved c ! i of Some a \<Rightarrow> Persister_Copy (kc_persisters c a) | None \<Rightarrow> MakePersister)"
    "c' = with_server ops zero names i p c c1"
proof -
  obtain rows c1 where rows: "slice_set (kc_endnames c) i (Some (take (kc_n c) names)) = Inr rows"
    and c1: "foldE (kc_make_end names) [0..<kc_n c] (c\<lparr>kc_endnames := rows\<rparr>) = Inr c1"
    using s by (auto simp: StartServer_def Let_def elim!: bindE_InrE)
  have o: "only_ends (c\<lparr>kc_endnames := rows\<rparr>) c1" using only_ends_foldE [OF c1] kc_make_end_only by blast
  define net where "net = kc_net c1"
  have n: "c1 = c\<lparr>kc_endnames := rows, kc_net := net\<rparr>" "nw_objs net = nw_objs (kc_net c)" "nw_store net = nw_store (kc_net c)"
    using o by (simp_all add: only_ends_def same_hosts_def net_def)
  define p where "p = (case kc_saved c ! i of Some a \<Rightarrow> Persister_Copy (kc_persisters c a) | None \<Rightarrow> MakePersister)"
  have len: "i < length (kc_saved c)" "i < length (kc_servers c)"
    using s rows c1 n(1) by (auto simp: StartServer_def Let_def kc_save_def slice_get_def slice_set_def elim!: bindE_InrE split: if_splits)
  show thesis
  proof (rule that [OF o len p_def])
    have "StartServer ops zero names i c = Inr (with_server ops zero names i p c c1)"
      using len n(2,3)
      by (simp add: StartServer_def rows c1 Let_def) (simp add: n(1) kc_save_def host_def p_def with_server_def Let_def numeral_3_eq_3 cong: option.case_cong)
    then show "c' = with_server ops zero names i p c c1" using s by simp
  qed
qed

lemma StartServer_hosted:
  assumes h: "hosted ops zero i c" and s: "StartServer ops zero names i c = Inr c'"
  shows "hosted ops zero (Suc i) c'" "nw_reliable (kc_net c') = nw_reliable (kc_net c)"
    "nw_longReordering (kc_net c') = nw_longReordering (kc_net c)" "nw_done (kc_net c') = nw_done (kc_net c)"
proof -
  from StartServer_result [OF s] obtain rows c1 p where o: "only_ends (c\<lparr>kc_endnames := rows\<rparr>) c1"
    and c': "c' = with_server ops zero names i p c c1" .
  note sh = only_endsD [OF o, unfolded same_hosts_def, simplified]
  have "\<exists>a. host_at ops zero c' j a" if j: "j < Suc i" for j
  proof (cases "j = i")
    case True
    then have "host_at ops zero c' j (kc_brk c + 2)" by (auto simp: c' with_server_def AddServer_def host_at_def)
    then show ?thesis ..
  next
    case False
    then obtain a where "host_at ops zero c j a" using h j by (auto simp: hosted_def less_Suc_eq)
    then obtain r rf s where a: "a < kc_brk c" "nw_servers (kc_net c) (ServerName j) = Some a" "r < kc_brk c" "nw_store (kc_net c) a = host ops zero a r"
        "nw_objs (kc_net c) r = RaftObj rf" "nw_objs (kc_net c) a = ServerObj s"
      unfolding host_at_def by blast
    have "nw_servers (kc_net c') (ServerName j) = Some a" "nw_store (kc_net c') a = host ops zero a r" "nw_objs (kc_net c') r = RaftObj rf"
        "nw_objs (kc_net c') a = ServerObj s" "kc_brk c < kc_brk c'"
      using False sh a by (simp_all add: c' with_server_def AddServer_def)
    then have "host_at ops zero c' j a" using a(1,3) unfolding host_at_def by (meson less_trans)
    then show ?thesis ..
  qed
  then show "hosted ops zero (Suc i) c'" unfolding hosted_def by blast
  show "nw_reliable (kc_net c') = nw_reliable (kc_net c)"
    "nw_longReordering (kc_net c') = nw_longReordering (kc_net c)" "nw_done (kc_net c') = nw_done (kc_net c)"
    using sh by (simp_all add: c' with_server_def AddServer_def)
qed

text \<open>A new configuration: \<open>kc_make_config_ok\<close> with the hosts of all servers.\<close>

definition calm :: "('n, 'v, 'r) network \<Rightarrow> bool" where
  "calm net \<longleftrightarrow> nw_reliable net \<and> \<not> nw_longReordering net \<and> \<not> nw_done net"

lemma calm_same_hosts: "same_hosts net net' \<Longrightarrow> calm net' = calm net"
  by (simp add: calm_def same_hosts_def)

lemma start_all_hosted:
  assumes "foldE (\<lambda>i. StartServer ops zero (draws i) i) [0..<k] c = Inr c'" "hosted ops zero 0 c"
  shows "hosted ops zero k c' \<and> calm (kc_net c') = calm (kc_net c)"
  using assms(1)
proof (induction k arbitrary: c')
  case 0
  then show ?case using assms(2) by simp
next
  case (Suc k)
  then obtain c1 where c1: "foldE (\<lambda>i. StartServer ops zero (draws i) i) [0..<k] c = Inr c1" "StartServer ops zero (draws k) k c1 = Inr c'"
    by (auto simp: foldE_append elim!: bindE_InrE)
  then show ?case using Suc.IH [OF c1(1)] StartServer_hosted [of ops zero k c1 "draws k" c'] by (simp add: calm_def)
qed

lemma new_config_steps:
  assumes "kc_make_config ops zero draws n unreliable maxraftstate net = Inr c" "fresh_draws draws n" "nw_ends net = {}"
  obtains c1 sw where "foldE (\<lambda>i. StartServer ops zero (draws i) i) [0..<n] (empty_cluster n maxraftstate net) = Inr c1"
    "servers_up draws n n c1" "c = (switched c1 sw)\<lparr>kc_net := Reliable (\<not> unreliable) (kc_net (switched c1 sw))\<rparr>"
proof -
  obtain c1 where c1: "foldE (\<lambda>i. StartServer ops zero (draws i) i) [0..<n] (empty_cluster n maxraftstate net) = Inr c1" "servers_up draws n n c1"
    using start_all [OF assms(2,3), of n] by blast
  obtain sw where sw: "ConnectAll c1 = Inr (switched c1 sw)" using ConnectAll_eq [OF started_wired(1) [OF c1(2) assms(2)]] by blast
  show thesis using that [OF c1, of sw] assms(1) c1(1) sw by (simp add: kc_make_config_def)
qed

lemma switched_nw_ends: "nw_ends (kc_net (switched c sw)) = nw_ends (kc_net c)"
proof -
  have "nw_ends (fold (\<lambda>(e, b). Enable (EndName e) b) sw net) = nw_ends net" for net :: "(name, 'a, 'b object) network"
    by (induction sw arbitrary: net) (auto simp: Enable_def)
  then show ?thesis by (simp add: switched_def)
qed

lemma new_config_ends:
  assumes "kc_make_config ops zero draws n unreliable maxraftstate net = Inr c" "fresh_draws draws n" "nw_ends net = {}"
  shows "nw_ends (kc_net c) = EndName ` (\<Union>j < n. set (draws j))"
proof -
  from new_config_steps [OF assms] obtain c1 sw where "servers_up draws n n c1"
    "c = (switched c1 sw)\<lparr>kc_net := Reliable (\<not> unreliable) (kc_net (switched c1 sw))\<rparr>" .
  then show ?thesis by (simp add: Reliable_def switched_nw_ends servers_up_def)
qed

lemma new_config_hosted:
  assumes "kc_make_config ops zero draws n unreliable maxraftstate net = Inr c" "fresh_draws draws n" "nw_ends net = {}"
  shows "hosted ops zero n c" "\<not> unreliable \<Longrightarrow> calm net \<Longrightarrow> calm (kc_net c)"
proof -
  from new_config_steps [OF assms(1-3)] obtain c1 sw
    where c1: "foldE (\<lambda>i. StartServer ops zero (draws i) i) [0..<n] (empty_cluster n maxraftstate net) = Inr c1"
      and c: "c = (switched c1 sw)\<lparr>kc_net := Reliable (\<not> unreliable) (kc_net (switched c1 sw))\<rparr>" .
  have "hosted ops zero n c1 \<and> calm (kc_net c1) = calm (kc_net (empty_cluster n maxraftstate net))"
    by (rule start_all_hosted [OF c1]) (simp add: hosted_def)
  then have h: "hosted ops zero n c1" "calm (kc_net c1) = calm net" by (simp_all add: empty_cluster_def)
  have o: "only_ends c1 (switched c1 sw)" by (rule switched_only)
  have "calm (kc_net (switched c1 sw)) = calm net" using h(2) calm_same_hosts [OF only_endsD [OF o]] by blast
  then show "\<not> unreliable \<Longrightarrow> calm net \<Longrightarrow> calm (kc_net c)" by (simp add: c Reliable_def calm_def)
  have "hosted ops zero n (switched c1 sw)" using h hosted_only_ends [OF o] by blast
  then show "hosted ops zero n c" by (simp add: c Reliable_def hosted_def host_at_def)
qed

section \<open>Clients\<close>

lemma make_ends_connected:
  assumes "foldE (kc_make_end names) [0..<m] c = Inr c'" "m \<le> length names" "distinct names" "j < m"
  shows "nw_connections (kc_net c') (EndName (names ! j)) = Some (ServerName j) \<and> \<not> nw_enabled (kc_net c') (EndName (names ! j))"
  using assms
proof (induction m arbitrary: c')
  case (Suc m)
  then obtain c1 where c1: "foldE (kc_make_end names) [0..<m] c = Inr c1" "kc_make_end names m c1 = Inr c'"
    by (auto simp: foldE_append elim!: bindE_InrE)
  from c1(2) Suc.prems(2) obtain net where net: "MakeEnd (EndName (names ! m)) (kc_net c1) = Inr net"
      "kc_net c' = Connect (EndName (names ! m)) (ServerName m) net"
    by (auto simp: kc_make_end_def elim!: bindE_InrE)
  show ?case
  proof (cases "j = m")
    case True
    then show ?thesis using net by (auto simp: MakeEnd_def Connect_def split: if_splits)
  next
    case False
    then have "names ! j \<noteq> names ! m" using Suc.prems by (simp add: nth_eq_iff_index_eq)
    then show ?thesis using Suc.IH [OF c1(1)] Suc.prems False net
      by (auto simp: MakeEnd_def Connect_def less_Suc_eq split: if_splits)
  qed
qed simp

lemma enable_client_ends:
  assumes "\<forall>t \<in> set to. t < length names"
  shows "foldE (\<lambda>t c. bindE (slice_get names t) (\<lambda>s. Inr (kc_enable True s c))) to c =
    Inr (switched c (map (\<lambda>t. (names ! t, True)) to))"
  by (rule foldE_switched_start) (use assms in \<open>simp add: kc_enable_switched\<close>)

lemma makeClient_reaches:
  fixes ops :: "('v, 's) server_ops"
  assumes h: "hosted ops zero (kc_n c) c" and cm: "calm (kc_net c)"
    and nm: "length names = kc_n c" "distinct names" "EndName ` set names \<inter> nw_ends (kc_net c) = {}"
    and to: "set to \<subseteq> {..<kc_n c}"
  obtains a c' where "makeClient names draw to c = Inr (a, MakeClerk (random_handles draw (map EndName names)), c')"
    "kc_clerks c' a = Some names" "hosted ops zero (kc_n c) c'" "calm (kc_net c')"
    "\<And>j. j < kc_n c \<Longrightarrow> nw_connections (kc_net c') (EndName (names ! j)) = Some (ServerName j)"
    "\<And>j. j < kc_n c \<Longrightarrow> nw_enabled (kc_net c') (EndName (names ! j)) = (j \<in> set to)"
proof -
  obtain net where net: "foldE (kc_make_end names) [0..<kc_n c] c = Inr (c\<lparr>kc_net := net\<rparr>)"
    using make_ends_ok [OF nm(2,3), of "kc_n c"] nm(1) by auto
  note con = make_ends_connected [OF net _ nm(2), simplified]
  have sh: "same_hosts (kc_net c) net" using only_ends_foldE [OF net kc_make_end_only] by simp
  let ?c1 = "c\<lparr>kc_net := net, kc_clerks := (kc_clerks c)(kc_brk c \<mapsto> names), kc_nextClientId := kc_nextClientId c + 1,
      kc_brk := Suc (kc_brk c)\<rparr>"
  let ?sw = "map (\<lambda>t. (names ! t, True)) to"
  have "ConnectClientUnlocked (kc_brk c) to ?c1 = Inr (switched ?c1 ?sw)"
    unfolding ConnectClientUnlocked_def clerk_names_def using enable_client_ends [of to names ?c1] to nm(1) by (auto simp: Let_def)
  then have eq: "makeClient names draw to c = Inr (kc_brk c, MakeClerk (random_handles draw (map EndName names)), switched ?c1 ?sw)"
    using net nm(1) by (simp add: makeClient_def Let_def)
  have o: "only_ends ?c1 (switched ?c1 ?sw)" by (rule switched_only)
  have "hosted ops zero (kc_n c) ?c1"
    by (rule hosted_mono [OF h]) (simp_all add: sh)
  then have h': "hosted ops zero (kc_n c) (switched ?c1 ?sw)" using hosted_only_ends [OF o] by blast
  have "calm net" using cm calm_same_hosts [OF sh] by blast
  then have "calm (kc_net ?c1)" by simp
  then have c': "calm (kc_net (switched ?c1 ?sw))" unfolding calm_same_hosts [OF only_endsD [OF o]] .
  have conn: "nw_connections (fold (\<lambda>(e, b). Enable (EndName e) b) sw net) = nw_connections net" for sw and net :: "(name, 'v, 's object) network"
    by (induction sw arbitrary: net) (auto simp: Enable_def)
  show thesis
  proof (rule that [OF eq _ h' c'])
    fix j assume j: "j < kc_n c"
    show "nw_connections (kc_net (switched ?c1 ?sw)) (EndName (names ! j)) = Some (ServerName j)"
      using con [of j] j nm(1) by (simp add: switched_def conn)
    have inj: "names ! t = names ! j \<longleftrightarrow> t = j" if "t \<in> set to" for t
      using that to j nm by (auto simp: nth_eq_iff_index_eq)
    show "nw_enabled (kc_net (switched ?c1 ?sw)) (EndName (names ! j)) = (j \<in> set to)"
    proof (cases "j \<in> set to")
      case True
      then have "(names ! j, True) \<in> set ?sw" by auto
      moreover have "\<forall>b. (names ! j, b) \<in> set ?sw \<longrightarrow> b = True" by auto
      ultimately have "nw_enabled (fold (\<lambda>(e, b). Enable (EndName e) b) ?sw net) (EndName (names ! j)) = True" by (rule fold_enable)
      then show ?thesis using True by (simp add: switched_def)
    next
      case False
      then have "\<forall>t \<in> set to. names ! j \<noteq> names ! t" using inj by metis
      then have "names ! j \<notin> fst ` set ?sw" by auto
      then show ?thesis using False con [of j] j nm(1) by (simp add: switched_def fold_enable_other)
    qed
  qed (simp add: switched_def)
qed

section \<open>Calls over the network\<close>

text \<open>
  A call of a clerk whose steps are not interleaved with others: the request is delivered, executed and answered, or refused at the
  start.  Arguments and replies are values \<open>'v\<close> of the network, by \<open>enc\<close> and \<open>dec\<close>; the clerk declares a new reply variable, which
  holds the zero value, for every call.
\<close>

definition run_call :: "'v codec \<Rightarrow> ('n, 'v) call \<Rightarrow> ('n, 'v, 'r) network \<Rightarrow> (('n, 'v) call \<times> ('n, 'v, 'r) network) result option" where
  "run_call c k net =
     (case call_run c [ReadInfo, Deliver 0, Execute, TakeReply, Decide 0 0] k net of
        None \<Rightarrow> call_run c [ReadInfo, Send] k net | r \<Rightarrow> r)"

definition net_call ::
    "'v codec \<Rightarrow> ('a \<Rightarrow> 'v) \<Rightarrow> ('v \<Rightarrow> 'b) \<Rightarrow> 'v \<Rightarrow> ('n, 'a, 'b, ('n, 'v, 'r) network) calls" where
  "net_call c enc dec zero e meth args net =
     (case Call_send False c e meth zero (enc args) net of
        Inr (Some k, net1) \<Rightarrow>
          (case run_call c k net1 of
             Some (Inr (k, net2)) \<Rightarrow>
               (case cl_phase k of
                  Replied rep \<Rightarrow> (case Call_finish c rep zero of Inr (True, v) \<Rightarrow> (Some (dec v), net2) | _ \<Rightarrow> (None, net2))
                | _ \<Rightarrow> (None, net2))
           | _ \<Rightarrow> (None, net1))
      | Inr (None, net1) \<Rightarrow> (None, net1)
      | Inl _ \<Rightarrow> (None, net))"

text \<open>Two networks that differ in the numbers of messages and bytes only.\<close>

definition same_but_counts :: "('n, 'v, 'r) network \<Rightarrow> ('n, 'v, 'r) network \<Rightarrow> bool" where
  "same_but_counts net net' \<longleftrightarrow>
     same_hosts net net' \<and> nw_enabled net' = nw_enabled net \<and> nw_connections net' = nw_connections net"

lemma net_call_disabled:
  assumes "gob_encode c (enc args) = Some b" "\<not> nw_enabled net e" "\<not> nw_done net"
  shows "\<exists>net'. net_call c enc dec zero e meth args net = (None, net') \<and> same_but_counts net net'"
proof -
  let ?net1 = "add_bytes b (net\<lparr>nw_count := nw_count net + 1\<rparr>)"
  let ?k = "\<lparr>cl_req = \<lparr>rq_endname = e, rq_svcMeth = meth, rq_zero = zero, rq_args = b\<rparr>, cl_phase = Arrived, cl_handler = Idle\<rparr>"
  have send: "Call_send False c e meth zero (enc args) net = Inr (Some ?k, ?net1)" using assms by (simp add: Call_send_def)
  let ?k1 = "\<lparr>cl_req = \<lparr>rq_endname = e, rq_svcMeth = meth, rq_zero = zero, rq_args = b\<rparr>, cl_phase = Postponed failure, cl_handler = Idle\<rparr>"
  have steps: "call_step c ReadInfo ?k ?net1 = Some (Inr (?k1, ?net1))" "call_step c (Deliver 0) ?k1 ?net1 = None"
      "call_step c Send ?k1 ?net1 = Some (Inr (?k1\<lparr>cl_phase := Replied failure\<rparr>, ?net1))"
    using assms(2) by (simp_all add: call_step_def readEndnameInfo_def add_bytes_def Let_def failure_def)
  have "run_call c ?k ?net1 = Some (Inr (?k1\<lparr>cl_phase := Replied failure\<rparr>, ?net1))"
    unfolding run_call_def call_run.simps steps by (simp add: steps)
  then show ?thesis
    by (simp add: net_call_def send Call_finish_def failure_def same_but_counts_def same_hosts_def add_bytes_def)
qed

lemma net_call_reaches:
  assumes "gob_transfer c (enc args) zero = Some args'" "gob_transfer c replyv zero = Some reply'"
    and "reachable_server net e sn s" "calm net"
    and "serves (nw_store net s) meth svc m" "mt_Func m (nw_objs net (svc_rcvr svc)) args' = Inr (replyv, rcvr)"
  shows "\<exists>net'. net_call c enc dec zero e meth args net = (Some (dec reply'), net') \<and>
    nw_objs net' = (nw_objs net)(svc_rcvr svc := rcvr)"
  using reliable_call [OF assms(1-3) _ _ _ assms(5,6), of False 0 0 0] assms(4)
  by (auto simp: net_call_def run_call_def calm_def)

section \<open>A query of a new shard controller\<close>

lemma ctrler_serves:
  "\<exists>svc. serves (host (ctrler_ops zero) zero a r) ''ShardCtrler.Query'' svc (handler_method ''Query'' (\<lambda>sc args. ShardCtrler_Query sc args zero)) \<and>
    svc_rcvr svc = a"
proof -
  have sp: "split_svcMeth ''ShardCtrler.Query'' = Inr (''ShardCtrler'', ''Query'')" by code_simp
  have "serves (host (ctrler_ops zero) zero a r) ''ShardCtrler.Query'' (MakeService ''ShardCtrler'' a (so_methods (ctrler_ops zero)))
      (handler_method ''Query'' (\<lambda>sc args. ShardCtrler_Query sc args zero))"
    by (simp add: serves_def sp host_def AddService_def MakeServer_def MakeService_def ctrler_ops_def handler_method_def plain_method_def)
  moreover have "svc_rcvr (MakeService ''ShardCtrler'' a (so_methods (ctrler_ops zero))) = a" by (simp add: MakeService_def)
  ultimately show ?thesis by blast
qed

text \<open>A clerk's ends lead to servers; those in \<open>up\<close> are enabled.\<close>

definition wired_clerk :: "'v \<Rightarrow> ('v, ShardCtrler) cluster \<Rightarrow> name set \<Rightarrow> (name, 'v, ShardCtrler object) network \<Rightarrow> name list \<Rightarrow> bool" where
  "wired_clerk zero c up net es \<longleftrightarrow>
     same_hosts (kc_net c) net \<and> calm net \<and>
     (\<forall>e \<in> set es. nw_enabled net e = (e \<in> up) \<and> (\<exists>j a. nw_connections net e = Some (ServerName j) \<and> host_at (ctrler_ops zero) zero c j a))"

lemma try_wired:
  assumes "gob_keeps_zero cd zero" "gob_transfer cd (enc args) zero \<noteq> None" "wired_clerk zero c up net es" "set es \<inter> up \<noteq> {}"
    "\<not> cr_WrongLeader (dec zero)"
  shows "\<exists>net'. try_ctrlers (\<lambda>srv. net_call cd enc dec zero srv ''ShardCtrler.Query'' args) es net = (Some (dec zero), net') \<and>
    nw_objs net' = nw_objs net"
  using assms(3,4)
proof (induction es arbitrary: net)
  case (Cons e es)
  obtain b args' where b: "gob_encode cd (enc args) = Some b" "gob_transfer cd (enc args) zero = Some args'"
    using assms(2) by (auto simp: gob_transfer_some)
  have w: "same_hosts (kc_net c) net" "calm net" "nw_enabled net e = (e \<in> up)" using Cons.prems(1) by (auto simp: wired_clerk_def)
  obtain j a where ja: "nw_connections net e = Some (ServerName j)" "host_at (ctrler_ops zero) zero c j a"
    using Cons.prems(1) by (auto simp: wired_clerk_def)
  show ?case
  proof (cases "e \<in> up")
    case True
    obtain r s where h: "nw_servers net (ServerName j) = Some a" "nw_store net a = host (ctrler_ops zero) zero a r" "nw_objs net a = ServerObj s"
      using ja(2) w(1) by (auto simp: host_at_def same_hosts_def)
    have reach: "reachable_server net e (ServerName j) a" using True w(3) ja(1) h(1) by (simp add: reachable_server_def)
    obtain svc where svc: "serves (nw_store net a) ''ShardCtrler.Query'' svc (handler_method ''Query'' (\<lambda>sc args. ShardCtrler_Query sc args zero))"
        "svc_rcvr svc = a" using ctrler_serves h(2) by metis
    have "mt_Func (handler_method ''Query'' (\<lambda>sc args. ShardCtrler_Query sc args zero)) (nw_objs net (svc_rcvr svc)) args' = Inr (zero, ServerObj s)"
      by (simp add: handler_method_def svc(2) h(3) ShardCtrler_Query_def)
    from net_call_reaches [where enc = enc and args = args, OF b(2) assms(1) [unfolded gob_keeps_zero_def] reach w(2) svc(1) this, of dec] obtain net'
      where "net_call cd enc dec zero e ''ShardCtrler.Query'' args net = (Some (dec zero), net')" "nw_objs net' = (nw_objs net)(a := ServerObj s)"
      using svc(2) by auto
    then show ?thesis using assms(5) h(3) by (simp add: fun_upd_idem)
  next
    case False
    obtain net1 where n1: "net_call cd enc dec zero e ''ShardCtrler.Query'' args net = (None, net1)" "same_but_counts net net1"
      using net_call_disabled [of cd enc args b net e dec zero] b w False by (auto simp: calm_def)
    have "same_hosts (kc_net c) net1" using n1(2) same_hosts_trans [OF w(1)] by (simp add: same_but_counts_def)
    moreover have "calm net1" using n1(2) w(2) calm_same_hosts unfolding same_but_counts_def by blast
    ultimately have "wired_clerk zero c up net1 es"
      using Cons.prems(1) n1(2) unfolding wired_clerk_def same_but_counts_def by simp
    moreover have "set es \<inter> up \<noteq> {}" using Cons.prems(2) False by auto
    ultimately obtain net' where "try_ctrlers (\<lambda>srv. net_call cd enc dec zero srv ''ShardCtrler.Query'' args) es net1 = (Some (dec zero), net')"
      "nw_objs net' = nw_objs net1" using Cons.IH by blast
    then show ?thesis using n1 by (simp add: same_but_counts_def same_hosts_def)
  qed
qed simp


section \<open>What the servers of a new configuration of kvraft answer\<close>

lemma split_svcMeth_join:
  assumes "split_svcMeth s = Inr (sn, mn)"
  shows "s = sn @ CHR ''.'' # mn"
proof (cases "CHR ''.'' \<in> set s")
  case True
  then obtain a b where ab: "s = a @ CHR ''.'' # b" "CHR ''.'' \<notin> set b" using split_list_last by metis
  then show ?thesis using split_svcMeth_dot [OF ab(2), of a] assms by simp
next
  case False
  then show ?thesis using split_svcMeth_no_dot [OF False] assms by simp
qed

lemma kv_host_methods:
  "sv_services (host (kv_ops zero) zero a r) =
     [''KVServer'' \<mapsto> MakeService ''KVServer'' a (so_methods (kv_ops zero)), ''Raft'' \<mapsto> MakeService ''Raft'' r (raft_service_methods zero)]"
  "svc_methods (MakeService ''KVServer'' a (so_methods (kv_ops zero))) =
     [''Get'' \<mapsto> handler_method ''Get'' (\<lambda>kv args. KVServer_Get kv args zero),
      ''PutAppend'' \<mapsto> handler_method ''PutAppend'' (\<lambda>kv args. KVServer_PutAppend kv args zero)]"
  "svc_methods (MakeService ''Raft'' r (raft_service_methods zero)) =
     [''RequestVote'' \<mapsto> (raft_service_methods zero ! 3 :: ('v, 's object) rpc_method)]"
  "svc_rcvr (MakeService nm b ms) = b"
  by (simp_all add: host_def AddService_def MakeServer_def MakeService_def kv_ops_def handler_method_def plain_method_def
      raft_service_methods_def raft_methods_def Let_def)

lemma kv_host_serves:
  "(\<exists>svc m. serves (host (kv_ops zero) zero a r) s svc m) \<longleftrightarrow> s \<in> {''KVServer.Get'', ''KVServer.PutAppend'', ''Raft.RequestVote''}"
proof
  assume "\<exists>svc m. serves (host (kv_ops zero) zero a r) s svc m"
  then obtain sn mn svc m where sp: "split_svcMeth s = Inr (sn, mn)" and svc: "sv_services (host (kv_ops zero) zero a r) sn = Some svc"
    and m: "svc_methods svc mn = Some m" unfolding serves_def by blast
  have "(sn, mn) \<in> {(''KVServer'', ''Get''), (''KVServer'', ''PutAppend''), (''Raft'', ''RequestVote'')}"
    using svc m unfolding kv_host_methods(1) by (simp split: if_splits) (auto simp: kv_host_methods split: if_splits)
  then show "s \<in> {''KVServer.Get'', ''KVServer.PutAppend'', ''Raft.RequestVote''}" using split_svcMeth_join [OF sp] by auto
next
  assume "s \<in> {''KVServer.Get'', ''KVServer.PutAppend'', ''Raft.RequestVote''}"
  moreover have "split_svcMeth ''KVServer.Get'' = Inr (''KVServer'', ''Get'')"
    "split_svcMeth ''KVServer.PutAppend'' = Inr (''KVServer'', ''PutAppend'')"
    "split_svcMeth ''Raft.RequestVote'' = Inr (''Raft'', ''RequestVote'')" by code_simp+
  ultimately consider "split_svcMeth s = Inr (''KVServer'', ''Get'')" | "split_svcMeth s = Inr (''KVServer'', ''PutAppend'')"
    | "split_svcMeth s = Inr (''Raft'', ''RequestVote'')" by auto
  then show "\<exists>svc m. serves (host (kv_ops zero) zero a r) s svc m"
    unfolding serves_def by cases (simp_all add: kv_host_methods)
qed

text \<open>A request is dispatched to a method that is served, or the dispatch ends the program.\<close>

lemma dispatch_served:
  "(\<exists>x. Server_dispatch cd objs rs req = Inr x) \<longleftrightarrow>
     (\<exists>svc m args y. serves rs (rq_svcMeth req) svc m \<and>
        args = (case gob_decode cd (rq_args req) (rq_zero req) of Some v \<Rightarrow> v | None \<Rightarrow> rq_zero req) \<and>
        mt_Func m (objs (svc_rcvr svc)) args = Inr y)"
  by (cases "split_svcMeth (rq_svcMeth req)")
    (auto simp: serves_def Server_dispatch_def Service_dispatch_def Let_def split: option.splits elim!: bindE_InrE)

text \<open>The methods of the outline return, for a receiver of the right type.\<close>

lemma kv_host_returns:
  assumes "serves (host (kv_ops zero) zero a r) s svc m" "objs a = ServerObj kv" "objs r = RaftObj rf"
  shows "\<exists>y. mt_Func m (objs (svc_rcvr svc)) args = Inr y"
proof -
  obtain sn mn where sn: "sv_services (host (kv_ops zero) zero a r) sn = Some svc" and mn: "svc_methods svc mn = Some m"
    using assms(1) unfolding serves_def by blast
  from sn consider "svc = MakeService ''KVServer'' a (so_methods (kv_ops zero))" | "svc = MakeService ''Raft'' r (raft_service_methods zero)"
    unfolding kv_host_methods(1) by (auto split: if_splits)
  then show ?thesis
  proof cases
    case 1
    then show ?thesis using mn assms(2)
      by (auto simp: kv_host_methods handler_method_def KVServer_Get_def KVServer_PutAppend_def split: if_splits)
  next
    case 2
    then have "m = raft_service_methods zero ! 3" "svc_rcvr svc = r" using mn by (auto simp: kv_host_methods split: if_splits)
    then show ?thesis using assms(3) by (simp add: raft_service_methods_def raft_methods_def RequestVote_def Let_def)
  qed
qed

lemma kv_config_dispatch:
  assumes "kc_make_config (kv_ops zero) zero draws n unreliable maxraftstate net = Inr c" "fresh_draws draws n" "nw_ends net = {}" "j < n"
  shows "\<exists>a. nw_servers (kc_net c) (ServerName j) = Some a \<and>
    (\<forall>req :: ('m, 'v) reqMsg. (\<exists>x. Server_dispatch cd (nw_objs (kc_net c)) (nw_store (kc_net c) a) req = Inr x) \<longleftrightarrow>
       rq_svcMeth req \<in> {''KVServer.Get'', ''KVServer.PutAppend'', ''Raft.RequestVote''})"
proof -
  obtain a where "host_at (kv_ops zero) zero c j a" using new_config_hosted(1) [OF assms(1-3)] assms(4) unfolding hosted_def by blast
  then obtain r kv rf where a: "nw_servers (kc_net c) (ServerName j) = Some a" "nw_store (kc_net c) a = host (kv_ops zero) zero a r"
      "nw_objs (kc_net c) a = ServerObj kv" "nw_objs (kc_net c) r = RaftObj rf" unfolding host_at_def by blast
  have "(\<exists>x. Server_dispatch cd (nw_objs (kc_net c)) (nw_store (kc_net c) a) req = Inr x) \<longleftrightarrow>
      (\<exists>svc m. serves (host (kv_ops zero) zero a r) (rq_svcMeth req) svc m)" for req :: "('m, 'v) reqMsg"
    unfolding dispatch_served a(2) using kv_host_returns [where objs = "nw_objs (kc_net c)", OF _ a(3,4)] by metis
  then show ?thesis using a(1) unfolding kv_host_serves by metis
qed

end
