(* ===== verification/Cluster_Restart.thy ===== *)
theory Cluster_Restart
  imports Cluster_Service
begin

text \<open>
  Shutting a server down and starting it again.  What the configuration needs of a type of server is the interface
  \<open>server_type\<close>; it is interpreted on the servers of \<^verbatim>\<open>kvraft\<close> and of \<^verbatim>\<open>shardctrler\<close>.
\<close>

section \<open>Running servers\<close>

definition peer_of :: "('v, 's) server_ops \<Rightarrow> ('v, 's) cluster \<Rightarrow> nat \<Rightarrow> name raft option" where
  "peer_of ops c a =
     (case nw_objs (kc_net c) a of
        ServerObj s \<Rightarrow> (case nw_objs (kc_net c) (so_rf ops s) of RaftObj rf \<Rightarrow> Some rf | ServerObj _ \<Rightarrow> None)
      | RaftObj _ \<Rightarrow> None)"

text \<open>Server \<open>j\<close> is up at the address \<open>a\<close>, and its peer uses the persister \<open>p\<close> that is saved for it.\<close>

definition running :: "('v, 's) server_ops \<Rightarrow> ('v, 's) cluster \<Rightarrow> nat \<Rightarrow> nat \<Rightarrow> nat \<Rightarrow> bool" where
  "running ops c j a p \<longleftrightarrow>
     kc_servers c ! j = Some a \<and> kc_saved c ! j = Some p \<and> a < kc_brk c \<and> p < kc_brk c \<and>
     (\<exists>s rf. nw_objs (kc_net c) a = ServerObj s \<and> so_rf ops s < kc_brk c \<and> nw_objs (kc_net c) (so_rf ops s) = RaftObj rf \<and>
        rf_persister rf = p)"

definition all_running :: "('v, 's) server_ops \<Rightarrow> nat \<Rightarrow> ('v, 's) cluster \<Rightarrow> bool" where
  "all_running ops i c \<longleftrightarrow> (\<forall>j < i. \<exists>a p. running ops c j a p)"

lemma running_only_ends:
  assumes "only_ends c c'"
  shows "running ops c' = running ops c"
proof -
  define net where "net = kc_net c'"
  have "c' = c\<lparr>kc_net := net\<rparr>" "nw_objs net = nw_objs (kc_net c)" using assms by (simp_all add: net_def only_ends_def same_hosts_def)
  then show ?thesis by (simp add: fun_eq_iff running_def)
qed

lemma StartServer_succeeds:
  assumes "i < length (kc_endnames c)" "i < length (kc_saved c)" "i < length (kc_servers c)"
    and "length names = kc_n c" "distinct names" "EndName ` set names \<inter> nw_ends (kc_net c) = {}"
  shows "\<exists>c'. StartServer ops zero names i c = Inr c'"
proof -
  let ?c = "c\<lparr>kc_endnames := (kc_endnames c)[i := Some names]\<rparr>"
  obtain net where "foldE (kc_make_end names) [0..<kc_n c] ?c = Inr (?c\<lparr>kc_net := net\<rparr>)"
    using make_ends_ok [OF assms(5), of ?c "kc_n c"] assms(4,6) by auto
  then show ?thesis using assms(1-4) by (simp add: StartServer_def Let_def kc_save_def)
qed

lemma Persister_Copy_same: "Persister_Copy ps = ps"
  by (simp add: Persister_Copy_def MakePersister_def)

locale server_type =
  fixes ops :: "('v, 's) server_ops"
  assumes rf_make: "so_rf ops (so_make ops i m r) = r" and rf_Kill: "so_rf ops (so_Kill ops s) = so_rf ops s"
begin

lemma running_peer: "running ops c j a p \<Longrightarrow> \<exists>rf. peer_of ops c a = Some rf \<and> rf_persister rf = p"
  by (auto simp: running_def peer_of_def)

lemma StartServer_running:
  assumes "StartServer ops zero names i c = Inr c'"
  shows "running ops c' i (kc_brk c + 2) (kc_brk c)" "j \<noteq> i \<Longrightarrow> running ops c j a p \<Longrightarrow> running ops c' j a p"
proof -
  from StartServer_result [OF assms] obtain rows c1 q where len: "i < length (kc_saved c)" "i < length (kc_servers c)"
    and c': "c' = with_server ops zero names i q c c1" .
  show "running ops c' i (kc_brk c + 2) (kc_brk c)"
    using len by (simp add: running_def c' with_server_def AddServer_def rf_make)
  show "running ops c' j a p" if j: "j \<noteq> i" "running ops c j a p"
  proof -
    obtain s rf where "nw_objs (kc_net c) a = ServerObj s" "so_rf ops s < kc_brk c" "nw_objs (kc_net c) (so_rf ops s) = RaftObj rf"
        "rf_persister rf = p" "a < kc_brk c" using j(2) by (auto simp: running_def)
    then have "nw_objs (kc_net c') a = ServerObj s \<and> so_rf ops s < kc_brk c' \<and> nw_objs (kc_net c') (so_rf ops s) = RaftObj rf \<and> rf_persister rf = p"
      by (simp add: c' with_server_def AddServer_def)
    moreover have "kc_servers c' ! j = Some a" "kc_saved c' ! j = Some p" "a < kc_brk c'" "p < kc_brk c'"
      using j by (simp_all add: running_def c' with_server_def)
    ultimately show ?thesis unfolding running_def by blast
  qed
qed

lemma start_all_running:
  assumes "foldE (\<lambda>i. StartServer ops zero (draws i) i) [0..<k] c = Inr c'"
  shows "all_running ops k c'"
  using assms
proof (induction k arbitrary: c')
  case (Suc k)
  then obtain c1 where c1: "foldE (\<lambda>i. StartServer ops zero (draws i) i) [0..<k] c = Inr c1" "StartServer ops zero (draws k) k c1 = Inr c'"
    by (auto simp: foldE_append elim!: bindE_InrE)
  then show ?case using Suc.IH [OF c1(1)] StartServer_running [OF c1(2)] unfolding all_running_def less_Suc_eq
    by (metis less_irrefl)
qed (simp add: all_running_def)

lemma new_config_running:
  assumes "kc_make_config ops zero draws n unreliable maxraftstate net = Inr c" "fresh_draws draws n" "nw_ends net = {}"
  shows "all_running ops n c" "length (kc_saved c) = n" "length (kc_servers c) = n"
proof -
  from new_config_steps [OF assms] obtain c1 sw
    where c1: "foldE (\<lambda>i. StartServer ops zero (draws i) i) [0..<n] (empty_cluster n maxraftstate net) = Inr c1" "servers_up draws n n c1"
      and c: "c = (switched c1 sw)\<lparr>kc_net := Reliable (\<not> unreliable) (kc_net (switched c1 sw))\<rparr>" .
  have "running ops c = running ops (switched c1 sw)" by (simp add: c fun_eq_iff running_def Reliable_def)
  then have "running ops c = running ops c1" using running_only_ends [OF switched_only] by metis
  then show "all_running ops n c" using start_all_running [OF c1(1)] by (simp add: all_running_def)
  show "length (kc_saved c) = n" "length (kc_servers c) = n" using c1(2) by (simp_all add: c switched_def servers_up_def)
qed

section \<open>Shutting down\<close>

lemma ShutdownServer_result:
  assumes "wired c" "i < kc_n c" "length (kc_saved c) = kc_n c" "length (kc_servers c) = kc_n c" "running ops c i a p"
  obtains c1 where "ShutdownServer ops i c = Inr c1" "kc_n c1 = kc_n c" "length (kc_endnames c1) = kc_n c"
    "kc_saved c1 = (kc_saved c)[i := Some (kc_brk c)]" "kc_servers c1 = (kc_servers c)[i := None]"
    "kc_persisters c1 = (kc_persisters c)(kc_brk c := Persister_Copy (kc_persisters c p))" "kc_brk c1 = Suc (kc_brk c)"
    "nw_servers (kc_net c1) (ServerName i) = None" "nw_ends (kc_net c1) = nw_ends (kc_net c)"
    "\<forall>j < kc_n c. \<not> nw_enabled (kc_net c1) (EndName (en c i j)) \<and> \<not> nw_enabled (kc_net c1) (EndName (en c j i))"
    "map_option Raft_Kill (peer_of ops c a) = peer_of ops c1 a"
proof -
  let ?sw = "sw_disconnect c i [0..<kc_n c]"
  have dis: "disconnectUnlocked i (kc_All c) c = Inr (switched c ?sw)"
    unfolding kc_All_def by (rule disconnectUnlocked_eq) (use assms in simp_all)
  obtain s rf where r: "kc_servers c ! i = Some a" "kc_saved c ! i = Some p" "nw_objs (kc_net c) a = ServerObj s"
    "nw_objs (kc_net c) (so_rf ops s) = RaftObj rf" using assms(5) by (auto simp: running_def)
  define net where "net = kc_net (switched c ?sw)"
  have obj: "nw_objs net = nw_objs (kc_net c)" using only_endsD [OF switched_only [of c ?sw]] by (simp add: net_def same_hosts_def)
  have sw: "switched c ?sw = c\<lparr>kc_net := net\<rparr>" by (simp add: net_def switched_def)
  let ?objs = "(nw_objs (kc_net c))(a := ServerObj (so_Kill ops s), so_rf ops s := RaftObj (Raft_Kill rf))"
  let ?c1 = "c\<lparr>kc_persisters := (kc_persisters c)(kc_brk c := Persister_Copy (kc_persisters c p)),
      kc_saved := (kc_saved c)[i := Some (kc_brk c)], kc_brk := Suc (kc_brk c), kc_servers := (kc_servers c)[i := None],
      kc_net := (DeleteServer (ServerName i) net)\<lparr>nw_objs := ?objs\<rparr>\<rparr>"
  have ne: "so_rf ops s \<noteq> a" using r by auto
  have eq: "ShutdownServer ops i c = Inr ?c1"
    using assms(2-4) r ne by (simp add: ShutdownServer_def dis sw kc_save_def kc_kill_def DeleteServer_def obj Let_def)
  show thesis
  proof (rule that [OF eq])
    have off: "\<And>j. j < kc_n c \<Longrightarrow> (en c i j, False) \<in> set ?sw" "\<And>j. j < kc_n c \<Longrightarrow> (en c j i, False) \<in> set ?sw"
        "\<And>e b. (e, b) \<in> set ?sw \<Longrightarrow> b = False"
      by (auto simp: sw_disconnect_def)
    have "\<not> nw_enabled net (EndName e)" if "(e, False) \<in> set ?sw" for e
      using fold_enable [OF that, of "kc_net c"] off(3) by (auto simp: net_def switched_def)
    then show "\<forall>j < kc_n c. \<not> nw_enabled (kc_net ?c1) (EndName (en c i j)) \<and> \<not> nw_enabled (kc_net ?c1) (EndName (en c j i))"
      using off(1,2) by (simp add: DeleteServer_def)
  next
    show "nw_ends (kc_net ?c1) = nw_ends (kc_net c)" by (simp add: DeleteServer_def net_def switched_nw_ends)
    show "map_option Raft_Kill (peer_of ops c a) = peer_of ops ?c1 a" using r ne by (simp add: peer_of_def rf_Kill)
    show "length (kc_endnames ?c1) = kc_n c" using assms(1) by (simp add: wired_def)
  qed (simp_all add: DeleteServer_def)
qed

text \<open>
  A restart: the state that was saved when the server was shut down is what the new instance finds, even if the old instance
  writes its persister once more after the shutdown.
\<close>

lemma restart:
  assumes "wired c" "i < kc_n c" "length (kc_saved c) = kc_n c" "length (kc_servers c) = kc_n c" "running ops c i a p"
    and "length names = kc_n c" "distinct names" "EndName ` set names \<inter> nw_ends (kc_net c) = {}"
  obtains c1 c2 a2 p2 where "ShutdownServer ops i c = Inr c1" "nw_servers (kc_net c1) (ServerName i) = None"
    "\<forall>j < kc_n c. \<not> nw_enabled (kc_net c1) (EndName (en c i j)) \<and> \<not> nw_enabled (kc_net c1) (EndName (en c j i))"
    "map_option Raft_Kill (peer_of ops c a) = peer_of ops c1 a"
    "StartServer ops zero names i (c1\<lparr>kc_persisters := (kc_persisters c1)(p := q)\<rparr>) = Inr c2"
    "running ops c2 i a2 p2" "p2 \<noteq> p" "kc_persisters c2 p2 = kc_persisters c p"
proof -
  have p: "p < kc_brk c" using assms(5) by (simp add: running_def)
  from ShutdownServer_result [OF assms(1-5)] obtain c1 where c1: "ShutdownServer ops i c = Inr c1" "kc_n c1 = kc_n c" "length (kc_endnames c1) = kc_n c"
    "kc_saved c1 = (kc_saved c)[i := Some (kc_brk c)]" "kc_servers c1 = (kc_servers c)[i := None]"
    "kc_persisters c1 = (kc_persisters c)(kc_brk c := Persister_Copy (kc_persisters c p))" "kc_brk c1 = Suc (kc_brk c)"
    "nw_servers (kc_net c1) (ServerName i) = None" "nw_ends (kc_net c1) = nw_ends (kc_net c)"
    and off: "\<forall>j < kc_n c. \<not> nw_enabled (kc_net c1) (EndName (en c i j)) \<and> \<not> nw_enabled (kc_net c1) (EndName (en c j i))"
    and kill: "map_option Raft_Kill (peer_of ops c a) = peer_of ops c1 a" .
  let ?c1 = "c1\<lparr>kc_persisters := (kc_persisters c1)(p := q)\<rparr>"
  obtain c2 where c2: "StartServer ops zero names i ?c1 = Inr c2"
    using StartServer_succeeds [of i ?c1 names ops zero] assms(2-8) c1(2-5,9) by auto
  from StartServer_result [OF c2] obtain rows c1' p' where p': "p' = (case kc_saved ?c1 ! i of Some a \<Rightarrow> Persister_Copy (kc_persisters ?c1 a) | None \<Rightarrow> MakePersister)"
    and c2': "c2 = with_server ops zero names i p' ?c1 c1'" .
  have "p' = kc_persisters c p" using assms(2,3) p by (simp add: p' c1 Persister_Copy_same)
  then have "kc_persisters c2 (kc_brk ?c1) = kc_persisters c p" by (simp add: c2' with_server_def)
  moreover have "kc_brk ?c1 \<noteq> p" using p c1(7) by simp
  ultimately show thesis using that [OF c1(1,8) off kill c2 StartServer_running(1) [OF c2]] by blast
qed

end

interpretation kvserver: server_type "kv_ops zero" for zero
  by unfold_locales (simp_all add: kv_ops_def StartKVServer_def KVServer_Kill_def)

interpretation ctrlserver: server_type "ctrler_ops zero" for zero
  by unfold_locales (simp_all add: ctrler_ops_def ctrler_StartServer_def ShardCtrler_Raft_def ShardCtrler_Kill_def)

end
