(* ===== verification/Cluster_Durability.thy ===== *)
theory Cluster_Durability
  imports Cluster_Restart
begin

text \<open>
  Network and configuration together: \<^verbatim>\<open>processReq\<close> of \<^verbatim>\<open>labrpc\<close> lets a positive reply through only while the server that has executed the
  request is registered, and \<^verbatim>\<open>ShutdownServer\<close> deletes the server before it replaces the persister.  By their comments, the two are to
  exclude that a client gets a positive reply although the server has saved the update in a persister that was replaced
  before.

  A call in flight interleaves with the stretches of \<^verbatim>\<open>ShutdownServer\<close> and with \<^verbatim>\<open>StartServer\<close>.  What handlers save is left open by the outlines: here
  \<open>holds\<close> is any property of a persister's contents that the handler of the call establishes before it returns, and that
  no later save of the same persister destroys.
\<close>

section \<open>The stretches of a shutdown\<close>

definition shut_delete :: "nat \<Rightarrow> ('v, 's) cluster \<Rightarrow> ('v, 's) cluster" where
  "shut_delete i c = c\<lparr>kc_net := DeleteServer (ServerName i) (kc_net c)\<rparr>"

definition shut_supersede :: "nat \<Rightarrow> ('v, 's) cluster \<Rightarrow> ('v, 's) cluster result" where
  "shut_supersede i c =
     bindE (slice_get (kc_saved c) i) (\<lambda>saved.
     case saved of None \<Rightarrow> Inr c | Some a \<Rightarrow> kc_save i (Persister_Copy (kc_persisters c a)) c)"

definition shut_kill :: "('v, 's) server_ops \<Rightarrow> nat \<Rightarrow> ('v, 's) cluster \<Rightarrow> ('v, 's) cluster result" where
  "shut_kill ops i c =
     bindE (slice_get (kc_servers c) i) (\<lambda>kv.
     case kv of
       None \<Rightarrow> Inr c
     | Some a \<Rightarrow>
         (let c = kc_kill ops a c in
          bindE (slice_set (kc_servers c) i None) (\<lambda>ss. Inr (c\<lparr>kc_servers := ss\<rparr>))))"

lemma ShutdownServer_stretches:
  "ShutdownServer ops i c =
     bindE (disconnectUnlocked i (kc_All c) c) (\<lambda>c. bindE (shut_supersede i (shut_delete i c)) (shut_kill ops i))"
  by (simp add: ShutdownServer_def shut_delete_def shut_supersede_def shut_kill_def Let_def bindE_def split: sum.splits option.splits)

section \<open>Steps\<close>

datatype shut_stage = Up | Isolated | Deleted | Superseded

text \<open>
  The configuration, the call, how far each shutdown is, and the persister of each instance of a server (by the address of the
  instance, since it was made).
\<close>

record ('v, 's) durable =
  du_c :: "('v, 's) cluster"
  du_call :: "(name, 'v) call"
  du_stage :: "nat \<Rightarrow> shut_stage"
  du_pers :: "nat \<rightharpoonup> nat"

datatype du_event =
    Own call_action Persister
  | Save nat Persister
  | Isolate nat
  | Delete nat
  | Supersede nat
  | KillServer nat
  | Restart nat "string list"
  | Toggle name bool

definition of_result :: "'a result \<Rightarrow> 'a option" where
  "of_result r = (case r of Inl _ \<Rightarrow> None | Inr x \<Rightarrow> Some x)"

definition du_own :: "'v codec \<Rightarrow> (Persister \<Rightarrow> bool) \<Rightarrow> call_action \<Rightarrow> Persister \<Rightarrow> ('v, 's) durable \<Rightarrow> ('v, 's) durable option" where
  "du_own cd holds a q st =
     (case call_step cd a (du_call st) (kc_net (du_c st)) of
        Some (Inr (k, net)) \<Rightarrow>
          (let c = (du_c st)\<lparr>kc_net := net\<rparr> in
           if a = Execute then
             (case cl_handler (du_call st) of
                Running s \<Rightarrow>
                  (case du_pers st s of
                     Some p \<Rightarrow> if holds q then Some (st\<lparr>du_c := c\<lparr>kc_persisters := (kc_persisters c)(p := q)\<rparr>, du_call := k\<rparr>) else None
                   | None \<Rightarrow> None)
              | _ \<Rightarrow> None)
           else Some (st\<lparr>du_c := c, du_call := k\<rparr>))
      | _ \<Rightarrow> None)"

definition du_shut :: "shut_stage \<Rightarrow> shut_stage \<Rightarrow> nat \<Rightarrow> ('v, 's) cluster result \<Rightarrow> ('v, 's) durable \<Rightarrow> ('v, 's) durable option" where
  "du_shut before after j r st =
     (if du_stage st j = before then map_option (\<lambda>c. st\<lparr>du_c := c, du_stage := (du_stage st)(j := after)\<rparr>) (of_result r) else None)"

text \<open>A server is started again only after it has been shut down, as the comment of \<^verbatim>\<open>StartServer\<close> demands.\<close>

definition du_restart :: "('v, 's) server_ops \<Rightarrow> 'v \<Rightarrow> nat \<Rightarrow> string list \<Rightarrow> ('v, 's) durable \<Rightarrow> ('v, 's) durable option" where
  "du_restart ops zero j names st =
     (if du_stage st j = Up \<and> slice_get (kc_servers (du_c st)) j = Inr None then
        map_option (\<lambda>c. st\<lparr>du_c := c, du_pers := (du_pers st)(the (kc_servers c ! j) :=
            map_option rf_persister (peer_of ops c (the (kc_servers c ! j))))\<rparr>)
          (of_result (StartServer ops zero names j (du_c st)))
      else None)"

fun du_exec ::
    "('v, 's) server_ops \<Rightarrow> 'v \<Rightarrow> 'v codec \<Rightarrow> (Persister \<Rightarrow> bool) \<Rightarrow> du_event \<Rightarrow> ('v, 's) durable \<Rightarrow> ('v, 's) durable option" where
  "du_exec ops zero cd holds (Own a q) st = du_own cd holds a q st"
| "du_exec ops zero cd holds (Save p q) st =
     (let c = du_c st in
      if holds (kc_persisters c p) \<longrightarrow> holds q then Some (st\<lparr>du_c := c\<lparr>kc_persisters := (kc_persisters c)(p := q)\<rparr>\<rparr>) else None)"
| "du_exec ops zero cd holds (Isolate j) st = du_shut Up Isolated j (disconnectUnlocked j (kc_All (du_c st)) (du_c st)) st"
| "du_exec ops zero cd holds (Delete j) st = du_shut Isolated Deleted j (Inr (shut_delete j (du_c st))) st"
| "du_exec ops zero cd holds (Supersede j) st = du_shut Deleted Superseded j (shut_supersede j (du_c st)) st"
| "du_exec ops zero cd holds (KillServer j) st = du_shut Superseded Up j (shut_kill ops j (du_c st)) st"
| "du_exec ops zero cd holds (Restart j names) st = du_restart ops zero j names st"
| "du_exec ops zero cd holds (Toggle e b) st = Some (st\<lparr>du_c := (du_c st)\<lparr>kc_net := Enable e b (kc_net (du_c st))\<rparr>\<rparr>)"

fun du_run ::
    "('v, 's) server_ops \<Rightarrow> 'v \<Rightarrow> 'v codec \<Rightarrow> (Persister \<Rightarrow> bool) \<Rightarrow> du_event list \<Rightarrow> ('v, 's) durable \<Rightarrow> ('v, 's) durable option" where
  "du_run ops zero cd holds [] st = Some st"
| "du_run ops zero cd holds (e # es) st = Option.bind (du_exec ops zero cd holds e st) (du_run ops zero cd holds es)"

section \<open>The invariant\<close>

definition saved_at :: "('v, 's) cluster \<Rightarrow> nat \<Rightarrow> nat option" where
  "saved_at c j = (if j < length (kc_saved c) then kc_saved c ! j else None)"

text \<open>The registered instance of a server uses the persister that is saved for it, and everything has been allocated.\<close>

definition config_ok :: "('v, 's) cluster \<Rightarrow> (nat \<rightharpoonup> nat) \<Rightarrow> bool" where
  "config_ok c pers \<longleftrightarrow>
     (\<forall>j a. nw_servers (kc_net c) (ServerName j) = Some a \<longrightarrow> (\<exists>p. pers a = Some p \<and> saved_at c j = Some p)) \<and>
     (\<forall>a p. pers a = Some p \<longrightarrow> a < kc_brk c \<and> p < kc_brk c) \<and>
     (\<forall>j p. saved_at c j = Some p \<longrightarrow> p < kc_brk c)"

fun gone :: "shut_stage \<Rightarrow> bool" where
  "gone Up = False" | "gone Isolated = False" | "gone Deleted = True" | "gone Superseded = True"

definition stages_ok :: "('v, 's) cluster \<Rightarrow> (nat \<Rightarrow> shut_stage) \<Rightarrow> bool" where
  "stages_ok c stage \<longleftrightarrow> (\<forall>j. gone (stage j) \<longrightarrow> nw_servers (kc_net c) (ServerName j) = None)"

text \<open>The end of the client leads to server \<open>i\<close>.\<close>

definition end_leads :: "(name, 'v, 's object) network \<Rightarrow> name \<Rightarrow> nat \<Rightarrow> bool" where
  "end_leads net e i \<longleftrightarrow> e \<in> nw_ends net \<and> nw_connections net e = Some (ServerName i)"

definition pers_holds :: "(Persister \<Rightarrow> bool) \<Rightarrow> ('v, 's) cluster \<Rightarrow> nat option \<Rightarrow> bool" where
  "pers_holds holds c p \<longleftrightarrow> (\<exists>a. p = Some a \<and> holds (kc_persisters c a))"

definition link_ok :: "(Persister \<Rightarrow> bool) \<Rightarrow> ('v, 's) cluster \<Rightarrow> (nat \<rightharpoonup> nat) \<Rightarrow> nat \<Rightarrow> handler \<Rightarrow> name link \<Rightarrow> bool" where
  "link_ok holds c pers i h l \<longleftrightarrow>
     ln_name l = ServerName i \<and> ln_server l \<in> dom pers \<and> ((\<exists>r. h = Finished r) \<longrightarrow> pers_holds holds c (pers (ln_server l)))"

fun phase_durable :: "(Persister \<Rightarrow> bool) \<Rightarrow> ('v, 's) cluster \<Rightarrow> (nat \<rightharpoonup> nat) \<Rightarrow> nat \<Rightarrow> handler \<Rightarrow> name phase \<Rightarrow> bool" where
  "phase_durable holds c pers i h Arrived = True"
| "phase_durable holds c pers i h (Linked l) = link_ok holds c pers i h l"
| "phase_durable holds c pers i h (Awaiting l) = link_ok holds c pers i h l"
| "phase_durable holds c pers i h (Deciding l replyOK r) = (replyOK \<longrightarrow> link_ok holds c pers i h l)"
| "phase_durable holds c pers i h (Postponed r) = (rp_ok r \<longrightarrow> pers_holds holds c (saved_at c i))"
| "phase_durable holds c pers i h (Replied r) = (rp_ok r \<longrightarrow> pers_holds holds c (saved_at c i))"

definition durable_inv :: "(Persister \<Rightarrow> bool) \<Rightarrow> name \<Rightarrow> nat \<Rightarrow> ('v, 's) durable \<Rightarrow> bool" where
  "durable_inv holds e i st \<longleftrightarrow>
     config_ok (du_c st) (du_pers st) \<and> stages_ok (du_c st) (du_stage st) \<and> end_leads (kc_net (du_c st)) e i \<and>
     (\<exists>as. call_inv as (du_call st)) \<and> rq_endname (cl_req (du_call st)) = e \<and>
     phase_durable holds (du_c st) (du_pers st) i (cl_handler (du_call st)) (cl_phase (du_call st))"

section \<open>Steps that leave the registered servers and the persisters alone\<close>

definition same_frame :: "('v, 's) cluster \<Rightarrow> ('v, 's) cluster \<Rightarrow> bool" where
  "same_frame c c' \<longleftrightarrow>
     kc_saved c' = kc_saved c \<and> kc_brk c' = kc_brk c \<and> kc_persisters c' = kc_persisters c \<and> nw_servers (kc_net c') = nw_servers (kc_net c) \<and>
     nw_ends (kc_net c') = nw_ends (kc_net c) \<and> nw_connections (kc_net c') = nw_connections (kc_net c)"

lemma same_frame_refl [simp]: "same_frame c c"
  by (simp add: same_frame_def)

lemma same_frame_trans: "same_frame c c1 \<Longrightarrow> same_frame c1 c2 \<Longrightarrow> same_frame c c2"
  by (simp add: same_frame_def)

lemma same_frame_foldE:
  assumes "foldE f xs c = Inr c'" "\<And>x c c'. f x c = Inr c' \<Longrightarrow> same_frame c c'"
  shows "same_frame c c'"
  using assms(1)
proof (induction xs arbitrary: c)
  case (Cons x xs)
  from Cons.prems obtain c1 where "f x c = Inr c1" "foldE f xs c1 = Inr c'" by (auto elim: bindE_InrE)
  then show ?case using Cons.IH assms(2) same_frame_trans by blast
qed simp

lemma enable_frame [simp]: "same_frame c (kc_enable b e c)"
  by (simp add: same_frame_def kc_enable_def Enable_def)

lemma disconnectUnlocked_frame:
  assumes "disconnectUnlocked i from c = Inr c'"
  shows "same_frame c c'"
proof -
  obtain c1 where c1: "foldE (\<lambda>f c. bindE (slice_get (kc_endnames c) i) (\<lambda>row.
         if row \<noteq> None then bindE (kc_endname c i f) (\<lambda>e. Inr (kc_enable False e c)) else Inr c)) from c = Inr c1"
    and c': "foldE (\<lambda>(j, f) c. bindE (slice_get (kc_endnames c) j) (\<lambda>row.
         if row \<noteq> None then bindE (kc_endname c f i) (\<lambda>e. Inr (kc_enable False e c)) else Inr c)) (enumerate 0 from) c1 = Inr c'"
    using assms unfolding disconnectUnlocked_def by (auto elim: bindE_InrE)
  have "same_frame c c1" by (rule same_frame_foldE [OF c1]) (auto elim!: bindE_InrE split: if_splits)
  moreover have "same_frame c1 c'" by (rule same_frame_foldE [OF c']) (auto elim!: bindE_InrE split: if_splits)
  ultimately show ?thesis by (rule same_frame_trans)
qed

lemma shut_kill_frame: "shut_kill ops i c = Inr c' \<Longrightarrow> same_frame c c'"
  by (auto simp: shut_kill_def kc_kill_def same_frame_def Let_def elim!: bindE_InrE split: option.splits object.splits)

lemma saved_at_frame: "same_frame c c' \<Longrightarrow> saved_at c' = saved_at c"
  by (simp add: fun_eq_iff saved_at_def same_frame_def)

lemma phase_durable_mono:
  assumes "phase_durable holds c pers i h ph" "\<And>a p. pers a = Some p \<Longrightarrow> pers' a = Some p"
    and "\<And>a p. pers a = Some p \<Longrightarrow> holds (kc_persisters c p) \<Longrightarrow> holds (kc_persisters c' p)"
    and "pers_holds holds c (saved_at c i) \<Longrightarrow> pers_holds holds c' (saved_at c' i)"
  shows "phase_durable holds c' pers' i h ph"
proof -
  have "link_ok holds c' pers' i h l" if "link_ok holds c pers i h l" for l
    using that assms(2,3) by (fastforce simp: link_ok_def pers_holds_def dom_def)
  then show ?thesis using assms(1,4) by (cases ph) auto
qed

lemma durable_inv_frame:
  assumes "durable_inv holds e i st" "same_frame (du_c st) c'" "\<And>j. gone (stage j) \<Longrightarrow> gone (du_stage st j)"
  shows "durable_inv holds e i (st\<lparr>du_c := c', du_stage := stage\<rparr>)"
proof -
  note inv = assms(1) [unfolded durable_inv_def] and f = assms(2) [unfolded same_frame_def]
  have "config_ok c' (du_pers st)" "end_leads (kc_net c') e i" using inv f saved_at_frame [OF assms(2)] by (simp_all add: config_ok_def end_leads_def)
  moreover have "stages_ok c' stage" using inv f assms(3) unfolding stages_ok_def by metis
  moreover have "phase_durable holds c' (du_pers st) i (cl_handler (du_call st)) (cl_phase (du_call st))"
    by (rule phase_durable_mono [where c = "du_c st" and pers = "du_pers st"]) (use inv f saved_at_frame [OF assms(2)] in \<open>simp_all add: pers_holds_def\<close>)
  ultimately show ?thesis using inv by (simp add: durable_inv_def)
qed

lemma du_shutE:
  assumes "du_shut before after j r st = Some st'"
  obtains c' where "r = Inr c'" "du_stage st j = before" "st' = st\<lparr>du_c := c', du_stage := (du_stage st)(j := after)\<rparr>"
  using assms by (auto simp: du_shut_def of_result_def split: if_splits sum.splits)

section \<open>The steps of a shutdown, restarts and saves\<close>

lemma delete_durable:
  assumes "durable_inv holds e i st"
  shows "durable_inv holds e i (st\<lparr>du_c := shut_delete j (du_c st), du_stage := (du_stage st)(j := Deleted)\<rparr>)"
proof -
  note inv = assms [unfolded durable_inv_def]
  let ?c = "du_c st" and ?c' = "shut_delete j (du_c st)"
  have sa: "saved_at ?c' = saved_at ?c" by (simp add: fun_eq_iff saved_at_def shut_delete_def)
  have srv: "nw_servers (kc_net ?c') = (nw_servers (kc_net ?c))(ServerName j := None)" "kc_brk ?c' = kc_brk ?c" "end_leads (kc_net ?c') = end_leads (kc_net ?c)"
    by (simp_all add: shut_delete_def DeleteServer_def fun_eq_iff end_leads_def)
  have "config_ok ?c' (du_pers st)" using inv unfolding config_ok_def sa srv by simp
  moreover have "stages_ok ?c' ((du_stage st)(j := Deleted))" using inv unfolding stages_ok_def srv by simp
  moreover have "phase_durable holds ?c' (du_pers st) i (cl_handler (du_call st)) (cl_phase (du_call st))"
    by (rule phase_durable_mono [where c = ?c and pers = "du_pers st"]) (use inv sa in \<open>simp_all add: pers_holds_def shut_delete_def\<close>)
  ultimately show ?thesis using inv by (simp add: durable_inv_def srv)
qed

text \<open>A new persister at a new address, with the contents of the old one.\<close>

lemma supersede_durable:
  assumes "durable_inv holds e i st" "du_stage st j = Deleted" "shut_supersede j (du_c st) = Inr c'"
  shows "durable_inv holds e i (st\<lparr>du_c := c', du_stage := (du_stage st)(j := Superseded)\<rparr>)"
proof -
  note inv = assms(1) [unfolded durable_inv_def]
  let ?c = "du_c st"
  have j: "j < length (kc_saved ?c)" using assms(3) by (auto simp: shut_supersede_def slice_get_def elim!: bindE_InrE split: if_splits)
  have off: "nw_servers (kc_net ?c) (ServerName j) = None" using inv assms(2) by (simp add: stages_ok_def)
  show ?thesis
  proof (cases "kc_saved ?c ! j")
    case None
    then have "c' = ?c" using assms(3) j by (simp add: shut_supersede_def)
    moreover have "stages_ok ?c ((du_stage st)(j := Superseded))" using inv off by (simp add: stages_ok_def)
    ultimately show ?thesis using inv by (simp add: durable_inv_def)
  next
    case (Some a)
    then have c': "c' = ?c\<lparr>kc_persisters := (kc_persisters ?c)(kc_brk ?c := kc_persisters ?c a), kc_saved := (kc_saved ?c)[j := Some (kc_brk ?c)],
        kc_brk := Suc (kc_brk ?c)\<rparr>"
      using assms(3) j by (simp add: shut_supersede_def kc_save_def Persister_Copy_same)
    have sa: "saved_at c' = (saved_at ?c)(j := Some (kc_brk ?c))" using j by (simp add: fun_eq_iff saved_at_def c')
    have "saved_at ?c j = Some a" using Some j by (simp add: saved_at_def)
    then have a: "a < kc_brk ?c" using inv by (simp add: config_ok_def)
    have cfg: "config_ok c' (du_pers st)"
      unfolding config_ok_def sa
    proof (intro conjI allI impI)
      fix j' b assume "nw_servers (kc_net c') (ServerName j') = Some b"
      then have "nw_servers (kc_net ?c) (ServerName j') = Some b" "j' \<noteq> j" using off by (auto simp: c')
      then show "\<exists>p. du_pers st b = Some p \<and> ((saved_at ?c)(j := Some (kc_brk ?c))) j' = Some p" using inv by (auto simp: config_ok_def)
    qed (use inv in \<open>auto simp: config_ok_def c' less_Suc_eq split: if_splits\<close>)
    have "phase_durable holds c' (du_pers st) i (cl_handler (du_call st)) (cl_phase (du_call st))"
    proof (rule phase_durable_mono [where c = ?c and pers = "du_pers st"])
      show "holds (kc_persisters c' p)" if "du_pers st b = Some p" "holds (kc_persisters ?c p)" for b p
        using that inv by (auto simp: c' config_ok_def)
      show "pers_holds holds c' (saved_at c' i)" if "pers_holds holds ?c (saved_at ?c i)"
        using that a inv \<open>saved_at ?c j = Some a\<close> by (auto simp: pers_holds_def sa) (auto simp: c' config_ok_def)
    qed (use inv in simp_all)
    moreover have "stages_ok c' ((du_stage st)(j := Superseded))" using inv off by (simp add: stages_ok_def c')
    moreover have "end_leads (kc_net c') e i" using inv by (simp add: c')
    ultimately show ?thesis using inv cfg by (simp add: durable_inv_def)
  qed
qed

lemma save_durable:
  assumes "durable_inv holds e i st" "holds (kc_persisters (du_c st) p) \<longrightarrow> holds q"
  shows "durable_inv holds e i (st\<lparr>du_c := (du_c st)\<lparr>kc_persisters := (kc_persisters (du_c st))(p := q)\<rparr>\<rparr>)"
proof -
  let ?c = "du_c st" and ?c' = "(du_c st)\<lparr>kc_persisters := (kc_persisters (du_c st))(p := q)\<rparr>"
  note inv = assms(1) [unfolded durable_inv_def]
  have sa: "saved_at ?c' = saved_at ?c" by (simp add: fun_eq_iff saved_at_def)
  have "phase_durable holds ?c' (du_pers st) i (cl_handler (du_call st)) (cl_phase (du_call st))"
    by (rule phase_durable_mono [where c = ?c and pers = "du_pers st"]) (use inv assms(2) sa in \<open>auto simp: pers_holds_def\<close>)
  then show ?thesis using inv sa by (simp add: durable_inv_def config_ok_def stages_ok_def)
qed

lemma make_end_leads: "kc_make_end names j c = Inr c' \<Longrightarrow> end_leads (kc_net c) e i \<Longrightarrow> end_leads (kc_net c') e i"
  by (auto simp: kc_make_end_def end_leads_def MakeEnd_def Connect_def elim!: bindE_InrE split: if_splits)

lemma make_ends_lead:
  assumes "foldE (kc_make_end names) js c = Inr c'" "end_leads (kc_net c) e i"
  shows "end_leads (kc_net c') e i"
  using assms
proof (induction js arbitrary: c)
  case (Cons j js)
  from Cons.prems(1) obtain c1 where "kc_make_end names j c = Inr c1" "foldE (kc_make_end names) js c1 = Inr c'" by (auto elim: bindE_InrE)
  then show ?case using Cons.IH Cons.prems(2) make_end_leads by blast
qed simp

lemma StartServer_leads:
  assumes "StartServer ops zero names j c = Inr c'" "end_leads (kc_net c) e i"
  shows "end_leads (kc_net c') e i"
proof -
  obtain rows c1 where c1: "foldE (kc_make_end names) [0..<kc_n c] (c\<lparr>kc_endnames := rows\<rparr>) = Inr c1"
    and net: "nw_ends (kc_net c') = nw_ends (kc_net c1)" "nw_connections (kc_net c') = nw_connections (kc_net c1)"
    using assms(1)
    by (auto simp: StartServer_def Let_def kc_save_def AddServer_def slice_set_def slice_get_def elim!: bindE_InrE split: if_splits option.splits)
  have "end_leads (kc_net c1) e i" using make_ends_lead [OF c1] assms(2) by simp
  then show ?thesis using net by (simp add: end_leads_def)
qed

context server_type
begin

lemma restart_durable:
  assumes "durable_inv holds e i st" "du_restart ops zero j names st = Some st'"
  shows "durable_inv holds e i st'"
proof -
  note inv = assms(1) [unfolded durable_inv_def]
  let ?c = "du_c st" and ?b = "kc_brk (du_c st)" and ?pers = "(du_pers st)(kc_brk (du_c st) + 2 \<mapsto> kc_brk (du_c st))"
  obtain c' where up: "du_stage st j = Up" and start: "StartServer ops zero names j ?c = Inr c'"
    and st': "st' = st\<lparr>du_c := c', du_pers := (du_pers st)(the (kc_servers c' ! j) := map_option rf_persister (peer_of ops c' (the (kc_servers c' ! j))))\<rparr>"
    using assms(2) by (auto simp: du_restart_def of_result_def split: if_splits sum.splits)
  from StartServer_result [OF start] obtain rows c1 q where o: "only_ends (?c\<lparr>kc_endnames := rows\<rparr>) c1" and j: "j < length (kc_saved ?c)"
    and q: "q = (case kc_saved ?c ! j of Some a \<Rightarrow> Persister_Copy (kc_persisters ?c a) | None \<Rightarrow> MakePersister)"
    and c': "c' = with_server ops zero names j q ?c c1" .
  note run = StartServer_running(1) [OF start]
  obtain rf where "peer_of ops c' (?b + 2) = Some rf" "rf_persister rf = ?b" using running_peer [OF run] by blast
  moreover have "kc_servers c' ! j = Some (?b + 2)" using run by (simp add: running_def)
  ultimately have st: "st' = st\<lparr>du_c := c', du_pers := ?pers\<rparr>" by (simp add: st')
  have srv: "nw_servers (kc_net c') = (nw_servers (kc_net ?c))(ServerName j := Some (?b + 2))" "kc_brk c' = ?b + 3"
    "kc_persisters c' = (kc_persisters ?c)(?b := q)"
    using only_endsD [OF o] by (simp_all add: c' with_server_def AddServer_def same_hosts_def)
  have sa: "saved_at c' = (saved_at ?c)(j := Some ?b)" using j by (simp add: fun_eq_iff saved_at_def c' with_server_def)
  have cfg: "config_ok c' ?pers"
    unfolding config_ok_def sa srv
  proof (intro conjI allI impI)
    fix j' a assume a: "((nw_servers (kc_net ?c))(ServerName j := Some (?b + 2))) (ServerName j') = Some a"
    show "\<exists>p. ?pers a = Some p \<and> ((saved_at ?c)(j := Some ?b)) j' = Some p"
    proof (cases "j' = j")
      case False
      then have "nw_servers (kc_net ?c) (ServerName j') = Some a" using a by simp
      then obtain p where "du_pers st a = Some p" "saved_at ?c j' = Some p" "a < ?b" using inv unfolding config_ok_def by blast
      then show ?thesis using False by simp
    qed (use a in simp)
  next
    fix a p assume "?pers a = Some p"
    then have "a = ?b + 2 \<and> p = ?b \<or> a < ?b \<and> p < ?b" using inv by (auto simp: config_ok_def split: if_splits)
    then show "a < ?b + 3" "p < ?b + 3" by auto
  next
    fix j' p assume "((saved_at ?c)(j := Some ?b)) j' = Some p"
    then have "p = ?b \<or> p < ?b" using inv by (auto simp: config_ok_def split: if_splits)
    then show "p < ?b + 3" by auto
  qed
  have stages: "stages_ok c' (du_stage st)" using inv up unfolding stages_ok_def srv by auto
  have "phase_durable holds c' ?pers i (cl_handler (du_call st)) (cl_phase (du_call st))"
  proof (rule phase_durable_mono [where c = ?c and pers = "du_pers st"])
    have lt: "a < ?b \<and> p < ?b" if "du_pers st a = Some p" for a p using that inv by (simp add: config_ok_def)
    show "?pers a = Some p" if "du_pers st a = Some p" for a p using lt [OF that] that by simp
    show "holds (kc_persisters c' p)" if "du_pers st a = Some p" "holds (kc_persisters ?c p)" for a p using lt [OF that(1)] that(2) srv by simp
    show "pers_holds holds c' (saved_at c' i)" if h: "pers_holds holds ?c (saved_at ?c i)"
    proof (cases "i = j")
      case True
      then show ?thesis using h j by (auto simp: pers_holds_def sa srv q saved_at_def Persister_Copy_same)
    next
      case False
      then obtain p where "saved_at ?c i = Some p" "holds (kc_persisters ?c p)" using h by (auto simp: pers_holds_def)
      moreover from this have "p < ?b" using inv by (simp add: config_ok_def)
      ultimately show ?thesis using False by (simp add: pers_holds_def sa srv)
    qed
  qed (use inv in simp)
  then show ?thesis using inv cfg stages StartServer_leads [OF start] by (simp add: durable_inv_def st)
qed

end

section \<open>The steps of the call\<close>

lemma other_step_net:
  assumes "call_step cd a k rn = Some (Inr (k', rn'))" "a \<noteq> Execute"
  shows "nw_servers rn' = nw_servers rn" "nw_ends rn' = nw_ends rn" "nw_connections rn' = nw_connections rn"
  using assms
  by (auto simp: call_step_def decide_def Let_def add_bytes_def
      split: call_action.splits phase.splits handler.splits option.splits if_splits prod.splits bool.splits)

text \<open>The decision: a positive reply is let through only while the instance is registered, and then its persister is the saved one.\<close>

lemma decide_durable:
  assumes "config_ok c pers" "link_ok holds c pers i (Finished r) l" "nw_servers (kc_net c) (ln_name l) = Some (ln_server l)"
  shows "pers_holds holds c (saved_at c i)"
proof -
  have "ln_name l = ServerName i" "pers_holds holds c (pers (ln_server l))" using assms(2) by (simp_all add: link_ok_def)
  moreover from this have "saved_at c i = pers (ln_server l)" using assms(1,3) by (fastforce simp: config_ok_def)
  ultimately show ?thesis by simp
qed

lemma other_step_durable:
  assumes inv: "config_ok c pers" "end_leads (kc_net c) (rq_endname (cl_req k)) i" "call_inv as k"
      "phase_durable holds c pers i (cl_handler k) (cl_phase k)"
    and s: "call_step cd a k (kc_net c) = Some (Inr (k', rn'))" and a: "a \<noteq> Execute"
  shows "phase_durable holds c pers i (cl_handler k') (cl_phase k')"
proof (cases "cl_phase k")
  case Arrived
  then have "cl_handler k = Idle" using inv(3) by (simp add: call_inv_def)
  then show ?thesis using s a Arrived inv(1,2)
    by (fastforce simp: call_step_def readEndnameInfo_def end_leads_def link_ok_def failure_def config_ok_def Let_def
        split: call_action.splits option.splits bool.splits)
next
  case (Linked l)
  then show ?thesis using s a inv(4) by (auto simp: call_step_def link_ok_def failure_def split: call_action.splits if_splits)
next
  case (Awaiting l)
  then show ?thesis using s a inv(4) by (auto simp: call_step_def split: call_action.splits if_splits handler.splits)
next
  case (Deciding l replyOK reply)
  then obtain r1 r2 where d: "a = Decide r1 r2" using s a by (auto simp: call_step_def split: call_action.splits)
  obtain p where p: "decide (kc_net c) (cl_req k) l replyOK reply r1 r2 = (p, rn')" "k' = k\<lparr>cl_phase := p\<rparr>"
    using s Deciding d by (auto simp: call_step_def split: prod.splits)
  consider r where "p = Replied r" | r where "p = Postponed r" using p(1) by (auto simp: decide_def Let_def split: if_splits)
  then show ?thesis
  proof cases
    case (1 r)
    have "pers_holds holds c (saved_at c i)" if "rp_ok r"
      using decide_positive [OF p(1) _ that] 1 decide_durable [OF inv(1), of holds i r l] inv(3,4) Deciding by (auto simp: call_inv_def)
    then show ?thesis using p(2) 1 by simp
  next
    case (2 r)
    have "pers_holds holds c (saved_at c i)" if "rp_ok r"
      using decide_positive [OF p(1) _ that] 2 decide_durable [OF inv(1), of holds i r l] inv(3,4) Deciding by (auto simp: call_inv_def)
    then show ?thesis using p(2) 2 by simp
  qed
next
  case (Postponed r)
  then show ?thesis using s a inv(4) by (auto simp: call_step_def split: call_action.splits)
next
  case (Replied r)
  then show ?thesis using s a by (auto simp: call_step_def split: call_action.splits)
qed

lemma own_durable:
  assumes "durable_inv holds e i st" "du_own cd holds a q st = Some st'"
  shows "durable_inv holds e i st'"
proof -
  note inv = assms(1) [unfolded durable_inv_def]
  let ?c = "du_c st" and ?k = "du_call st"
  obtain as where ci: "call_inv as ?k" using inv by blast
  obtain k' net where s: "call_step cd a ?k (kc_net ?c) = Some (Inr (k', net))"
    using assms(2) by (auto simp: du_own_def split: option.splits sum.splits)
  note ci' = call_step_inv [OF ci s] and req = call_step_req [OF s]
  show ?thesis
  proof (cases "a = Execute")
    case False
    let ?c' = "?c\<lparr>kc_net := net\<rparr>"
    have st': "st' = st\<lparr>du_c := ?c', du_call := k'\<rparr>" using assms(2) s False by (simp add: du_own_def)
    have "phase_durable holds ?c (du_pers st) i (cl_handler k') (cl_phase k')"
      by (rule other_step_durable [OF _ _ ci _ s False]) (use inv in simp_all)
    then have "durable_inv holds e i (st\<lparr>du_call := k'\<rparr>)" using inv ci' req by (auto simp: durable_inv_def)
    moreover have "same_frame ?c ?c'" using other_step_net [OF s False] by (simp add: same_frame_def)
    ultimately have "durable_inv holds e i (st\<lparr>du_call := k', du_c := ?c', du_stage := du_stage st\<rparr>)"
      by (intro durable_inv_frame) simp_all
    then show ?thesis by (simp add: st' durable_inv_def)
  next
    case True
    then obtain n p where h: "cl_handler ?k = Running n" "du_pers st n = Some p" "holds q"
      and st': "st' = st\<lparr>du_c := ?c\<lparr>kc_net := net, kc_persisters := (kc_persisters ?c)(p := q)\<rparr>, du_call := k'\<rparr>"
      using assms(2) s by (auto simp: du_own_def Let_def split: handler.splits option.splits if_splits)
    from h(1) s True obtain r where "run_handler cd (kc_net ?c) ?k n = Inr (k', net)" by (auto simp: call_step_def)
    then obtain r where k': "k' = ?k\<lparr>cl_handler := Finished r\<rparr>"
      and net: "nw_servers net = nw_servers (kc_net ?c)" "nw_ends net = nw_ends (kc_net ?c)" "nw_connections net = nw_connections (kc_net ?c)"
      by (auto simp: run_handler_def elim!: bindE_InrE)
    let ?c0 = "?c\<lparr>kc_persisters := (kc_persisters ?c)(p := q)\<rparr>"
    have saved: "durable_inv holds e i (st\<lparr>du_c := ?c0\<rparr>)" by (rule save_durable) (use assms(1) h(3) in simp_all)
    have "phase_durable holds ?c0 (du_pers st) i (Finished r) (cl_phase ?k)"
      using saved [unfolded durable_inv_def] ci h by (cases "cl_phase ?k") (auto simp: call_inv_def link_ok_def pers_holds_def failure_def)
    then have "durable_inv holds e i (st\<lparr>du_c := ?c0, du_call := k'\<rparr>)" using saved ci' req by (auto simp: durable_inv_def k')
    moreover have "same_frame ?c0 (?c0\<lparr>kc_net := net\<rparr>)" using net by (simp add: same_frame_def)
    ultimately have "durable_inv holds e i (st\<lparr>du_c := ?c0, du_call := k', du_c := ?c0\<lparr>kc_net := net\<rparr>, du_stage := du_stage st\<rparr>)"
      by (intro durable_inv_frame) simp_all
    then have end_inv: "durable_inv holds e i (st\<lparr>du_c := ?c0\<lparr>kc_net := net\<rparr>, du_call := k'\<rparr>)" by (simp add: durable_inv_def)
    have "st' = st\<lparr>du_c := ?c0\<lparr>kc_net := net\<rparr>, du_call := k'\<rparr>" by (rule durable.equality) (simp_all add: st')
    then show ?thesis using end_inv by (simp only:)
  qed
qed

context server_type
begin

lemma du_exec_durable:
  assumes "durable_inv holds e i st" "du_exec ops zero cd holds ev st = Some st'"
  shows "durable_inv holds e i st'"
proof (cases ev)
  case (Own a q)
  then show ?thesis using own_durable [OF assms(1)] assms(2) by simp
next
  case (Save p q)
  then show ?thesis using save_durable [OF assms(1)] assms(2) by (auto simp: Let_def split: if_splits)
next
  case (Isolate j)
  then obtain c' where c': "disconnectUnlocked j (kc_All (du_c st)) (du_c st) = Inr c'" "st' = st\<lparr>du_c := c', du_stage := (du_stage st)(j := Isolated)\<rparr>"
    using assms(2) by (auto elim: du_shutE)
  show ?thesis unfolding c'(2) by (rule durable_inv_frame [OF assms(1) disconnectUnlocked_frame [OF c'(1)]]) (auto split: if_splits)
next
  case (Delete j)
  then show ?thesis using delete_durable [OF assms(1)] assms(2) by (auto elim: du_shutE)
next
  case (Supersede j)
  then obtain c' where "shut_supersede j (du_c st) = Inr c'" "du_stage st j = Deleted" "st' = st\<lparr>du_c := c', du_stage := (du_stage st)(j := Superseded)\<rparr>"
    using assms(2) by (auto elim: du_shutE)
  then show ?thesis using supersede_durable [OF assms(1)] by simp
next
  case (KillServer j)
  then obtain c' where c': "shut_kill ops j (du_c st) = Inr c'" "st' = st\<lparr>du_c := c', du_stage := (du_stage st)(j := Up)\<rparr>"
    using assms(2) by (auto elim: du_shutE)
  show ?thesis unfolding c'(2) by (rule durable_inv_frame [OF assms(1) shut_kill_frame [OF c'(1)]]) (auto split: if_splits)
next
  case (Restart j names)
  then show ?thesis using restart_durable [OF assms(1)] assms(2) by simp
next
  case (Toggle e' b)
  have "same_frame (du_c st) ((du_c st)\<lparr>kc_net := Enable e' b (kc_net (du_c st))\<rparr>)" by (simp add: same_frame_def Enable_def)
  from durable_inv_frame [OF assms(1) this, of "du_stage st"] show ?thesis using Toggle assms(2) by simp
qed

lemma du_run_durable:
  "du_run ops zero cd holds evs st = Some st' \<Longrightarrow> durable_inv holds e i st \<Longrightarrow> durable_inv holds e i st'"
  by (induction evs arbitrary: st) (auto simp: bind_eq_Some_conv dest: du_exec_durable)

end

section \<open>The start\<close>

definition live_pers :: "('v, 's) server_ops \<Rightarrow> ('v, 's) cluster \<Rightarrow> nat \<rightharpoonup> nat" where
  "live_pers ops c a = (if Some a \<in> set (kc_servers c) then map_option rf_persister (peer_of ops c a) else None)"

definition durable_start :: "('v, 's) server_ops \<Rightarrow> ('v, 's) cluster \<Rightarrow> (name, 'v) call \<Rightarrow> ('v, 's) durable" where
  "durable_start ops c k = \<lparr>du_c = c, du_call = k, du_stage = (\<lambda>_. Up), du_pers = live_pers ops c\<rparr>"

definition registered :: "('v, 's) cluster \<Rightarrow> bool" where
  "registered c \<longleftrightarrow> (\<forall>j a. nw_servers (kc_net c) (ServerName j) = Some a \<longrightarrow> j < length (kc_servers c) \<and> kc_servers c ! j = Some a)"

lemma StartServer_registered:
  assumes "StartServer ops zero names i c = Inr c'" "registered c"
  shows "registered c'"
proof -
  from StartServer_result [OF assms(1)] obtain rows c1 q where o: "only_ends (c\<lparr>kc_endnames := rows\<rparr>) c1" and i: "i < length (kc_servers c)"
    and c': "c' = with_server ops zero names i q c c1" .
  have "nw_servers (kc_net c') = (nw_servers (kc_net c))(ServerName i := Some (kc_brk c + 2))" "kc_servers c' = (kc_servers c)[i := Some (kc_brk c + 2)]"
    using only_endsD [OF o] by (simp_all add: c' with_server_def AddServer_def same_hosts_def)
  then show ?thesis using assms(2) i by (auto simp: registered_def nth_list_update)
qed

lemma start_all_registered:
  "foldE (\<lambda>i. StartServer ops zero (draws i) i) is c = Inr c' \<Longrightarrow> registered c \<Longrightarrow> registered c'"
  by (induction "is" arbitrary: c) (auto elim!: bindE_InrE dest: StartServer_registered)

lemma new_config_registered:
  assumes "kc_make_config ops zero draws n unreliable maxraftstate net = Inr c" "fresh_draws draws n" "nw_ends net = {}" "nw_servers net = (\<lambda>_. None)"
  shows "registered c"
proof -
  from new_config_steps [OF assms(1-3)] obtain c1 sw
    where c1: "foldE (\<lambda>i. StartServer ops zero (draws i) i) [0..<n] (empty_cluster n maxraftstate net) = Inr c1"
      and c: "c = (switched c1 sw)\<lparr>kc_net := Reliable (\<not> unreliable) (kc_net (switched c1 sw))\<rparr>" .
  have "registered c1" by (rule start_all_registered [OF c1]) (simp add: registered_def empty_cluster_def assms(4))
  then show ?thesis using only_endsD [OF switched_only [of c1 sw]]
    by (simp add: registered_def c Reliable_def same_hosts_def) (simp add: switched_def)
qed

text \<open>A new client changes ends and counters only, and its ends lead to the servers.\<close>

lemma make_ends_exist:
  assumes "foldE (kc_make_end names) [0..<m] c = Inr c'" "j < m" "m \<le> length names"
  shows "EndName (names ! j) \<in> nw_ends (kc_net c')"
  using assms
proof (induction m arbitrary: c')
  case (Suc m)
  then obtain c1 where c1: "foldE (kc_make_end names) [0..<m] c = Inr c1" "kc_make_end names m c1 = Inr c'"
    by (auto simp: foldE_append elim!: bindE_InrE)
  have "nw_ends (kc_net c') = insert (EndName (names ! m)) (nw_ends (kc_net c1))"
    using c1(2) Suc.prems(3) by (auto simp: kc_make_end_def MakeEnd_def Connect_def elim!: bindE_InrE split: if_splits)
  then show ?case using Suc.IH [OF c1(1)] Suc.prems by (cases "j = m") auto
qed simp

lemma makeClient_frame:
  assumes "makeClient names draw to c = Inr (a, ck, c')" "length names = kc_n c" "distinct names" "i < kc_n c"
  shows "same_hosts (kc_net c) (kc_net c')" "kc_saved c' = kc_saved c" "kc_servers c' = kc_servers c" "kc_brk c' = Suc (kc_brk c)"
    "end_leads (kc_net c') (EndName (names ! i)) i"
proof -
  obtain c1 where c1: "foldE (kc_make_end names) [0..<kc_n c] c = Inr c1"
    and con: "ConnectClientUnlocked (kc_brk c1) to (c1\<lparr>kc_clerks := (kc_clerks c1)(kc_brk c1 \<mapsto> take (kc_n c1) names),
        kc_nextClientId := kc_nextClientId c1 + 1, kc_brk := Suc (kc_brk c1)\<rparr>) = Inr c'"
    using assms(1) by (auto simp: makeClient_def Let_def elim!: bindE_InrE)
  define c2 where "c2 = c1\<lparr>kc_clerks := (kc_clerks c1)(kc_brk c1 \<mapsto> take (kc_n c1) names),
        kc_nextClientId := kc_nextClientId c1 + 1, kc_brk := Suc (kc_brk c1)\<rparr>"
  have o: "only_ends c c1" using only_ends_foldE [OF c1] kc_make_end_only by blast
  define net where "net = kc_net c1"
  have c1': "c1 = c\<lparr>kc_net := net\<rparr>" "same_hosts (kc_net c) net" using o by (simp_all add: only_ends_def net_def)
  have fold: "foldE (\<lambda>t c. bindE (slice_get (clerk_names c2 (kc_brk c1)) t) (\<lambda>s. Inr (kc_enable True s c))) to c2 = Inr c'"
    using con by (simp add: ConnectClientUnlocked_def c2_def)
  have f: "same_frame c2 c'" by (rule same_frame_foldE [OF fold]) (auto elim!: bindE_InrE)
  have o2: "only_ends c2 c'"
    by (rule only_ends_foldE [OF fold]) (auto elim!: bindE_InrE simp: kc_enable_def)
  define net' where "net' = kc_net c'"
  have c'': "c' = c2\<lparr>kc_net := net'\<rparr>" "same_hosts (kc_net c2) net'" using o2 by (simp_all add: only_ends_def net'_def)
  have "kc_net c2 = net" by (simp add: c2_def c1')
  then show "same_hosts (kc_net c) (kc_net c')" using c'' c1'(2) same_hosts_trans by (simp add: net'_def)
  show "kc_saved c' = kc_saved c" "kc_servers c' = kc_servers c" "kc_brk c' = Suc (kc_brk c)"
    by (simp_all add: c''(1) c2_def c1'(1))
  have "end_leads (kc_net c1) (EndName (names ! i)) i"
    using make_ends_exist [OF c1 assms(4)] make_ends_connected [OF c1 _ assms(3,4)] assms(2) by (simp add: end_leads_def)
  moreover have "kc_net c2 = kc_net c1" by (simp add: c2_def)
  ultimately show "end_leads (kc_net c') (EndName (names ! i)) i" using f by (simp add: end_leads_def same_frame_def)
qed

context server_type
begin

lemma new_client_durable:
  assumes "kc_make_config ops zero draws n unreliable maxraftstate net = Inr c" "fresh_draws draws n" "nw_ends net = {}" "nw_servers net = (\<lambda>_. None)"
    and "makeClient names draw to c = Inr (a, ck, c')" "length names = n" "distinct names" "i < n" "fresh_call k"
    and "rq_endname (cl_req k) = EndName (names ! i)"
  shows "durable_inv holds (EndName (names ! i)) i (durable_start ops c' k)"
proof -
  have n: "kc_n c = n" using kc_make_config_ok [OF assms(2,3)] assms(1) by (metis sum.inject(2))
  note m = makeClient_frame [OF assms(5) _ assms(7), unfolded n, OF assms(6,8)]
  note new = new_config_running [OF assms(1-3)]
  have "nw_objs (kc_net c') = nw_objs (kc_net c)" using m(1) by (simp add: same_hosts_def)
  then have objs: "peer_of ops c' = peer_of ops c" by (intro ext) (simp add: peer_of_def split: object.splits)
  have live: "\<exists>p. live_pers ops c' b = Some p \<and> saved_at c' j = Some p \<and> b < kc_brk c' \<and> p < kc_brk c'"
    if "j < n" "kc_servers c ! j = Some b" for j b
  proof -
    obtain b' p where r: "running ops c j b' p" using new(1) \<open>j < n\<close> by (auto simp: all_running_def)
    then have b: "b' = b" "kc_saved c ! j = Some p" "b < kc_brk c" "p < kc_brk c" using that(2) by (auto simp: running_def)
    obtain rf where "peer_of ops c b = Some rf" "rf_persister rf = p" using running_peer [OF r] b(1) by blast
    moreover have "Some b \<in> set (kc_servers c)" using that new(3) by (metis nth_mem)
    ultimately have "live_pers ops c' b = Some p" by (simp add: live_pers_def objs m(3))
    then show ?thesis using b new(2) \<open>j < n\<close> m(2,4) by (simp add: saved_at_def)
  qed
  have "config_ok c' (live_pers ops c')"
    unfolding config_ok_def
  proof (intro conjI allI impI)
    fix j b assume "nw_servers (kc_net c') (ServerName j) = Some b"
    then have "j < n" "kc_servers c ! j = Some b"
      using new_config_registered [OF assms(1-4)] m(1) new(3) by (auto simp: registered_def same_hosts_def)
    then show "\<exists>p. live_pers ops c' b = Some p \<and> saved_at c' j = Some p" using live by blast
  next
    fix b p assume p: "live_pers ops c' b = Some p"
    then obtain j where "j < n" "kc_servers c ! j = Some b" using new(3) by (auto simp: live_pers_def m(3) in_set_conv_nth split: if_splits)
    then show "b < kc_brk c'" "p < kc_brk c'" using live p by fastforce+
  next
    fix j p assume p: "saved_at c' j = Some p"
    then have "j < n" using new(2) m(2) by (auto simp: saved_at_def split: if_splits)
    then obtain b q where "running ops c j b q" using new(1) by (auto simp: all_running_def)
    then show "p < kc_brk c'" using p \<open>j < n\<close> new(2) m(2,4) by (auto simp: saved_at_def running_def)
  qed
  moreover have "call_inv [] k" using assms(9) by (simp add: call_inv_def fresh_call_def runs_def)
  ultimately show ?thesis using assms(9,10) m(5) by (auto simp: durable_inv_def durable_start_def stages_ok_def fresh_call_def)
qed

text \<open>The answer is positive: the saved persister holds what the handler has saved.\<close>

lemma positive_reply_saved:
  assumes "durable_inv holds e i st" "cl_phase (du_call st) = Replied r" "rp_ok r"
  shows "\<exists>p. kc_saved (du_c st) ! i = Some p \<and> holds (kc_persisters (du_c st) p)"
  using assms by (auto simp: durable_inv_def pers_holds_def saved_at_def split: if_splits)

end

end
