(* ===== verification/Shardctrler_Config.thy ===== *)
theory Shardctrler_Config
  imports Shards
begin

text \<open>
  The rest of \<^verbatim>\<open>shardctrler/config.go\<close>.  Its operations on connections, clients, leaders and sizes are, statement by statement,
  those of \<^verbatim>\<open>kvraft/config.go\<close> on a slice of \<^verbatim>\<open>ShardCtrler\<close> instead of \<^verbatim>\<open>KVServer\<close>; here they are at that type.  The
  clerk is the one of \<^verbatim>\<open>shardctrler/client.go\<close>, so that \<open>ctrler_makeClient\<close> is a definition of its own; the lemmas \<open>ctrler_same\<close> and
  \<open>ctrler_makeClient_eq\<close> carry what is proved of the one file over to the other.
\<close>

type_synonym 'v ctrler_config = "('v, ShardCtrler) cluster"

section \<open>Connections\<close>

definition ctrler_connectUnlocked :: "nat \<Rightarrow> nat list \<Rightarrow> 'v ctrler_config \<Rightarrow> 'v ctrler_config result" where
  "ctrler_connectUnlocked = connectUnlocked"

definition ctrler_connect :: "nat \<Rightarrow> nat list \<Rightarrow> 'v ctrler_config \<Rightarrow> 'v ctrler_config result" where
  "ctrler_connect i to c = ctrler_connectUnlocked i to c"

text \<open>As in \<^verbatim>\<open>kvraft\<close>, the second loop tests the row of the position and not of the server.\<close>

definition ctrler_disconnectUnlocked :: "nat \<Rightarrow> nat list \<Rightarrow> 'v ctrler_config \<Rightarrow> 'v ctrler_config result" where
  "ctrler_disconnectUnlocked = disconnectUnlocked"

definition ctrler_disconnect :: "nat \<Rightarrow> nat list \<Rightarrow> 'v ctrler_config \<Rightarrow> 'v ctrler_config result" where
  "ctrler_disconnect i from c = ctrler_disconnectUnlocked i from c"

definition ctrler_All :: "'v ctrler_config \<Rightarrow> nat list" where
  "ctrler_All c = map (\<lambda>i. i) [0..<kc_n c]"

definition ctrler_ConnectAll :: "'v ctrler_config \<Rightarrow> 'v ctrler_config result" where
  "ctrler_ConnectAll c = foldE (\<lambda>i c. ctrler_connectUnlocked i (ctrler_All c) c) [0..<kc_n c] c"

definition ctrler_partition :: "nat list \<Rightarrow> nat list \<Rightarrow> 'v ctrler_config \<Rightarrow> 'v ctrler_config result" where
  "ctrler_partition p1 p2 c =
     bindE (foldE (\<lambda>i c. bindE (ctrler_disconnectUnlocked i p2 c) (ctrler_connectUnlocked i p1)) p1 c) (\<lambda>c.
     foldE (\<lambda>i c. bindE (ctrler_disconnectUnlocked i p1 c) (ctrler_connectUnlocked i p2)) p2 c)"

section \<open>Clients\<close>

definition ctrler_random_handles :: "(nat \<Rightarrow> nat) \<Rightarrow> name list \<Rightarrow> name list" where
  "ctrler_random_handles draw kvh = fold (\<lambda>i sa. swap_at sa i (draw i mod (i + 1))) [0..<length kvh] kvh"

definition ctrler_ConnectClientUnlocked :: "nat \<Rightarrow> nat list \<Rightarrow> 'v ctrler_config \<Rightarrow> 'v ctrler_config result" where
  "ctrler_ConnectClientUnlocked = ConnectClientUnlocked"

definition ctrler_ConnectClient :: "nat \<Rightarrow> nat list \<Rightarrow> 'v ctrler_config \<Rightarrow> 'v ctrler_config result" where
  "ctrler_ConnectClient ck to c = ctrler_ConnectClientUnlocked ck to c"

definition ctrler_DisconnectClientUnlocked :: "nat \<Rightarrow> nat list \<Rightarrow> 'v ctrler_config \<Rightarrow> 'v ctrler_config result" where
  "ctrler_DisconnectClientUnlocked = DisconnectClientUnlocked"

definition ctrler_DisconnectClient :: "nat \<Rightarrow> nat list \<Rightarrow> 'v ctrler_config \<Rightarrow> 'v ctrler_config result" where
  "ctrler_DisconnectClient ck from c = ctrler_DisconnectClientUnlocked ck from c"

definition ctrler_makeClient ::
    "string list \<Rightarrow> (nat \<Rightarrow> nat) \<Rightarrow> nat list \<Rightarrow> 'v ctrler_config \<Rightarrow> (nat \<times> name ctrler_clerk \<times> 'v ctrler_config) result" where
  "ctrler_makeClient names draw to c =
     bindE (foldE (kc_make_end names) [0..<kc_n c] c) (\<lambda>c.
     let endnames = take (kc_n c) names;
         ck = ctrler_MakeClerk (ctrler_random_handles draw (map EndName endnames));
         a = kc_brk c;
         c = c\<lparr>kc_clerks := (kc_clerks c)(a \<mapsto> endnames), kc_nextClientId := kc_nextClientId c + 1, kc_brk := Suc a\<rparr> in
     bindE (ctrler_ConnectClientUnlocked a to c) (\<lambda>c. Inr (a, ck, c)))"

definition ctrler_deleteClient :: "nat \<Rightarrow> 'v ctrler_config \<Rightarrow> 'v ctrler_config" where
  "ctrler_deleteClient ck c = c\<lparr>kc_clerks := (kc_clerks c)(ck := None)\<rparr>"

section \<open>Sizes, leader, partition\<close>

definition ctrler_LogSize :: "'v ctrler_config \<Rightarrow> nat result" where
  "ctrler_LogSize c = max_size RaftStateSize c [0..<kc_n c] 0"

text \<open>\<open>gs i\<close> is what \<^verbatim>\<open>cfg.servers[i].rf.GetState()\<close> returns.\<close>

definition ctrler_Leader :: "(nat \<Rightarrow> int \<times> bool) \<Rightarrow> 'v ctrler_config \<Rightarrow> (bool \<times> nat) result" where
  "ctrler_Leader gs c = Leader_loop gs (kc_servers c) [0..<kc_n c]"

definition ctrler_make_partition :: "(nat \<Rightarrow> int \<times> bool) \<Rightarrow> 'v ctrler_config \<Rightarrow> (nat list \<times> nat list) result" where
  "ctrler_make_partition gs c =
     bindE (ctrler_Leader gs c) (\<lambda>(_, l).
     let p1 = replicate (kc_n c div 2 + 1) 0; p2 = replicate (kc_n c div 2) 0 in
     bindE (foldE (partition_step l) [0..<kc_n c] (p1, p2, 0)) (\<lambda>(p1, p2, j).
     bindE (int_set p2 (int (length p2) - 1) l) (\<lambda>p2.
     Inr (p1, p2))))"

section \<open>The two configurations\<close>

lemma ctrler_same:
  "ctrler_ConnectAll = ConnectAll" "ctrler_partition = cluster_partition" "ctrler_random_handles = random_handles"
  "ctrler_LogSize = kc_LogSize" "ctrler_Leader = Leader" "ctrler_make_partition = make_partition"
  by (simp_all add: fun_eq_iff ctrler_ConnectAll_def ConnectAll_def ctrler_connectUnlocked_def ctrler_All_def kc_All_def
      ctrler_partition_def cluster_partition_def ctrler_disconnectUnlocked_def ctrler_random_handles_def random_handles_def
      ctrler_LogSize_def kc_LogSize_def ctrler_Leader_def Leader_def ctrler_make_partition_def make_partition_def)

lemma ctrler_makeClient_eq:
  "ctrler_makeClient names draw to c = bindE (makeClient names draw to c) (\<lambda>(a, ck, c). Inr (a, ctrler_MakeClerk (ck_servers ck), c))"
  by (simp add: ctrler_makeClient_def makeClient_def ctrler_same ctrler_ConnectClientUnlocked_def MakeClerk_def bindE_def Let_def
      split: sum.splits)

end
