(* ===== verification/Shardkv_Config.thy ===== *)
theory Shardkv_Config
  imports Shards
begin

text \<open>
  \<^verbatim>\<open>shardkv/config.go\<close>: the test configuration of the sharded key/value service, with a replicated shard controller and several
  groups of servers on one network.  Ends and servers are named by strings.  The random names come from a sequence that is
  part of the state; persisters, peers, servers and clerks are at addresses handed out by one counter.
\<close>

section \<open>State\<close>

datatype skv_object = KvObj "string ShardKV" | CtrlerObj ShardCtrler | PeerObj "string raft"

record group =
  gp_gid :: int
  gp_servers :: "nat option list"
  gp_saved :: "nat option list"
  gp_endnames :: "string list option list"
  gp_mendnames :: "string list option list"

record 'v skv_config =
  sg_net :: "(string, 'v, skv_object) network"
  sg_nctrlers :: nat
  sg_ctrlerservers :: "nat option list"
  sg_mck :: "string ctrler_clerk"
  sg_ngroups :: nat
  sg_n :: nat
  sg_groups :: "group option list"
  sg_clerks :: "nat \<rightharpoonup> string list"
  sg_nextClientId :: int
  sg_maxraftstate :: int
  sg_persisters :: "nat \<Rightarrow> Persister"
  sg_brk :: nat
  sg_rand :: "nat \<Rightarrow> string"
  sg_drawn :: nat

text \<open>\<^verbatim>\<open>randstring(20)\<close>: the next name of the sequence.\<close>

definition draw_name :: "'v skv_config \<Rightarrow> string \<times> 'v skv_config" where
  "draw_name c = (sg_rand c (sg_drawn c), c\<lparr>sg_drawn := Suc (sg_drawn c)\<rparr>)"

definition ctrlername :: "nat \<Rightarrow> string" where
  "ctrlername i = ''ctrler'' @ itoa i"

text \<open>Group numbers are positive: 100 and above.\<close>

definition servername :: "int \<Rightarrow> nat \<Rightarrow> string" where
  "servername gid i = ''server-'' @ itoa (nat gid) @ ''-'' @ itoa i"

definition get_group :: "nat \<Rightarrow> 'v skv_config \<Rightarrow> group result" where
  "get_group gi c =
     bindE (slice_get (sg_groups c) gi) (\<lambda>gg. case gg of None \<Rightarrow> Inl NilDereference | Some g \<Rightarrow> Inr g)"

text \<open>A change of the group behind the pointer \<^verbatim>\<open>cfg.groups[gi]\<close>.\<close>

definition put_group :: "nat \<Rightarrow> group \<Rightarrow> 'v skv_config \<Rightarrow> 'v skv_config" where
  "put_group gi gg c = c\<lparr>sg_groups := (sg_groups c)[gi := Some gg]\<rparr>"

section \<open>Ends\<close>

text \<open>\<^verbatim>\<open>MakeEnd\<close>, \<^verbatim>\<open>Connect\<close> and \<^verbatim>\<open>Enable\<close> in a row, which all functions here use.\<close>

definition link_end :: "string \<Rightarrow> string \<Rightarrow> 'v skv_config \<Rightarrow> 'v skv_config result" where
  "link_end nm target c =
     bindE (MakeEnd nm (sg_net c)) (\<lambda>net. Inr (c\<lparr>sg_net := Enable nm True (Connect nm target net)\<rparr>))"

text \<open>The function passed to clerks and servers as \<^verbatim>\<open>make_end\<close>.\<close>

definition config_make_end :: "string \<Rightarrow> 'v skv_config \<Rightarrow> (string \<times> 'v skv_config) result" where
  "config_make_end target c =
     (case draw_name c of (nm, c) \<Rightarrow> bindE (link_end nm target c) (\<lambda>c. Inr (nm, c)))"

text \<open>The loop over the controllers in \<^verbatim>\<open>StartServer\<close>, \<^verbatim>\<open>StartCtrlerserver\<close> and \<^verbatim>\<open>shardclerk\<close>.\<close>

fun ctrler_ends :: "nat list \<Rightarrow> 'v skv_config \<Rightarrow> (string list \<times> 'v skv_config) result" where
  "ctrler_ends [] c = Inr ([], c)"
| "ctrler_ends (j # js) c =
     bindE (config_make_end (ctrlername j) c) (\<lambda>(nm, c).
     bindE (ctrler_ends js c) (\<lambda>(nms, c). Inr (nm # nms, c)))"

definition shardclerk :: "'v skv_config \<Rightarrow> (string ctrler_clerk \<times> 'v skv_config) result" where
  "shardclerk c = bindE (ctrler_ends [0..<sg_nctrlers c] c) (\<lambda>(ends, c). Inr (ctrler_MakeClerk ends, c))"

section \<open>Clients\<close>

text \<open>The slice \<^verbatim>\<open>endnames\<close> has \<^verbatim>\<open>cfg.n\<close> elements, but one is assigned for each controller.\<close>

definition client_end :: "nat \<Rightarrow> string list \<times> string list \<times> 'v skv_config \<Rightarrow> (string list \<times> string list \<times> 'v skv_config) result" where
  "client_end j = (\<lambda>(endnames, ends, c).
     case draw_name c of (nm, c) \<Rightarrow>
     bindE (slice_set endnames j nm) (\<lambda>endnames.
     bindE (link_end nm (ctrlername j) c) (\<lambda>c.
     Inr (endnames, ends @ [nm], c))))"

text \<open>The clerk is returned as the list of its controller ends, with its address; its \<^verbatim>\<open>make_end\<close> is \<open>config_make_end\<close>.\<close>

definition skv_makeClient :: "'v skv_config \<Rightarrow> (nat \<times> string ctrler_clerk \<times> 'v skv_config) result" where
  "skv_makeClient c =
     bindE (foldE client_end [0..<sg_nctrlers c] (replicate (sg_n c) [], [], c)) (\<lambda>(endnames, ends, c).
     let a = sg_brk c in
     Inr (a, ctrler_MakeClerk ends,
       c\<lparr>sg_brk := Suc a, sg_clerks := (sg_clerks c)(a \<mapsto> endnames), sg_nextClientId := sg_nextClientId c + 1\<rparr>))"

definition skv_deleteClient :: "nat \<Rightarrow> 'v skv_config \<Rightarrow> 'v skv_config" where
  "skv_deleteClient ck c = c\<lparr>sg_clerks := (sg_clerks c)(ck := None)\<rparr>"

section \<open>Shutting down\<close>

definition kill_peer :: "nat \<Rightarrow> (nat \<Rightarrow> skv_object) \<Rightarrow> (nat \<Rightarrow> skv_object)" where
  "kill_peer r objs = (case objs r of PeerObj rf \<Rightarrow> objs(r := PeerObj (Raft_Kill rf)) | _ \<Rightarrow> objs)"

text \<open>\<^verbatim>\<open>ShardKV.Kill\<close> and \<^verbatim>\<open>ShardCtrler.Kill\<close>: the Raft peer is killed.\<close>

definition skv_Kill :: "nat \<Rightarrow> 'v skv_config \<Rightarrow> 'v skv_config" where
  "skv_Kill a c =
     (let net = sg_net c in
      case nw_objs net a of
        KvObj kv \<Rightarrow> c\<lparr>sg_net := net\<lparr>nw_objs := kill_peer (sk_rf kv) (nw_objs net)\<rparr>\<rparr>
      | CtrlerObj sc \<Rightarrow> c\<lparr>sg_net := net\<lparr>nw_objs := kill_peer (sc_rf sc) (nw_objs net)\<rparr>\<rparr>
      | PeerObj _ \<Rightarrow> c)"

definition skv_new_persister :: "Persister \<Rightarrow> 'v skv_config \<Rightarrow> nat \<times> 'v skv_config" where
  "skv_new_persister p c =
     (sg_brk c, c\<lparr>sg_persisters := (sg_persisters c)(sg_brk c := p), sg_brk := Suc (sg_brk c)\<rparr>)"

definition skv_disable :: "string \<Rightarrow> 'v skv_config \<Rightarrow> 'v skv_config" where
  "skv_disable nm c = c\<lparr>sg_net := Enable nm False (sg_net c)\<rparr>"

definition skv_ShutdownServer :: "nat \<Rightarrow> nat \<Rightarrow> 'v skv_config \<Rightarrow> 'v skv_config result" where
  "skv_ShutdownServer gi i c =
     bindE (get_group gi c) (\<lambda>gg.
     bindE (foldE (\<lambda>j c.
         bindE (slice_get (gp_endnames gg) i) (\<lambda>row.
         bindE (slice_get (case row of None \<Rightarrow> [] | Some es \<Rightarrow> es) j) (\<lambda>nm. Inr (skv_disable nm c))))
       [0..<length (gp_servers gg)] c) (\<lambda>c.
     bindE (slice_get (gp_mendnames gg) i) (\<lambda>row.
     let c = fold skv_disable (case row of None \<Rightarrow> [] | Some es \<Rightarrow> es) c;
         c = c\<lparr>sg_net := DeleteServer (servername (gp_gid gg) i) (sg_net c)\<rparr> in
     bindE (slice_get (gp_saved gg) i) (\<lambda>saved.
     let (gg, c) = (case saved of
           None \<Rightarrow> (gg, c)
         | Some a \<Rightarrow> (case skv_new_persister (Persister_Copy (sg_persisters c a)) c of
             (p, c) \<Rightarrow> (gg\<lparr>gp_saved := (gp_saved gg)[i := Some p]\<rparr>, c))) in
     bindE (slice_get (gp_servers gg) i) (\<lambda>kv.
     case kv of
       None \<Rightarrow> Inr (put_group gi gg c)
     | Some a \<Rightarrow> Inr (put_group gi (gg\<lparr>gp_servers := (gp_servers gg)[i := None]\<rparr>) (skv_Kill a c)))))))"

definition ShutdownGroup :: "nat \<Rightarrow> 'v skv_config \<Rightarrow> 'v skv_config result" where
  "ShutdownGroup gi c = foldE (\<lambda>i c. skv_ShutdownServer gi i c) [0..<sg_n c] c"

definition skv_cleanup :: "test_state \<Rightarrow> 'v skv_config \<Rightarrow> 'v skv_config result" where
  "skv_cleanup t c =
     bindE (foldE ShutdownGroup [0..<sg_ngroups c] c) (\<lambda>c.
     bindE (foldE (\<lambda>i c.
         bindE (slice_get (sg_ctrlerservers c) i) (\<lambda>s.
         case s of None \<Rightarrow> Inl NilDereference | Some a \<Rightarrow> Inr (skv_Kill a c))) [0..<sg_nctrlers c] c) (\<lambda>c.
     bindE (Cleanup (sg_net c)) (\<lambda>net.
     bindE (checkTimeout t) (\<lambda>_. Inr (c\<lparr>sg_net := net\<rparr>)))))"

section \<open>Starting\<close>

fun draw_names :: "nat \<Rightarrow> 'v skv_config \<Rightarrow> string list \<times> 'v skv_config" where
  "draw_names 0 c = ([], c)"
| "draw_names (Suc k) c =
     (case draw_name c of (nm, c) \<Rightarrow> case draw_names k c of (nms, c) \<Rightarrow> (nm # nms, c))"

definition obj_method ::
    "(skv_object \<Rightarrow> 's option) \<Rightarrow> ('s \<Rightarrow> skv_object) \<Rightarrow> string \<Rightarrow> ('s \<Rightarrow> 'v \<Rightarrow> 'v \<times> 's) \<Rightarrow> ('v, skv_object) rpc_method" where
  "obj_method get put nm f =
     \<lparr>mt_Name = nm, mt_PkgPath = [], mt_NumIn = 3, mt_In2_Ptr = True, mt_NumOut = 0,
      mt_Func = (\<lambda>rcvr args. case get rcvr of
        Some s \<Rightarrow> (case f s args of (v, s) \<Rightarrow> Inr (v, put s)) | None \<Rightarrow> Inl TypeAssertion)\<rparr>"

definition peer_methods :: "'v \<Rightarrow> ('v, skv_object) rpc_method list" where
  "peer_methods zero =
     [plain_method ''CondInstallSnapshot'' 4 1, plain_method ''GetState'' 1 2, plain_method ''Kill'' 1 0,
      obj_method (\<lambda>x. case x of PeerObj rf \<Rightarrow> Some rf | _ \<Rightarrow> None) PeerObj ''RequestVote'' (\<lambda>rf args. RequestVote rf args zero),
      plain_method ''Snapshot'' 3 0, plain_method ''Start'' 2 3]"

definition shardkv_methods :: "'v \<Rightarrow> ('v, skv_object) rpc_method list" where
  "shardkv_methods zero =
     [obj_method (\<lambda>x. case x of KvObj kv \<Rightarrow> Some kv | _ \<Rightarrow> None) KvObj ''Get'' (\<lambda>kv args. ShardKV_Get kv args zero),
      plain_method ''Kill'' 1 0,
      obj_method (\<lambda>x. case x of KvObj kv \<Rightarrow> Some kv | _ \<Rightarrow> None) KvObj ''PutAppend'' (\<lambda>kv args. ShardKV_PutAppend kv args zero)]"

definition ctrler_methods :: "'v \<Rightarrow> ('v, skv_object) rpc_method list" where
  "ctrler_methods zero =
     [obj_method (\<lambda>x. case x of CtrlerObj sc \<Rightarrow> Some sc | _ \<Rightarrow> None) CtrlerObj ''Join'' (\<lambda>sc args. ShardCtrler_Join sc args zero),
      plain_method ''Kill'' 1 0,
      obj_method (\<lambda>x. case x of CtrlerObj sc \<Rightarrow> Some sc | _ \<Rightarrow> None) CtrlerObj ''Leave'' (\<lambda>sc args. ShardCtrler_Leave sc args zero),
      obj_method (\<lambda>x. case x of CtrlerObj sc \<Rightarrow> Some sc | _ \<Rightarrow> None) CtrlerObj ''Move'' (\<lambda>sc args. ShardCtrler_Move sc args zero),
      obj_method (\<lambda>x. case x of CtrlerObj sc \<Rightarrow> Some sc | _ \<Rightarrow> None) CtrlerObj ''Query'' (\<lambda>sc args. ShardCtrler_Query sc args zero),
      plain_method ''Raft'' 1 1]"

text \<open>
  The last lines of both functions that start a server: the peer at \<open>r\<close> and the server at \<open>Suc r\<close>, both services, and the
  network server, which is at the address of the server object.
\<close>

definition install ::
    "string \<Rightarrow> string \<Rightarrow> ('v, skv_object) rpc_method list \<Rightarrow> 'v \<Rightarrow> string raft \<Rightarrow> skv_object \<Rightarrow> 'v skv_config \<Rightarrow> 'v skv_config" where
  "install sname tname ms zero rf obj c =
     (let r = sg_brk c; a = Suc r; net = sg_net c;
          srv = AddService (AddService MakeServer (MakeService tname a ms)) (MakeService ''Raft'' r (peer_methods zero));
          net = net\<lparr>nw_objs := (nw_objs net)(r := PeerObj rf, a := obj), nw_store := (nw_store net)(a := srv)\<rparr>
      in c\<lparr>sg_brk := Suc a, sg_net := AddServer sname a net\<rparr>)"

definition skv_StartServer :: "'v \<Rightarrow> nat \<Rightarrow> nat \<Rightarrow> 'v skv_config \<Rightarrow> 'v skv_config result" where
  "skv_StartServer zero gi i c =
     bindE (get_group gi c) (\<lambda>gg.
     bindE (slice_set (gp_endnames gg) i None) (\<lambda>_.
     case draw_names (sg_n c) c of (names, c) \<Rightarrow>
     let gg = gg\<lparr>gp_endnames := (gp_endnames gg)[i := Some names]\<rparr> in
     bindE (foldE (\<lambda>j. link_end (names ! j) (servername (gp_gid gg) j)) [0..<sg_n c] c) (\<lambda>c.
     bindE (slice_set (gp_mendnames gg) i None) (\<lambda>_.
     bindE (ctrler_ends [0..<sg_nctrlers c] c) (\<lambda>(mends, c).
     let gg = gg\<lparr>gp_mendnames := (gp_mendnames gg)[i := Some mends]\<rparr> in
     bindE (slice_get (gp_saved gg) i) (\<lambda>saved.
     case skv_new_persister (case saved of Some a \<Rightarrow> Persister_Copy (sg_persisters c a) | None \<Rightarrow> MakePersister) c of (p, c) \<Rightarrow>
     let gg = gg\<lparr>gp_saved := (gp_saved gg)[i := Some p]\<rparr>;
         r = sg_brk c;
         rf = Raft_Make names i (sg_persisters c) p;
         kv = shardkv_StartServer i (sg_maxraftstate c) (gp_gid gg) mends r in
     bindE (slice_set (gp_servers gg) i (Some (Suc r))) (\<lambda>ss.
     let gg = gg\<lparr>gp_servers := ss\<rparr> in
     Inr (put_group gi gg (install (servername (gp_gid gg) i) ''ShardKV'' (shardkv_methods zero) zero rf (KvObj kv) c)))))))))"

definition StartGroup :: "'v \<Rightarrow> nat \<Rightarrow> 'v skv_config \<Rightarrow> 'v skv_config result" where
  "StartGroup zero gi c = foldE (skv_StartServer zero gi) [0..<sg_n c] c"

definition StartCtrlerserver :: "'v \<Rightarrow> nat \<Rightarrow> 'v skv_config \<Rightarrow> 'v skv_config result" where
  "StartCtrlerserver zero i c =
     bindE (ctrler_ends [0..<sg_nctrlers c] c) (\<lambda>(ends, c).
     case skv_new_persister MakePersister c of (p, c) \<Rightarrow>
     let r = sg_brk c;
         rf = Raft_Make ends i (sg_persisters c) p;
         sc = ctrler_StartServer i r in
     bindE (slice_set (sg_ctrlerservers c) i (Some (Suc r))) (\<lambda>ss.
     Inr (install (ctrlername i) ''ShardCtrler'' (ctrler_methods zero) zero rf (CtrlerObj sc) (c\<lparr>sg_ctrlerservers := ss\<rparr>))))"

section \<open>The configuration as a whole\<close>

definition empty_skv_config :: "(nat \<Rightarrow> string) \<Rightarrow> int \<Rightarrow> (string, 'v, skv_object) network \<Rightarrow> 'v skv_config" where
  "empty_skv_config rand maxraftstate net =
     \<lparr>sg_net = net, sg_nctrlers = 0, sg_ctrlerservers = [], sg_mck = ctrler_MakeClerk [], sg_ngroups = 0, sg_n = 0,
      sg_groups = [], sg_clerks = Map.empty, sg_nextClientId = 0, sg_maxraftstate = maxraftstate,
      sg_persisters = (\<lambda>_. MakePersister), sg_brk = 0, sg_rand = rand, sg_drawn = 0\<rparr>"

text \<open>\<^verbatim>\<open>gg.mendnames\<close> has a row for each controller, but is indexed by the servers of the group.\<close>

definition new_group :: "nat \<Rightarrow> nat \<Rightarrow> nat \<Rightarrow> group" where
  "new_group gi n nctrlers =
     \<lparr>gp_gid = 100 + int gi, gp_servers = replicate n None, gp_saved = replicate n None,
      gp_endnames = replicate n None, gp_mendnames = replicate nctrlers None\<rparr>"

definition make_group :: "'v \<Rightarrow> nat \<Rightarrow> 'v skv_config \<Rightarrow> 'v skv_config result" where
  "make_group zero gi c =
     bindE (slice_set (sg_groups c) gi (Some (new_group gi (sg_n c) (sg_nctrlers c)))) (\<lambda>gs.
     foldE (skv_StartServer zero gi) [0..<sg_n c] (c\<lparr>sg_groups := gs\<rparr>))"

definition skv_make_config ::
    "'v \<Rightarrow> (nat \<Rightarrow> string) \<Rightarrow> nat \<Rightarrow> bool \<Rightarrow> int \<Rightarrow> (string, 'v, skv_object) network \<Rightarrow> 'v skv_config result" where
  "skv_make_config zero rand n unreliable maxraftstate net =
     (let c = empty_skv_config rand maxraftstate net;
          c = c\<lparr>sg_nctrlers := 3\<rparr>;
          c = c\<lparr>sg_ctrlerservers := replicate (sg_nctrlers c) None\<rparr> in
      bindE (foldE (StartCtrlerserver zero) [0..<sg_nctrlers c] c) (\<lambda>c.
      bindE (shardclerk c) (\<lambda>(mck, c).
      let c = c\<lparr>sg_mck := mck\<rparr>;
          c = c\<lparr>sg_ngroups := 3\<rparr>;
          c = c\<lparr>sg_groups := replicate (sg_ngroups c) None, sg_n := n\<rparr> in
      bindE (foldE (make_group zero) [0..<sg_ngroups c] c) (\<lambda>c.
      let c = c\<lparr>sg_clerks := Map.empty, sg_nextClientId := int (sg_n c) + 1000\<rparr> in
      Inr (c\<lparr>sg_net := Reliable (\<not> unreliable) (sg_net c)\<rparr>)))))"

text \<open>The check of one server in \<^verbatim>\<open>checklogs\<close>; a persister that was never made is dereferenced.\<close>

definition checklogs_server :: "'v skv_config \<Rightarrow> nat \<Rightarrow> nat \<Rightarrow> unit result" where
  "checklogs_server c gi i =
     bindE (get_group gi c) (\<lambda>gg.
     bindE (slice_get (gp_saved gg) i) (\<lambda>saved.
     case saved of
       None \<Rightarrow> Inl NilDereference
     | Some a \<Rightarrow>
         (let rft = RaftStateSize (sg_persisters c a); snap = length (ReadSnapshot (sg_persisters c a)) in
          if sg_maxraftstate c \<ge> 0 \<and> int rft > 8 * sg_maxraftstate c
          then Inl (Fatal ''persister.RaftStateSize() too large'')
          else if sg_maxraftstate c < 0 \<and> snap > 0
          then Inl (Fatal ''maxraftstate is -1, but snapshot is non-empty!'')
          else Inr ())))"

definition checklogs :: "'v skv_config \<Rightarrow> unit result" where
  "checklogs c = foldE (\<lambda>gi _. foldE (\<lambda>i _. checklogs_server c gi i) [0..<sg_n c] ()) [0..<sg_ngroups c] ()"

section \<open>Joining and leaving\<close>

definition joinm ::
    "(string, JoinArgs, CtrlerReply, 'w) calls \<Rightarrow> ('w \<Rightarrow> 'w) \<Rightarrow> nat list \<Rightarrow> 'v skv_config \<Rightarrow> 'w \<Rightarrow> 'w option result" where
  "joinm call sleep gis c w =
     bindE (foldE (\<lambda>g m.
         bindE (get_group g c) (\<lambda>gg.
         let gid = gp_gid gg; servernames = map (servername gid) [0..<sg_n c] in
         Inr (m(gid \<mapsto> servernames)))) gis Map.empty) (\<lambda>m.
     Inr (Clerk_Join call sleep (sg_mck c) m w))"

definition config_join ::
    "(string, JoinArgs, CtrlerReply, 'w) calls \<Rightarrow> ('w \<Rightarrow> 'w) \<Rightarrow> nat \<Rightarrow> 'v skv_config \<Rightarrow> 'w \<Rightarrow> 'w option result" where
  "config_join call sleep gi = joinm call sleep [gi]"

definition leavem ::
    "(string, LeaveArgs, CtrlerReply, 'w) calls \<Rightarrow> ('w \<Rightarrow> 'w) \<Rightarrow> nat list \<Rightarrow> 'v skv_config \<Rightarrow> 'w \<Rightarrow> 'w option result" where
  "leavem call sleep gis c w =
     bindE (foldE (\<lambda>g gids. bindE (get_group g c) (\<lambda>gg. Inr (gids @ [gp_gid gg]))) gis []) (\<lambda>gids.
     Inr (Clerk_Leave call sleep (sg_mck c) gids w))"

definition config_leave ::
    "(string, LeaveArgs, CtrlerReply, 'w) calls \<Rightarrow> ('w \<Rightarrow> 'w) \<Rightarrow> nat \<Rightarrow> 'v skv_config \<Rightarrow> 'w \<Rightarrow> 'w option result" where
  "config_leave call sleep gi = leavem call sleep [gi]"

end
