(* ===== verification/Shardkv_Config_Correct.thy ===== *)
theory Shardkv_Config_Correct
  imports Shardkv_Config
begin

text \<open>
  For how many servers per group the configuration of the sharded key/value service can be made and used.
\<close>

section \<open>Names not used before\<close>

text \<open>Names that will be drawn are not those of ends.\<close>

definition fresh :: "'v skv_config \<Rightarrow> bool" where
  "fresh c \<longleftrightarrow> inj (sg_rand c) \<and> (\<forall>k \<ge> sg_drawn c. sg_rand c k \<notin> nw_ends (sg_net c))"

text \<open>What the operations on ends leave alone.\<close>

definition kept_shape :: "'v skv_config \<Rightarrow> 'v skv_config \<Rightarrow> bool" where
  "kept_shape c c' \<longleftrightarrow>
     sg_nctrlers c' = sg_nctrlers c \<and> sg_n c' = sg_n c \<and> sg_ngroups c' = sg_ngroups c \<and>
     length (sg_ctrlerservers c') = length (sg_ctrlerservers c) \<and> sg_groups c' = sg_groups c"

lemma kept_shape_refl [simp]: "kept_shape c c"
  by (simp add: kept_shape_def)

lemma kept_shape_trans: "kept_shape c c' \<Longrightarrow> kept_shape c' c'' \<Longrightarrow> kept_shape c c''"
  by (simp add: kept_shape_def)

lemma nw_ends_simps [simp]:
  "nw_ends (Enable e b net) = nw_ends net" "nw_ends (Connect e s net) = nw_ends net"
  "nw_ends (AddServer s a net) = nw_ends net" "nw_ends (Reliable b net) = nw_ends net"
  by (simp_all add: Enable_def Connect_def AddServer_def Reliable_def)

lemma link_end_ok:
  assumes "nm \<notin> nw_ends (sg_net c)"
  obtains c' where "link_end nm target c = Inr c'" "kept_shape c c'" "nw_ends (sg_net c') = insert nm (nw_ends (sg_net c))"
    "sg_rand c' = sg_rand c" "sg_drawn c' = sg_drawn c"
  using assms by (simp add: link_end_def MakeEnd_def kept_shape_def)

lemma draw_link_ok:
  assumes "fresh c" "draw_name c = (nm, c1)"
  obtains c' where "link_end nm target c1 = Inr c'" "fresh c'" "kept_shape c c'"
proof -
  have nm: "nm = sg_rand c (sg_drawn c)" and c1: "c1 = c\<lparr>sg_drawn := Suc (sg_drawn c)\<rparr>"
    using assms(2) by (simp_all add: draw_name_def)
  have new: "nm \<notin> nw_ends (sg_net c1)" using assms(1) by (simp add: nm c1 fresh_def)
  from link_end_ok [OF new] obtain c' where c': "link_end nm target c1 = Inr c'" "kept_shape c1 c'"
    "nw_ends (sg_net c') = insert nm (nw_ends (sg_net c1))" "sg_rand c' = sg_rand c1" "sg_drawn c' = sg_drawn c1" .
  have "fresh c'" using assms(1) c' by (auto simp: fresh_def nm c1 Suc_le_eq dest: injD)
  moreover have "kept_shape c c'" using c'(2) by (simp add: kept_shape_def c1)
  ultimately show thesis using that c'(1) by blast
qed

lemma config_make_end_ok:
  assumes "fresh c"
  obtains nm c' where "config_make_end target c = Inr (nm, c')" "fresh c'" "kept_shape c c'"
proof -
  obtain nm c1 where d: "draw_name c = (nm, c1)" by fastforce
  from draw_link_ok [OF assms d] obtain c' where "link_end nm target c1 = Inr c'" "fresh c'" "kept_shape c c'" .
  then show thesis using d by (intro that [of nm c']) (simp_all add: config_make_end_def)
qed

lemma ctrler_ends_ok:
  assumes "fresh c"
  obtains nms c' where "ctrler_ends js c = Inr (nms, c')" "fresh c'" "kept_shape c c'"
  using assms
proof (induction js arbitrary: c thesis)
  case Nil
  then show ?case by (intro Nil.prems(1) [of "[]" c]) simp_all
next
  case (Cons j js)
  from config_make_end_ok [OF Cons.prems(2)] obtain nm c1
    where c1: "config_make_end (ctrlername j) c = Inr (nm, c1)" "fresh c1" "kept_shape c c1" .
  from Cons.IH [OF _ c1(2)] obtain nms c' where "ctrler_ends js c1 = Inr (nms, c')" "fresh c'" "kept_shape c1 c'" .
  then show ?case using c1 by (intro Cons.prems(1) [of "nm # nms" c']) (auto intro: kept_shape_trans)
qed

section \<open>Controllers and clients\<close>

lemma install_simps [simp]:
  "fresh (install s t ms z rf obj c) = fresh c" "kept_shape c' (install s t ms z rf obj c) = kept_shape c' c"
  by (simp_all add: install_def fresh_def kept_shape_def Let_def)

lemma new_persister_ok:
  assumes "skv_new_persister p c = (a, c')"
  shows "fresh c' = fresh c" "kept_shape c c'"
  using assms by (auto simp: skv_new_persister_def fresh_def kept_shape_def)

lemma StartCtrlerserver_ok:
  assumes "fresh c" "i < length (sg_ctrlerservers c)"
  obtains c' where "StartCtrlerserver zero i c = Inr c'" "fresh c'" "kept_shape c c'"
proof -
  from ctrler_ends_ok [OF assms(1)] obtain ends c1
    where c1: "ctrler_ends [0..<sg_nctrlers c] c = Inr (ends, c1)" "fresh c1" "kept_shape c c1" .
  obtain p c2 where p: "skv_new_persister MakePersister c1 = (p, c2)" by fastforce
  have c2: "fresh c2" "kept_shape c c2" using new_persister_ok [OF p] c1 kept_shape_trans by blast+
  have i: "i < length (sg_ctrlerservers c2)" using c2(2) assms(2) by (simp add: kept_shape_def)
  let ?c3 = "c2\<lparr>sg_ctrlerservers := (sg_ctrlerservers c2)[i := Some (Suc (sg_brk c2))]\<rparr>"
  have c3: "fresh ?c3" "kept_shape c ?c3" using c2 by (simp_all add: fresh_def kept_shape_def)
  have "StartCtrlerserver zero i c = Inr (install (ctrlername i) ''ShardCtrler'' (ctrler_methods zero) zero
      (Raft_Make ends i (sg_persisters c2) p) (CtrlerObj (ctrler_StartServer i (sg_brk c2))) ?c3)"
    using c1(1) p i by (simp add: StartCtrlerserver_def Let_def)
  then show thesis by (rule that) (use c3 in simp_all)
qed

lemma shardclerk_ok:
  assumes "fresh c"
  obtains ck c' where "shardclerk c = Inr (ck, c')" "fresh c'" "kept_shape c c'"
proof -
  from ctrler_ends_ok [OF assms] obtain ends c1
    where "ctrler_ends [0..<sg_nctrlers c] c = Inr (ends, c1)" "fresh c1" "kept_shape c c1" .
  then show thesis by (intro that [of "ctrler_MakeClerk ends" c1]) (simp_all add: shardclerk_def)
qed

lemma client_end_iff:
  assumes "fresh c"
  shows "if j < length endnames
    then \<exists>endnames' ends' c'. client_end j (endnames, ends, c) = Inr (endnames', ends', c') \<and> length endnames' = length endnames \<and>
      fresh c' \<and> kept_shape c c'
    else client_end j (endnames, ends, c) = Inl IndexOutOfRange"
proof -
  obtain nm c1 where d: "draw_name c = (nm, c1)" by fastforce
  from draw_link_ok [OF assms d] obtain c' where "link_end nm (ctrlername j) c1 = Inr c'" "fresh c'" "kept_shape c c'" .
  then show ?thesis using d by (auto simp: client_end_def)
qed

section \<open>Servers\<close>

lemma draw_names_eq:
  "draw_names k c = (map (sg_rand c) [sg_drawn c..<sg_drawn c + k], c\<lparr>sg_drawn := sg_drawn c + k\<rparr>)"
proof (induction k arbitrary: c)
  case (Suc k)
  have "[sg_drawn c..<sg_drawn c + Suc k] = sg_drawn c # [Suc (sg_drawn c)..<Suc (sg_drawn c) + k]"
    by (simp add: upt_conv_Cons)
  then show ?case by (simp add: Suc draw_name_def)
qed simp

lemma link_names_ok:
  assumes "distinct names" "set names \<inter> nw_ends (sg_net c) = {}" "m \<le> length names"
  shows "\<exists>c'. foldE (\<lambda>j. link_end (names ! j) (target j)) [0..<m] c = Inr c' \<and> kept_shape c c' \<and>
    nw_ends (sg_net c') = set (take m names) \<union> nw_ends (sg_net c) \<and> sg_rand c' = sg_rand c \<and> sg_drawn c' = sg_drawn c"
  using assms(3)
proof (induction m)
  case (Suc m)
  then obtain c1 where c1: "foldE (\<lambda>j. link_end (names ! j) (target j)) [0..<m] c = Inr c1" "kept_shape c c1"
      "nw_ends (sg_net c1) = set (take m names) \<union> nw_ends (sg_net c)" "sg_rand c1 = sg_rand c" "sg_drawn c1 = sg_drawn c"
    by auto
  have "names ! m \<notin> set (take m names)" using assms(1) Suc.prems by (auto simp: in_set_conv_nth nth_eq_iff_index_eq)
  moreover have "names ! m \<notin> nw_ends (sg_net c)" 
  proof -
    have "names ! m \<in> set names" using Suc.prems by simp
    then show ?thesis using assms(2) by auto
  qed
  ultimately have "names ! m \<notin> nw_ends (sg_net c1)" using c1(3) by blast
  from link_end_ok [OF this, of "target m"] obtain c' where c': "link_end (names ! m) (target m) c1 = Inr c'" "kept_shape c1 c'"
    "nw_ends (sg_net c') = insert (names ! m) (nw_ends (sg_net c1))" "sg_rand c' = sg_rand c1" "sg_drawn c' = sg_drawn c1" .
  have "foldE (\<lambda>j. link_end (names ! j) (target j)) [0..<Suc m] c = Inr c'" using c1(1) c'(1) by (simp add: foldE_append)
  moreover have "kept_shape c c'" using c1(2) c'(2) by (rule kept_shape_trans)
  moreover have "nw_ends (sg_net c') = set (take (Suc m) names) \<union> nw_ends (sg_net c)"
    using c1(3) c'(3) Suc.prems by (simp add: take_Suc_conv_app_nth)
  ultimately show ?case using c1(4,5) c'(4,5) by auto
qed simp

lemma own_ends_ok:
  assumes "fresh c" "draw_names (sg_n c) c = (names, c1)"
  obtains c2 where "foldE (\<lambda>j. link_end (names ! j) (target j)) [0..<sg_n c1] c1 = Inr c2" "fresh c2" "kept_shape c c2"
proof -
  have names: "names = map (sg_rand c) [sg_drawn c..<sg_drawn c + sg_n c]" and c1: "c1 = c\<lparr>sg_drawn := sg_drawn c + sg_n c\<rparr>"
    using assms(2) by (simp_all add: draw_names_eq)
  have inj: "inj (sg_rand c)" and new: "\<And>k. sg_drawn c \<le> k \<Longrightarrow> sg_rand c k \<notin> nw_ends (sg_net c)"
    using assms(1) by (auto simp: fresh_def)
  have "distinct names" using inj by (simp add: names distinct_map inj_on_def inj_def)
  moreover have "set names \<inter> nw_ends (sg_net c1) = {}" using new by (auto simp: names c1)
  ultimately obtain c2 where c2: "foldE (\<lambda>j. link_end (names ! j) (target j)) [0..<sg_n c1] c1 = Inr c2" "kept_shape c1 c2"
      "nw_ends (sg_net c2) = set (take (sg_n c1) names) \<union> nw_ends (sg_net c1)" "sg_rand c2 = sg_rand c1" "sg_drawn c2 = sg_drawn c1"
    using link_names_ok [of names c1 "sg_n c1" target] by (auto simp: names c1)
  have "set (take (sg_n c1) names) = sg_rand c ` {sg_drawn c..<sg_drawn c + sg_n c}" by (simp add: names c1)
  then have "fresh c2" using inj new c2(3-5) by (auto simp: fresh_def c1 dest: injD)
  moreover have "kept_shape c c2" using c2(2) by (simp add: c1 kept_shape_def)
  ultimately show thesis using that c2(1) by blast
qed

definition group_shape :: "nat \<Rightarrow> nat \<Rightarrow> group \<Rightarrow> bool" where
  "group_shape n m gg \<longleftrightarrow> length (gp_servers gg) = n \<and> length (gp_saved gg) = n \<and> length (gp_endnames gg) = n \<and> length (gp_mendnames gg) = m"

definition usable :: "nat \<Rightarrow> nat \<Rightarrow> nat \<Rightarrow> 'v skv_config \<Rightarrow> bool" where
  "usable n m g c \<longleftrightarrow> fresh c \<and> sg_n c = n \<and> sg_nctrlers c = m \<and> length (sg_groups c) = g"

definition ready_group :: "nat \<Rightarrow> nat \<Rightarrow> nat \<Rightarrow> nat \<Rightarrow> 'v skv_config \<Rightarrow> bool" where
  "ready_group n m g gi c \<longleftrightarrow> usable n m g c \<and> (\<exists>gg. get_group gi c = Inr gg \<and> group_shape n m gg)"

lemma StartServer_outcome:
  assumes r: "ready_group n m g gi c" and i: "i < n"
  shows "if i < m then \<exists>c'. skv_StartServer zero gi i c = Inr c' \<and> ready_group n m g gi c'
    else skv_StartServer zero gi i c = Inl IndexOutOfRange"
proof -
  obtain gg where gg: "get_group gi c = Inr gg" "group_shape n m gg" and c: "fresh c" "sg_n c = n" "sg_nctrlers c = m" "length (sg_groups c) = g"
    using r by (auto simp: ready_group_def usable_def)
  have gi: "gi < length (sg_groups c)" using gg(1) by (auto simp: get_group_def slice_get_def split: if_splits)
  obtain names c1 where d: "draw_names (sg_n c) c = (names, c1)" by fastforce
  from own_ends_ok [OF c(1) d] obtain c2
    where c2: "foldE (\<lambda>j. link_end (names ! j) (servername (gp_gid gg) j)) [0..<sg_n c1] c1 = Inr c2" "fresh c2" "kept_shape c c2" .
  have start: "skv_StartServer zero gi i c = bindE (slice_set (gp_mendnames gg) i None) (\<lambda>_.
     bindE (ctrler_ends [0..<sg_nctrlers c2] c2) (\<lambda>(mends, c).
     let gg = gg\<lparr>gp_endnames := (gp_endnames gg)[i := Some names], gp_mendnames := (gp_mendnames gg)[i := Some mends]\<rparr> in
     bindE (slice_get (gp_saved gg) i) (\<lambda>saved.
     case skv_new_persister (case saved of Some a \<Rightarrow> Persister_Copy (sg_persisters c a) | None \<Rightarrow> MakePersister) c of (p, c) \<Rightarrow>
     let gg = gg\<lparr>gp_saved := (gp_saved gg)[i := Some p]\<rparr>;
         r = sg_brk c;
         rf = Raft_Make names i (sg_persisters c) p;
         kv = shardkv_StartServer i (sg_maxraftstate c) (gp_gid gg) mends r in
     bindE (slice_set (gp_servers gg) i (Some (Suc r))) (\<lambda>ss.
     let gg = gg\<lparr>gp_servers := ss\<rparr> in
     Inr (put_group gi gg (install (servername (gp_gid gg) i) ''ShardKV'' (shardkv_methods zero) zero rf (KvObj kv) c))))))"
    using gg i d c2(1) by (simp add: skv_StartServer_def group_shape_def Let_def)
  show ?thesis
  proof (cases "i < m")
    case False
    then show ?thesis using gg(2) by (simp add: start group_shape_def)
  next
    case True
    from ctrler_ends_ok [OF c2(2)] obtain mends c3
      where c3: "ctrler_ends [0..<sg_nctrlers c2] c2 = Inr (mends, c3)" "fresh c3" "kept_shape c2 c3" .
    obtain p c4 where p: "skv_new_persister
        (case gp_saved gg ! i of Some a \<Rightarrow> Persister_Copy (sg_persisters c3 a) | None \<Rightarrow> MakePersister) c3 = (p, c4)" by fastforce
    have c4: "fresh c4" "kept_shape c c4" using new_persister_ok [OF p] c2 c3 kept_shape_trans by blast+
    define gg' where "gg' = gg\<lparr>gp_endnames := (gp_endnames gg)[i := Some names], gp_mendnames := (gp_mendnames gg)[i := Some mends],
      gp_saved := (gp_saved gg)[i := Some p], gp_servers := (gp_servers gg)[i := Some (Suc (sg_brk c4))]\<rparr>"
    define c5 where "c5 = install (servername (gp_gid gg) i) ''ShardKV'' (shardkv_methods zero) zero
      (Raft_Make names i (sg_persisters c4) p) (KvObj (shardkv_StartServer i (sg_maxraftstate c4) (gp_gid gg) mends (sg_brk c4))) c4"
    have eq: "skv_StartServer zero gi i c = Inr (put_group gi gg' c5)"
      using gg(2) i True c3(1) p by (simp add: start group_shape_def Let_def gg'_def c5_def)
    have c5: "fresh c5" "kept_shape c c5" using c4 by (simp_all add: c5_def)
    have "ready_group n m g gi (put_group gi gg' c5)"
      using c5 c gg(2) gi by (simp add: ready_group_def usable_def put_group_def fresh_def kept_shape_def get_group_def group_shape_def gg'_def)
    then show ?thesis using eq True by simp
  qed
qed

section \<open>Groups and the configuration\<close>

text \<open>A loop that panics at the index \<open>k\<close> after \<open>k\<close> good rounds.\<close>

lemma foldE_bounded:
  assumes "P a"
    and "\<And>i a. i < n \<Longrightarrow> P a \<Longrightarrow> if i < k then \<exists>a'. f i a = Inr a' \<and> P a' else f i a = Inl e"
  shows "if n \<le> k then \<exists>a'. foldE f [0..<n] a = Inr a' \<and> P a' else foldE f [0..<n] a = Inl e"
proof (cases "n \<le> k")
  case True
  then show ?thesis using foldE_invariant [of P a "[0..<n]" f] assms by fastforce
next
  case False
  then have split: "[0..<n] = [0..<k] @ k # [Suc k..<n]" 
    using upt_add_eq_append [of 0 k "n - k"] by (simp add: upt_conv_Cons)
  obtain a' where "foldE f [0..<k] a = Inr a'" "P a'"
    using foldE_invariant [of P a "[0..<k]" f] assms False by fastforce
  then show ?thesis using assms(2) [of k a'] False by (simp add: split foldE_append)
qed

lemma make_group_outcome:
  assumes "usable n m g c" "gi < g"
  shows "if n \<le> m then \<exists>c'. make_group zero gi c = Inr c' \<and> usable n m g c' else make_group zero gi c = Inl IndexOutOfRange"
proof -
  let ?c = "c\<lparr>sg_groups := (sg_groups c)[gi := Some (new_group gi n m)]\<rparr>"
  have "ready_group n m g gi ?c"
    using assms by (simp add: ready_group_def usable_def fresh_def get_group_def group_shape_def new_group_def)
  then have "if n \<le> m then \<exists>c'. foldE (skv_StartServer zero gi) [0..<n] ?c = Inr c' \<and> ready_group n m g gi c'
      else foldE (skv_StartServer zero gi) [0..<n] ?c = Inl IndexOutOfRange"
    by (rule foldE_bounded) (rule StartServer_outcome)
  moreover have "make_group zero gi c = foldE (skv_StartServer zero gi) [0..<n] ?c"
    using assms by (simp add: make_group_def usable_def)
  ultimately show ?thesis by (auto simp: ready_group_def)
qed

lemma make_config_outcome:
  assumes "inj rand" "nw_ends net = {}"
  shows "if n \<le> 3 then \<exists>c. skv_make_config zero rand n unreliable maxraftstate net = Inr c \<and> usable n 3 3 c
    else skv_make_config zero rand n unreliable maxraftstate net = Inl IndexOutOfRange"
proof -
  let ?c0 = "(empty_skv_config rand maxraftstate net)\<lparr>sg_nctrlers := 3, sg_ctrlerservers := replicate 3 None\<rparr> :: 'a skv_config"
  let ?P = "\<lambda>c :: 'a skv_config. fresh c \<and> sg_nctrlers c = 3 \<and> length (sg_ctrlerservers c) = 3"
  have "?P ?c0" using assms by (simp add: fresh_def empty_skv_config_def)
  moreover have "\<exists>c'. StartCtrlerserver zero i c = Inr c' \<and> ?P c'" if "i \<in> set [0..<3]" "?P c" for i c
    using that StartCtrlerserver_ok [of c i zero] by (auto simp: kept_shape_def)
  ultimately obtain c1 where c1: "foldE (StartCtrlerserver zero) [0..<3] ?c0 = Inr c1" "?P c1"
    using foldE_invariant [of ?P] by blast
  have "fresh c1" using c1(2) by blast
  from shardclerk_ok [OF this] obtain ck c2 where sh: "shardclerk c1 = Inr (ck, c2)" "fresh c2" "kept_shape c1 c2" .
  then have c2: "shardclerk c1 = Inr (ck, c2)" "fresh c2" "sg_nctrlers c2 = 3" using c1(2) by (simp_all add: kept_shape_def)
  let ?c3 = "c2\<lparr>sg_mck := ck, sg_ngroups := 3, sg_groups := replicate 3 None, sg_n := n\<rparr>"
  have u3: "usable n 3 3 ?c3" using c2 by (simp add: usable_def fresh_def)
  have eq: "skv_make_config zero rand n unreliable maxraftstate net = bindE (foldE (make_group zero) [0..<3] ?c3) (\<lambda>c.
      let c = c\<lparr>sg_clerks := Map.empty, sg_nextClientId := int (sg_n c) + 1000\<rparr> in
      Inr (c\<lparr>sg_net := Reliable (\<not> unreliable) (sg_net c)\<rparr>))"
    using c1(1) c2(1) by (simp add: skv_make_config_def Let_def)
  show ?thesis
  proof (cases "n \<le> 3")
    case True
    then obtain c4 where "foldE (make_group zero) [0..<3] ?c3 = Inr c4" "usable n 3 3 c4"
      using foldE_invariant [of "usable n 3 3" ?c3 "[0..<3]" "make_group zero"] u3 make_group_outcome [of n 3 3 _ _ zero] by fastforce
    then show ?thesis using True by (simp add: eq usable_def fresh_def)
  next
    case False
    then have "foldE (make_group zero) [0..<3] ?c3 = Inl IndexOutOfRange"
      using make_group_outcome [OF u3, of 0 zero] by (simp add: upt_conv_Cons)
    then show ?thesis using False by (simp add: eq)
  qed
qed

lemma makeClient_outcome:
  assumes "usable n m g c"
  shows "if m \<le> n then \<exists>x. skv_makeClient c = Inr x else skv_makeClient c = Inl IndexOutOfRange"
proof -
  let ?P = "\<lambda>(endnames, ends, c). length endnames = n \<and> fresh c"
  have step: "if j < n then \<exists>s'. client_end j s = Inr s' \<and> ?P s' else client_end j s = Inl IndexOutOfRange" if "?P s" for j s
    using that client_end_iff [of "snd (snd s)" j "fst s" "fst (snd s)"] by (cases s) (auto split: if_splits)
  have "if m \<le> n then \<exists>s. foldE client_end [0..<m] (replicate n [], [], c) = Inr s \<and> ?P s
      else foldE client_end [0..<m] (replicate n [], [], c) = Inl IndexOutOfRange"
    by (rule foldE_bounded [OF _ step]) (use assms in \<open>simp_all add: usable_def\<close>)
  then show ?thesis using assms by (auto simp: skv_makeClient_def usable_def Let_def split: if_splits)
qed

end
