(* ===== verification/Cluster_Properties.thy ===== *)
theory Cluster_Properties
  imports Cluster_Durability Shardctrler_Config Shardkv_Config_Correct
begin

text \<open>
  The properties of the replicated services' configurations and of the sharded clerk.
\<close>

section \<open>Partitions\<close>

text \<open>C34. For any type of server, any number \<open>n\<close> of servers and any different random names, \<^verbatim>\<open>make_config\<close> gives a
  configuration in which all ends are enabled.  Whatever ends were enabled or disabled since, \<^verbatim>\<open>partition(p1, p2)\<close> succeeds for any two
  disjoint sides; afterwards an end from a server of a side to a server of a side is enabled exactly if both are on the same side,
  and every other end is as it was.\<close>

theorem partition_separates:
  fixes ops :: "('v, 's) server_ops"
  assumes "fresh_draws draws n" "nw_ends net = {}" "set p1 \<union> set p2 \<subseteq> {..<n}" "set p1 \<inter> set p2 = {}"
    "length p1 \<le> n" "length p2 \<le> n"
  shows "\<exists>c. kc_make_config ops zero draws n unreliable maxraftstate net = Inr c \<and>
    (\<forall>i < n. \<forall>j < n. nw_enabled (kc_net c) (EndName (draws i ! j))) \<and>
    (\<forall>enabled. \<exists>c'. cluster_partition p1 p2 (c\<lparr>kc_net := (kc_net c)\<lparr>nw_enabled := enabled\<rparr>\<rparr>) = Inr c' \<and>
      (\<forall>i \<in> set p1 \<union> set p2. \<forall>j \<in> set p1 \<union> set p2.
         nw_enabled (kc_net c') (EndName (draws i ! j)) \<longleftrightarrow> (i \<in> set p1 \<longleftrightarrow> j \<in> set p1)) \<and>
      (\<forall>e. e \<notin> (\<lambda>(i, j). draws i ! j) ` ((set p1 \<union> set p2) \<times> (set p1 \<union> set p2)) \<longrightarrow>
         nw_enabled (kc_net c') (EndName e) = enabled (EndName e)))"
proof -
  obtain c where c: "kc_make_config ops zero draws n unreliable maxraftstate net = Inr c" "kc_n c = n" "wired c" "all_connected c"
    and en: "\<And>i j. i < n \<Longrightarrow> en c i j = draws i ! j"
    using kc_make_config_ok [OF assms(1,2)] by metis
  have "\<exists>c'. cluster_partition p1 p2 (c\<lparr>kc_net := (kc_net c)\<lparr>nw_enabled := enabled\<rparr>\<rparr>) = Inr c' \<and>
      (\<forall>i \<in> set p1 \<union> set p2. \<forall>j \<in> set p1 \<union> set p2.
         nw_enabled (kc_net c') (EndName (draws i ! j)) \<longleftrightarrow> (i \<in> set p1 \<longleftrightarrow> j \<in> set p1)) \<and>
      (\<forall>e. e \<notin> (\<lambda>(i, j). draws i ! j) ` ((set p1 \<union> set p2) \<times> (set p1 \<union> set p2)) \<longrightarrow>
         nw_enabled (kc_net c') (EndName e) = enabled (EndName e))" for enabled
  proof (intro exI conjI ballI allI impI)
    let ?c = "c\<lparr>kc_net := (kc_net c)\<lparr>nw_enabled := enabled\<rparr>\<rparr>"
    let ?sw = "sw_side ?c p1 p2 @ sw_side ?c p2 p1"
    have w: "wired ?c" using c(3) by (simp add: wired_def)
    have r: "\<forall>i \<in> set p1 \<union> set p2. i < kc_n ?c" using assms(3) c(2) by auto
    have l: "length p1 \<le> kc_n ?c" "length p2 \<le> kc_n ?c" using assms(5,6) c(2) by simp_all
    show "cluster_partition p1 p2 ?c = Inr (switched ?c ?sw)" by (rule partition_eq [OF w r l])
    show "nw_enabled (kc_net (switched ?c ?sw)) (EndName (draws i ! j)) \<longleftrightarrow> (i \<in> set p1 \<longleftrightarrow> j \<in> set p1)"
      if "i \<in> set p1 \<union> set p2" "j \<in> set p1 \<union> set p2" for i j
      using partition_switches [OF w r assms(4) that] en [of i j] that(1) r c(2) by simp
    fix e assume e: "e \<notin> (\<lambda>(i, j). draws i ! j) ` ((set p1 \<union> set p2) \<times> (set p1 \<union> set p2))"
    have "i \<in> set p1 \<union> set p2 \<Longrightarrow> j \<in> set p1 \<union> set p2 \<Longrightarrow> en ?c i j \<noteq> e" for i j
      using e en [of i j] r c(2) by (force simp: image_iff)
    from partition_keeps_others [OF this] show "nw_enabled (kc_net (switched ?c ?sw)) (EndName e) = enabled (EndName e)" by simp
  qed
  moreover have "\<forall>i < n. \<forall>j < n. nw_enabled (kc_net c) (EndName (draws i ! j))" using c(2,4) en by (simp add: all_connected_def)
  ultimately show ?thesis using c(1) by blast
qed

text \<open>Three servers that are all cut off from each other; a partition joins the first two and leaves the third, which is on no side, cut off.\<close>

definition demo_three :: "nat \<Rightarrow> string list" where
  "demo_three i = (if i = 0 then [''a'', ''b'', ''c''] else if i = 1 then [''d'', ''e'', ''f''] else [''g'', ''h'', ''i''])"

theorem partition_separates_witness:
  "\<exists>c c'. kc_make_config (kv_ops ()) () demo_three 3 False (-1)
       (MakeNetwork (\<lambda>_. MakeServer) (\<lambda>_. ServerObj (StartKVServer 0 0 0))) = Inr c \<and>
     nw_enabled (kc_net c) (EndName ''b'') \<and>
     cluster_partition [0, 1] [] (c\<lparr>kc_net := (kc_net c)\<lparr>nw_enabled := (\<lambda>_. False)\<rparr>\<rparr>) = Inr c' \<and>
     nw_enabled (kc_net c') (EndName ''b'') \<and> nw_enabled (kc_net c') (EndName ''d'') \<and> \<not> nw_enabled (kc_net c') (EndName ''c'')"
proof -
  let ?net = "MakeNetwork (\<lambda>_. MakeServer) (\<lambda>_. ServerObj (StartKVServer 0 0 0)) :: (name, unit, KVServer object) network"
  have f: "fresh_draws demo_three 3" by (simp add: fresh_draws_def demo_three_def upt_conv_Cons numeral_3_eq_3)
  have e: "nw_ends ?net = {}" by (simp add: MakeNetwork_def)
  have i: "set [0 :: nat, 1] \<union> set [] \<subseteq> {..<3}" "set [0 :: nat, 1] \<inter> set [] = {}" "length [0 :: nat, 1] \<le> 3" "length ([] :: nat list) \<le> 3" by auto
  from partition_separates [OF f e i, of "kv_ops ()" "()" False "-1"]
  obtain c where c: "kc_make_config (kv_ops ()) () demo_three 3 False (-1) ?net = Inr c"
    and all: "\<forall>i < 3. \<forall>j < 3. nw_enabled (kc_net c) (EndName (demo_three i ! j))"
    and part: "\<forall>enabled. \<exists>c'. cluster_partition [0, 1] [] (c\<lparr>kc_net := (kc_net c)\<lparr>nw_enabled := enabled\<rparr>\<rparr>) = Inr c' \<and>
      (\<forall>i \<in> set [0, 1] \<union> set []. \<forall>j \<in> set [0, 1] \<union> set []. nw_enabled (kc_net c') (EndName (demo_three i ! j)) \<longleftrightarrow> (i \<in> set [0, 1] \<longleftrightarrow> j \<in> set [0, 1])) \<and>
      (\<forall>e. e \<notin> (\<lambda>(i, j). demo_three i ! j) ` ((set [0, 1] \<union> set []) \<times> (set [0, 1] \<union> set [])) \<longrightarrow> nw_enabled (kc_net c') (EndName e) = enabled (EndName e))"
    by blast
  from part [rule_format, of "\<lambda>_. False"] obtain c' where c': "cluster_partition [0, 1] [] (c\<lparr>kc_net := (kc_net c)\<lparr>nw_enabled := (\<lambda>_. False)\<rparr>\<rparr>) = Inr c'"
    and sides: "\<forall>i \<in> set [0, 1] \<union> set []. \<forall>j \<in> set [0, 1] \<union> set []. nw_enabled (kc_net c') (EndName (demo_three i ! j)) \<longleftrightarrow> (i \<in> set [0, 1] \<longleftrightarrow> j \<in> set [0, 1])"
    and other: "\<forall>e. e \<notin> (\<lambda>(i, j). demo_three i ! j) ` ((set [0, 1] \<union> set []) \<times> (set [0, 1] \<union> set [])) \<longrightarrow> \<not> nw_enabled (kc_net c') (EndName e)"
    by blast
  have "nw_enabled (kc_net c) (EndName ''b'')" using all [rule_format, of 0 1] by (simp add: demo_three_def)
  moreover have "nw_enabled (kc_net c') (EndName (demo_three 0 ! 1))" "nw_enabled (kc_net c') (EndName (demo_three 1 ! 0))" using sides by auto
  then have "nw_enabled (kc_net c') (EndName ''b'')" "nw_enabled (kc_net c') (EndName ''d'')" by (simp_all add: demo_three_def)
  moreover have "\<not> nw_enabled (kc_net c') (EndName ''c'')" using other [rule_format, of "''c''"] by (simp add: demo_three_def)
  ultimately show ?thesis using c c' by blast
qed

text \<open>C35. With all servers up and at least two of them, \<^verbatim>\<open>make_partition\<close> returns a majority and a minority, and the leader
  (server 0 if there is none) is the last of the minority: written one after the other the two sides are all the other
  servers in order and then the leader.  With an even number of servers one cell is never assigned and server 0 is
  listed once more before the leader.\<close>

theorem make_partition_isolates_leader:
  fixes c :: "('v, 's) cluster"
  assumes "all_up c" "2 \<le> kc_n c"
  shows "\<exists>p1 p2 l. make_partition gs c = Inr (p1, p2) \<and> l < kc_n c \<and>
    (if \<exists>i < kc_n c. snd (gs i) then snd (gs l) else l = 0) \<and> length p1 = kc_n c div 2 + 1 \<and>
    p1 @ p2 = filter (\<lambda>i. i \<noteq> l) [0..<kc_n c] @ (if even (kc_n c) then [0, l] else [l])"
proof -
  from make_partition_spec [OF assms, of gs] obtain p1 p2 where p: "make_partition gs c = Inr (p1, p2)" "length p1 = kc_n c div 2 + 1"
    "p1 @ p2 = filter (\<lambda>i. i \<noteq> chosen gs (kc_n c)) [0..<kc_n c] @
      (if even (kc_n c) then [0, chosen gs (kc_n c)] else [chosen gs (kc_n c)])" .
  have "chosen gs (kc_n c) = 0" if "\<nexists>i. i < kc_n c \<and> snd (gs i)"
    using that by (simp add: chosen_def filter_empty_conv [THEN iffD2])
  then have "if \<exists>i < kc_n c. snd (gs i) then snd (gs (chosen gs (kc_n c))) else chosen gs (kc_n c) = 0"
    using chosen_leads by auto
  moreover have "chosen gs (kc_n c) < kc_n c" using chosen_less assms(2) by simp
  ultimately show ?thesis using p by blast
qed

definition demo_cluster :: "(unit, KVServer) cluster" where
  "demo_cluster = (empty_cluster 4 (-1) (MakeNetwork (\<lambda>_. MakeServer) (\<lambda>_. ServerObj (StartKVServer 0 0 0))))
     \<lparr>kc_servers := map Some [1, 3, 5, 7]\<rparr>"

text \<open>Four servers, of which the second leads.\<close>

theorem make_partition_isolates_leader_witness:
  "make_partition (\<lambda>i. (1, i = 1)) demo_cluster = Inr ([0, 2, 3], [0, 1])"
proof -
  have up: "all_up demo_cluster" "2 \<le> kc_n demo_cluster" and n: "kc_n demo_cluster = 4"
    by (simp_all add: all_up_def demo_cluster_def empty_cluster_def)
  from make_partition_isolates_leader [OF up, of "\<lambda>i. (1, i = 1)"] obtain p1 p2 l
    where p: "make_partition (\<lambda>i. (1, i = 1)) demo_cluster = Inr (p1, p2)" "l = 1" "length p1 = 3"
      "p1 @ p2 = filter (\<lambda>i. i \<noteq> l) [0..<4] @ [0, l]"
    unfolding n by auto
  have "p1 @ p2 = [0, 2, 3] @ [0, 1]" using p(2,4) by (simp add: upt_conv_Cons)
  moreover have "length p1 = length [0 :: nat, 2, 3]" using p(3) by simp
  ultimately have "p1 = [0, 2, 3]" "p2 = [0, 1]" by (metis append_eq_append_conv)+
  then show ?thesis using p(1) by simp
qed

section \<open>The sharded clerk\<close>

text \<open>C38. \<^verbatim>\<open>Get\<close> of the sharded clerk returns exactly if, in some round of its loop, the group that the configuration of that round gives
  for the key's shard has a server that answers with \<^verbatim>\<open>OK\<close> or \<^verbatim>\<open>ErrNoKey\<close>, and all servers of the group before it were tried in vain; it
  then returns the value of that answer.  In particular the lookup of the shard never panics.\<close>

theorem shardkv_Get_returns_iff:
  assumes "sends_arrays qcall" "length (Shards (kk_config ck)) = NShards"
  shows "shardkv_Get call qcall sleep key (ck, w) = Some y \<longleftrightarrow>
    (\<exists>ck' w0 pre s post w1 srv w2 reply w'. y = Inr (gr_Value reply, ck', w') \<and>
       attempts (group_attempt (\<lambda>mk_end. Get_servers call mk_end \<lparr>ga_Key = key\<rparr>) key) (latest_config qcall sleep) (ck, w) (ck', w0) \<and>
       Groups (kk_config ck') (Shards (kk_config ck') ! key2shard key) = Some (pre @ s # post) \<and>
       asking.in_vain (Get_one call (kk_make_end ck') \<lparr>ga_Key = key\<rparr>) pre w0 w1 \<and>
       kk_make_end ck' s w1 = (srv, w2) \<and> call srv ''ShardKV.Get'' \<lparr>ga_Key = key\<rparr> w2 = (Some reply, w') \<and>
       gr_Err reply \<in> {OK, ErrNoKey})"
proof -
  have one: "Get_one call mk_end args s w1 = (Answer v, w') \<longleftrightarrow>
      (\<exists>srv w2 reply. mk_end s w1 = (srv, w2) \<and> call srv ''ShardKV.Get'' args w2 = (Some reply, w') \<and>
        gr_Err reply \<in> {OK, ErrNoKey} \<and> v = gr_Value reply)" for mk_end args s w1 v w'
    by (auto simp: Get_one_def split: prod.split option.split)
  show ?thesis unfolding shardkv_Get_def Let_def group_retry_iff [OF assms] get.ask_answers_iff one by blast
qed

text \<open>
  A clerk that knows no group at first: the controller gives it a configuration with the servers \<^verbatim>\<open>a\<close>, which does not answer, and \<^verbatim>\<open>b\<close>.
  The world counts the calls.
\<close>

definition demo_config :: Config where
  "demo_config = \<lparr>Num = 1, Shards = replicate NShards 100, Groups = [100 \<mapsto> [''a'', ''b'']]\<rparr>"

definition demo_qcall :: "(string, QueryArgs, QueryReply, nat) calls" where
  "demo_qcall srv meth args w = (Some \<lparr>cr_WrongLeader = False, cr_Err = OK, qr_Config = demo_config\<rparr>, Suc w)"

definition demo_get_call :: "(string, GetArgs, GetReply, nat) calls" where
  "demo_get_call srv meth args w = (if srv = ''b'' then Some \<lparr>gr_Err = OK, gr_Value = ''v''\<rparr> else None, Suc w)"

definition demo_clerk :: "(string, nat) shardkv_clerk" where
  "demo_clerk = shardkv_MakeClerk [''c''] Pair"

lemma demo_sends_arrays: "sends_arrays demo_qcall"
  by (simp add: sends_arrays_def demo_qcall_def demo_config_def)

lemma demo_second_round:
  "attempts (group_attempt (\<lambda>mk_end. Get_servers demo_get_call mk_end \<lparr>ga_Key = ''k''\<rparr>) ''k'') (latest_config demo_qcall id)
     (demo_clerk, 0) (demo_clerk\<lparr>kk_config := demo_config\<rparr>, 1)"
proof (rule attempts.again [OF attempts.first])
  show "group_attempt (\<lambda>mk_end. Get_servers demo_get_call mk_end \<lparr>ga_Key = ''k''\<rparr>) ''k'' (demo_clerk, 0) = Inr (None, (demo_clerk, 0))"
    by (simp add: group_attempt_def demo_clerk_def shardkv_MakeClerk_def zero_Config_def key2shard_def NShards_def)
  show "latest_config demo_qcall id (demo_clerk, 0) = Some (demo_clerk\<lparr>kk_config := demo_config\<rparr>, 1)"
    by (simp add: latest_config_def Clerk_Query_def until_leader_def retry.simps demo_clerk_def shardkv_MakeClerk_def
        ctrler_MakeClerk_def demo_qcall_def Let_def)
qed

theorem shardkv_Get_returns_iff_witness:
  "shardkv_Get demo_get_call demo_qcall id ''k'' (demo_clerk, 0) = Some (Inr (''v'', demo_clerk\<lparr>kk_config := demo_config\<rparr>, 3))"
proof -
  have len: "length (Shards (kk_config demo_clerk)) = NShards"
    by (simp add: demo_clerk_def shardkv_MakeClerk_def zero_Config_def)
  have "Groups demo_config (Shards demo_config ! key2shard ''k'') = Some ([''a''] @ ''b'' # [])"
    using key2shard_less [of "''k''"] by (simp add: demo_config_def)
  moreover have "asking.in_vain (Get_one demo_get_call Pair \<lparr>ga_Key = ''k''\<rparr>) [''a''] 1 2"
    by (simp add: get.in_vain_simps Get_one_def demo_get_call_def)
  moreover have "demo_get_call ''b'' ''ShardKV.Get'' \<lparr>ga_Key = ''k''\<rparr> 2 = (Some \<lparr>gr_Err = OK, gr_Value = ''v''\<rparr>, 3)"
    by (simp add: demo_get_call_def)
  moreover have "kk_make_end (demo_clerk\<lparr>kk_config := demo_config\<rparr>) = Pair" by (simp add: demo_clerk_def shardkv_MakeClerk_def)
  ultimately have ex: "\<exists>w1 srv w2 reply. Inr (''v'', demo_clerk\<lparr>kk_config := demo_config\<rparr>, 3) =
        (Inr (gr_Value reply, demo_clerk\<lparr>kk_config := demo_config\<rparr>, 3) :: (string \<times> (string, nat) shardkv_clerk \<times> nat) result) \<and>
      Groups (kk_config (demo_clerk\<lparr>kk_config := demo_config\<rparr>)) (Shards (kk_config (demo_clerk\<lparr>kk_config := demo_config\<rparr>)) ! key2shard ''k'') =
        Some ([''a''] @ ''b'' # []) \<and>
      asking.in_vain (Get_one demo_get_call (kk_make_end (demo_clerk\<lparr>kk_config := demo_config\<rparr>)) \<lparr>ga_Key = ''k''\<rparr>) [''a''] 1 w1 \<and>
      kk_make_end (demo_clerk\<lparr>kk_config := demo_config\<rparr>) ''b'' w1 = (srv, w2) \<and>
      demo_get_call srv ''ShardKV.Get'' \<lparr>ga_Key = ''k''\<rparr> w2 = (Some reply, 3) \<and> gr_Err reply \<in> {OK, ErrNoKey}"
    by (intro exI [of _ "2 :: nat"] exI [of _ "''b''"] exI [of _ "\<lparr>gr_Err = OK, gr_Value = ''v''\<rparr>"]) simp
  show ?thesis
    by (rule shardkv_Get_returns_iff [OF demo_sends_arrays len, THEN iffD2]) (use ex demo_second_round in blast)
qed

section \<open>The configuration of the sharded service\<close>

text \<open>C39. With random names that are all different, \<^verbatim>\<open>make_config\<close> of the sharded service succeeds and then \<^verbatim>\<open>makeClient\<close> succeeds exactly if
  there are three servers per group: with more, \<^verbatim>\<open>mendnames\<close>, which has a row per controller, is indexed out of range when the fourth
  server of a group is started; with fewer, the slice \<^verbatim>\<open>endnames\<close> of \<^verbatim>\<open>makeClient\<close> is too short for the three controllers.\<close>

theorem skv_config_usable_iff:
  assumes "inj rand" "nw_ends net = {}"
  shows "(\<exists>c x. skv_make_config zero rand n unreliable maxraftstate net = Inr c \<and> skv_makeClient c = Inr x) \<longleftrightarrow> n = 3"
proof (cases "n \<le> 3")
  case True
  then obtain c where c: "skv_make_config zero rand n unreliable maxraftstate net = Inr c" "usable n 3 3 c"
    using make_config_outcome [OF assms, of n zero unreliable maxraftstate] by auto
  then show ?thesis using makeClient_outcome [OF c(2)] True by (cases "n = 3") auto
next
  case False
  then show ?thesis using make_config_outcome [OF assms, of n zero unreliable maxraftstate] by auto
qed

theorem skv_config_usable_iff_witness:
  "(\<exists>c x. skv_make_config () (\<lambda>k. replicate k CHR ''a'') 3 False (-1)
       (MakeNetwork (\<lambda>_. MakeServer) (\<lambda>_. CtrlerObj (ctrler_StartServer 0 0))) = Inr c \<and> skv_makeClient c = Inr x) \<and>
   \<not> (\<exists>c x. skv_make_config () (\<lambda>k. replicate k CHR ''a'') 5 False (-1)
       (MakeNetwork (\<lambda>_. MakeServer) (\<lambda>_. CtrlerObj (ctrler_StartServer 0 0))) = Inr c \<and> skv_makeClient c = Inr x)"
proof -
  have i: "inj (\<lambda>k. replicate k CHR ''a'')" by (rule injI) (metis length_replicate)
  have e: "nw_ends (MakeNetwork (\<lambda>_. MakeServer) (\<lambda>_. CtrlerObj (ctrler_StartServer 0 0)) :: (string, unit, skv_object) network) = {}"
    by (simp add: MakeNetwork_def)
  show ?thesis unfolding skv_config_usable_iff [OF i e] by simp
qed

section \<open>A restart\<close>

text \<open>C37. In a new configuration of \<^verbatim>\<open>kvraft\<close>, after the peers have saved anything, a server is shut down: its ends are disabled in both
  directions and its server is gone.  Then, after the old instance may have written its persister once more, it is started again with new random
  names: the peer of the new server reads from a persister of its own, which contains what had been saved at the time of the
  shutdown.\<close>

theorem kv_restart_keeps_state:
  assumes "fresh_draws draws n" "nw_ends net = {}" "i < n" "length names = n" "distinct names" "\<forall>j < n. set names \<inter> set (draws j) = {}"
  shows "\<exists>c a p c1 c2 a2 p2 rf. kc_make_config (kv_ops zero) zero draws n unreliable maxraftstate net = Inr c \<and>
    kc_servers c ! i = Some a \<and> kc_saved c ! i = Some p \<and>
    ShutdownServer (kv_ops zero) i (c\<lparr>kc_persisters := ps\<rparr>) = Inr c1 \<and> nw_servers (kc_net c1) (ServerName i) = None \<and>
    (\<forall>j < n. \<not> nw_enabled (kc_net c1) (EndName (draws i ! j)) \<and> \<not> nw_enabled (kc_net c1) (EndName (draws j ! i))) \<and>
    StartServer (kv_ops zero) zero names i (c1\<lparr>kc_persisters := (kc_persisters c1)(p := q)\<rparr>) = Inr c2 \<and>
    kc_servers c2 ! i = Some a2 \<and> kc_saved c2 ! i = Some p2 \<and> peer_of (kv_ops zero) c2 a2 = Some rf \<and>
    rf_persister rf = p2 \<and> p2 \<noteq> p \<and> kc_persisters c2 p2 = ps p"
proof -
  obtain c where c: "kc_make_config (kv_ops zero) zero draws n unreliable maxraftstate net = Inr c" "kc_n c = n" "wired c"
    and en: "\<And>i j. i < n \<Longrightarrow> en c i j = draws i ! j"
    using kc_make_config_ok [OF assms(1,2)] by metis
  note new = kvserver.new_config_running [OF c(1) assms(1,2)]
  obtain a p where ap: "running (kv_ops zero) c i a p" using new(1) assms(3) by (auto simp: all_running_def)
  let ?c = "c\<lparr>kc_persisters := ps\<rparr>"
  have same: "wired ?c" "running (kv_ops zero) ?c i a p" "en ?c = en c" using c(3) ap by (simp_all add: wired_def running_def en_def fun_eq_iff)
  have free: "EndName ` set names \<inter> nw_ends (kc_net ?c) = {}"
    using new_config_ends [OF c(1) assms(1,2)] assms(6) by auto
  from kvserver.restart [OF same(1) _ _ _ same(2), where names = names and q = q] assms(3-5) c(2) new(2,3) free
  obtain c1 c2 a2 p2 where r: "ShutdownServer (kv_ops zero) i ?c = Inr c1" "nw_servers (kc_net c1) (ServerName i) = None"
    "\<forall>j < n. \<not> nw_enabled (kc_net c1) (EndName (en ?c i j)) \<and> \<not> nw_enabled (kc_net c1) (EndName (en ?c j i))"
    "StartServer (kv_ops zero) zero names i (c1\<lparr>kc_persisters := (kc_persisters c1)(p := q)\<rparr>) = Inr c2"
    "running (kv_ops zero) c2 i a2 p2" "p2 \<noteq> p" "kc_persisters c2 p2 = ps p"
    by simp metis
  have off: "\<forall>j < n. \<not> nw_enabled (kc_net c1) (EndName (draws i ! j)) \<and> \<not> nw_enabled (kc_net c1) (EndName (draws j ! i))"
    using r(3) assms(3) en same(3) by simp
  obtain rf where rf: "peer_of (kv_ops zero) c2 a2 = Some rf" "rf_persister rf = p2" using kvserver.running_peer [OF r(5)] by blast
  have "kc_servers c ! i = Some a" "kc_saved c ! i = Some p" "kc_servers c2 ! i = Some a2" "kc_saved c2 ! i = Some p2"
    using ap r(5) by (simp_all add: running_def)
  then show ?thesis using c(1) r(1,2,4,6,7) off rf by blast
qed

definition demo_draws :: "nat \<Rightarrow> string list" where
  "demo_draws i = (if i = 0 then [''a'', ''b''] else [''c'', ''d''])"

definition demo_kv_net :: "(name, unit, KVServer object) network" where
  "demo_kv_net = MakeNetwork (\<lambda>_. MakeServer) (\<lambda>_. ServerObj (StartKVServer 0 0 0))"

lemma demo_draws_fresh: "fresh_draws demo_draws 2"
  by (simp add: fresh_draws_def demo_draws_def upt_conv_Cons numeral_2_eq_2)

lemma demo_names_fresh: "\<forall>j < 2. set [''e'', ''f''] \<inter> set (demo_draws j) = {}"
  by (simp add: demo_draws_def)

theorem kv_restart_keeps_state_witness:
  "\<exists>c a p c1 c2 a2 p2 rf. kc_make_config (kv_ops ()) () demo_draws 2 False (-1) demo_kv_net = Inr c \<and>
     kc_servers c ! 1 = Some a \<and> kc_saved c ! 1 = Some p \<and>
     ShutdownServer (kv_ops ()) 1 (c\<lparr>kc_persisters := (\<lambda>_. SaveRaftState [7] MakePersister)\<rparr>) = Inr c1 \<and>
     \<not> nw_enabled (kc_net c1) (EndName ''b'') \<and>
     StartServer (kv_ops ()) () [''e'', ''f''] 1 (c1\<lparr>kc_persisters := (kc_persisters c1)(p := SaveRaftState [8] MakePersister)\<rparr>) = Inr c2 \<and>
     kc_servers c2 ! 1 = Some a2 \<and> peer_of (kv_ops ()) c2 a2 = Some rf \<and> rf_persister rf = p2 \<and>
     ReadRaftState (kc_persisters c2 p2) = [7]"
proof -
  have e: "nw_ends demo_kv_net = {}" by (simp add: demo_kv_net_def MakeNetwork_def)
  have r: "ReadRaftState (SaveRaftState [7] MakePersister) = [7]" by (rule ps.saveState_laws)
  have b: "demo_draws 0 ! 1 = ''b''" by (simp add: demo_draws_def)
  have i: "(1 :: nat) < 2" "length [''e'', ''f''] = 2" "distinct [''e'', ''f'']" by simp_all
  from kv_restart_keeps_state [OF demo_draws_fresh e i demo_names_fresh, of "()" False "-1" "\<lambda>_. SaveRaftState [7] MakePersister" "SaveRaftState [8] MakePersister"]
  obtain c a p c1 c2 a2 p2 rf where c: "kc_make_config (kv_ops ()) () demo_draws 2 False (-1) demo_kv_net = Inr c"
     "kc_servers c ! 1 = Some a" "kc_saved c ! 1 = Some p"
     "ShutdownServer (kv_ops ()) 1 (c\<lparr>kc_persisters := (\<lambda>_. SaveRaftState [7] MakePersister)\<rparr>) = Inr c1"
     "\<forall>j < 2. \<not> nw_enabled (kc_net c1) (EndName (demo_draws 1 ! j)) \<and> \<not> nw_enabled (kc_net c1) (EndName (demo_draws j ! 1))"
     "StartServer (kv_ops ()) () [''e'', ''f''] 1 (c1\<lparr>kc_persisters := (kc_persisters c1)(p := SaveRaftState [8] MakePersister)\<rparr>) = Inr c2"
     "kc_servers c2 ! 1 = Some a2" "peer_of (kv_ops ()) c2 a2 = Some rf" "rf_persister rf = p2"
     "kc_persisters c2 p2 = SaveRaftState [7] MakePersister" by blast
  have "\<not> nw_enabled (kc_net c1) (EndName ''b'')" using c(5) [rule_format, of 0] b by simp
  moreover have "ReadRaftState (kc_persisters c2 p2) = [7]" using c(10) r by simp
  ultimately show ?thesis using c(1-4,6-9) by blast
qed

section \<open>Random names\<close>

text \<open>C40. The configurations name their ends by \<^verbatim>\<open>randstring(20)\<close>.  For any type of server, any number \<open>n\<close> of servers and any random bytes: no
  draw panics, each name has 20 characters of the URL alphabet of base64, and \<^verbatim>\<open>make_config\<close> succeeds, with every pair of servers
  connected, exactly if no two of the \<open>n * n\<close> draws agree in their first fifteen bytes; if two do, it ends in the
  \<^verbatim>\<open>log.Fatalf\<close> of \<^verbatim>\<open>MakeEnd\<close>, and in no other way.  So 120 of the 320 random bits of each draw count.\<close>

theorem random_config_iff:
  fixes ops :: "('v, 's) server_ops"
  assumes "nw_ends net = {}"
  shows "if inj_on (\<lambda>(i, j). map (rnd i j) [0..<15]) ({..<n} \<times> {..<n})
    then \<exists>c. kc_random_config ops zero rnd n unreliable maxraftstate net = Inr c \<and>
      (\<forall>i < n. \<forall>j < n. \<exists>s. randstring 20 (rnd i j) = Inr s \<and> length s = 20 \<and> set s \<subseteq> set url_alphabet \<and>
         kc_endname c i j = Inr s \<and> nw_enabled (kc_net c) (EndName s))
    else kc_random_config ops zero rnd n unreliable maxraftstate net = Inl (Fatal ''MakeEnd: already exists'')"
proof (cases "inj_on (\<lambda>(i, j). map (rnd i j) [0..<15]) ({..<n} \<times> {..<n})")
  case True
  let ?draws = "\<lambda>i. map (\<lambda>i. map (\<lambda>j. random_name 20 (rnd i j)) [0..<n]) [0..<n] ! i"
  have f: "fresh_draws ?draws n" using True random_draws_fresh by blast
  from kc_make_config_ok [OF f assms] obtain c
    where c: "kc_make_config ops zero ?draws n unreliable maxraftstate net = Inr c" "kc_n c = n" "wired c" "all_connected c"
      and en: "\<And>i j. i < n \<Longrightarrow> en c i j = ?draws i ! j" by metis
  have "kc_endname c i j = Inr (random_name 20 (rnd i j)) \<and> nw_enabled (kc_net c) (EndName (random_name 20 (rnd i j)))"
    if ij: "i < n" "j < n" for i j
  proof -
    have "en c i j = random_name 20 (rnd i j)" using en [OF ij(1), of j] ij by simp
    then show ?thesis using kc_endname_wired [OF c(3), of i j] c(2,4) ij by (metis all_connected_def)
  qed
  then show ?thesis using True c(1) randstring_ok [of 20] unfolding kc_random_config_eq by (simp cong: conj_cong)
next
  case False
  have "kc_random_config ops zero rnd n unreliable maxraftstate net = Inl end_exists"
    unfolding kc_random_config_eq by (rule kc_make_config_clash) (use False assms in \<open>simp_all add: random_draws_fresh\<close>)
  then show ?thesis using False by simp
qed

text \<open>Two servers whose names differ in the fifteenth byte; and two that differ in the sixteenth only.\<close>

theorem random_config_iff_witness:
  "(\<exists>c. kc_random_config (kv_ops ()) () (\<lambda>i j k. if k = 14 then of_nat (2 * i + j) else 0) 2 False (-1) demo_kv_net = Inr c) \<and>
   kc_random_config (kv_ops ()) () (\<lambda>i j k. if k = 15 then of_nat (2 * i + j) else 0) 2 False (-1) demo_kv_net =
     Inl (Fatal ''MakeEnd: already exists'')"
proof -
  have e: "nw_ends demo_kv_net = {}" by (simp add: demo_kv_net_def MakeNetwork_def)
  have two: "{..<2 :: nat} = {0, 1}" by auto
  have u: "[0..<15] = [0, 1, 2, 3, 4, 5, 6, 7, 8, 9, 10, 11, 12, 13, 14 :: nat]" by (simp add: upt_rec)
  have "inj_on (\<lambda>(i, j). map ((\<lambda>i j k. if k = 14 then of_nat (2 * i + j) else (0 :: 8 word)) i j) [0..<15]) ({..<2} \<times> {..<2})"
    "\<not> inj_on (\<lambda>(i, j). map ((\<lambda>i j k. if k = 15 then of_nat (2 * i + j) else (0 :: 8 word)) i j) [0..<15]) ({..<2} \<times> {..<2})"
    unfolding two u inj_on_def by simp_all
  then show ?thesis
    using random_config_iff [OF e, of "\<lambda>i j k. if k = 14 then of_nat (2 * i + j) else 0" 2 "kv_ops ()" "()" False "-1"]
      random_config_iff [OF e, of "\<lambda>i j k. if k = 15 then of_nat (2 * i + j) else 0" 2 "kv_ops ()" "()" False "-1"]
    by (auto split: if_splits)
qed

section \<open>Requests that the servers answer\<close>

text \<open>C22. In a new configuration of \<^verbatim>\<open>kvraft\<close>, for any number of servers and any different random names, every server is registered on the
  network, and it dispatches a request without panic or \<^verbatim>\<open>log.Fatal\<close> exactly if the request names \<^verbatim>\<open>KVServer.Get\<close>,
  \<^verbatim>\<open>KVServer.PutAppend\<close> or \<^verbatim>\<open>Raft.RequestVote\<close>: both services are there, and no other exported method (\<^verbatim>\<open>Kill\<close>,
  \<^verbatim>\<open>Start\<close>, \<^verbatim>\<open>GetState\<close>, \<^verbatim>\<open>Snapshot\<close>) can be called over the network.\<close>

theorem kv_config_exposes:
  assumes "kc_make_config (kv_ops zero) zero draws n unreliable maxraftstate net = Inr c" "fresh_draws draws n" "nw_ends net = {}" "j < n"
  shows "\<exists>a. nw_servers (kc_net c) (ServerName j) = Some a \<and>
    (\<forall>req :: ('m, 'v) reqMsg. (\<exists>x. Server_dispatch cd (nw_objs (kc_net c)) (nw_store (kc_net c) a) req = Inr x) \<longleftrightarrow>
       rq_svcMeth req \<in> {''KVServer.Get'', ''KVServer.PutAppend'', ''Raft.RequestVote''})"
  by (rule kv_config_dispatch [OF assms])

theorem kv_config_exposes_witness:
  "\<exists>c a. kc_make_config (kv_ops ()) () (\<lambda>_. [''a'']) 1 False (-1) demo_kv_net = Inr c \<and> nw_servers (kc_net c) (ServerName 0) = Some a \<and>
     (\<exists>x. Server_dispatch \<lparr>gob_encode = (\<lambda>_. Some []), gob_decode = (\<lambda>_ _. Some ())\<rparr> (nw_objs (kc_net c)) (nw_store (kc_net c) a)
        \<lparr>rq_endname = ''e'', rq_svcMeth = ''KVServer.Get'', rq_zero = (), rq_args = []\<rparr> = Inr x) \<and>
     (\<nexists>x. Server_dispatch \<lparr>gob_encode = (\<lambda>_. Some []), gob_decode = (\<lambda>_ _. Some ())\<rparr> (nw_objs (kc_net c)) (nw_store (kc_net c) a)
        \<lparr>rq_endname = ''e'', rq_svcMeth = ''KVServer.Kill'', rq_zero = (), rq_args = []\<rparr> = Inr x)"
proof -
  have f: "fresh_draws (\<lambda>_. [''a'']) 1" by (simp add: fresh_draws_def)
  have e: "nw_ends demo_kv_net = {}" by (simp add: demo_kv_net_def MakeNetwork_def)
  obtain c where c: "kc_make_config (kv_ops ()) () (\<lambda>_. [''a'']) 1 False (-1) demo_kv_net = Inr c" using kc_make_config_ok [OF f e] by metis
  let ?cd = "\<lparr>gob_encode = (\<lambda>_. Some []), gob_decode = (\<lambda>_ _. Some ())\<rparr>"
  let ?req = "\<lambda>s. \<lparr>rq_endname = ''e'', rq_svcMeth = s, rq_zero = (), rq_args = []\<rparr>"
  obtain a where a: "nw_servers (kc_net c) (ServerName 0) = Some a"
    "\<And>s. (\<exists>x. Server_dispatch ?cd (nw_objs (kc_net c)) (nw_store (kc_net c) a) (?req s) = Inr x) \<longleftrightarrow>
       s \<in> {''KVServer.Get'', ''KVServer.PutAppend'', ''Raft.RequestVote''}"
    using kv_config_exposes [where cd = ?cd and 'm = string, OF c f e zero_less_one] by auto
  have "''KVServer.Get'' \<in> {''KVServer.Get'', ''KVServer.PutAppend'', ''Raft.RequestVote''}"
    "''KVServer.Kill'' \<notin> {''KVServer.Get'', ''KVServer.PutAppend'', ''Raft.RequestVote''}" by simp_all
  then show ?thesis using c a(1) unfolding a(2) [symmetric] by blast
qed

section \<open>A query over the network\<close>

text \<open>C36. Configuration, network and clerk of the shard controller together: in a new configuration with a reliable network, a
  client that is connected to at least one of the servers, whatever the order of its shuffled handles, gets an answer to \<^verbatim>\<open>Query\<close> in the
  first round, when the clerk's calls are not interleaved with others: calls to servers that it is not connected to fail, and the first
  other one is executed by its server, whose reply the clerk returns.  (The outline's handler leaves the reply as it is.)\<close>

theorem query_answered:
  fixes net :: "(name, 'v, ShardCtrler object) network"
  assumes "gob_keeps_zero cd zero" "gob_transfer cd (enc \<lparr>qa_Num = num\<rparr>) zero \<noteq> None" "fresh_draws draws n" "nw_ends net = {}" "calm net"
    and "length names = n" "distinct names" "\<forall>j < n. set names \<inter> set (draws j) = {}" "to \<noteq> []" "set to \<subseteq> {..<n}"
    and "\<not> cr_WrongLeader (dec zero)"
  shows "\<exists>c a ck c' net'. ctrler_make_config zero draws n False net = Inr c \<and>
    ctrler_makeClient names draw to c = Inr (a, ck, c') \<and>
    Clerk_Query (net_call cd enc dec zero) sleep ck num (kc_net c') = Some (qr_Config (dec zero), net') \<and>
    nw_objs net' = nw_objs (kc_net c')"
proof -
  let ?ops = "ctrler_ops zero"
  obtain c where c: "kc_make_config ?ops zero draws n False 0 net = Inr c" "kc_n c = n"
    using kc_make_config_ok [OF assms(3,4)] by metis
  have free: "EndName ` set names \<inter> nw_ends (kc_net c) = {}" using new_config_ends [OF c(1) assms(3,4)] assms(8) by auto
  let ?es = "random_handles draw (map EndName names)"
  obtain a c' where cl: "makeClient names draw to c = Inr (a, MakeClerk ?es, c')" "hosted ?ops zero n c'" "calm (kc_net c')"
      "\<And>j. j < n \<Longrightarrow> nw_connections (kc_net c') (EndName (names ! j)) = Some (ServerName j)"
      "\<And>j. j < n \<Longrightarrow> nw_enabled (kc_net c') (EndName (names ! j)) = (j \<in> set to)"
    using makeClient_reaches [where names = names and to = to and draw = draw, OF new_config_hosted(1) [OF c(1) assms(3,4), folded c(2)]
        new_config_hosted(2) [OF c(1) assms(3,4) _ assms(5)]] assms(6,7,10) free c(2) by metis
  let ?up = "(\<lambda>j. EndName (names ! j)) ` set to"
  have es: "set ?es = EndName ` set names" using random_handles_mset [of draw "map EndName names"] by (metis list.set_map set_mset_mset)
  have "wired_clerk zero c' ?up (kc_net c') ?es"
    unfolding wired_clerk_def
  proof (intro conjI ballI)
    fix e assume "e \<in> set ?es"
    then obtain j where j: "j < n" "e = EndName (names ! j)" using es assms(6) by (auto simp: in_set_conv_nth)
    have "names ! j = names ! t \<longleftrightarrow> j = t" if "t \<in> set to" for t
      using that j(1) assms(6,7,10) by (auto simp: nth_eq_iff_index_eq)
    then have "e \<in> ?up \<longleftrightarrow> j \<in> set to" unfolding j(2) by auto
    then show "nw_enabled (kc_net c') e = (e \<in> ?up)" using cl(5) [OF j(1)] j(2) by simp
    show "\<exists>j a. nw_connections (kc_net c') e = Some (ServerName j) \<and> host_at ?ops zero c' j a"
      using cl(2) cl(4) [OF j(1)] j by (auto simp: hosted_def)
  qed (simp_all add: cl(3))
  moreover have "set ?es \<inter> ?up \<noteq> {}"
  proof -
    obtain t where t: "t \<in> set to" using assms(9) by (cases to) auto
    then have "EndName (names ! t) \<in> set ?es \<inter> ?up" using es assms(6,10) by auto
    then show ?thesis by blast
  qed
  ultimately obtain net' where n': "try_ctrlers (\<lambda>srv. net_call cd enc dec zero srv ''ShardCtrler.Query'' \<lparr>qa_Num = num\<rparr>) ?es (kc_net c') =
      (Some (dec zero), net')" "nw_objs net' = nw_objs (kc_net c')"
    using try_wired [where cd = cd and enc = enc and dec = dec and zero = zero and c = c' and up = ?up and net = "kc_net c'" and es = ?es] assms(1,2,11)
    by meson
  then have "Clerk_Query (net_call cd enc dec zero) sleep (ctrler_MakeClerk ?es) num (kc_net c') = Some (qr_Config (dec zero), net')"
    by (simp add: Clerk_Query_def until_leader_def ctrler_MakeClerk_def retry.simps Let_def)
  moreover have "ctrler_makeClient names draw to c = Inr (a, ctrler_MakeClerk ?es, c')" by (simp add: ctrler_makeClient_eq cl(1) MakeClerk_def)
  ultimately show ?thesis using c(1) n'(2) by (auto simp: ctrler_make_config_def)
qed

definition demo_ctrler_net :: "(name, bytes, ShardCtrler object) network" where
  "demo_ctrler_net = MakeNetwork (\<lambda>_. MakeServer) (\<lambda>_. ServerObj (ctrler_StartServer 0 0))"

definition demo_gob :: "bytes codec" where
  "demo_gob = \<lparr>gob_encode = Some, gob_decode = (\<lambda>b t. Some (if b = [] then t else b))\<rparr>"

definition demo_reply :: "bytes \<Rightarrow> QueryReply" where
  "demo_reply b = \<lparr>cr_WrongLeader = b \<noteq> [], cr_Err = [], qr_Config = zero_Config\<rparr>"

theorem query_answered_witness:
  "\<exists>c a ck c' net'. ctrler_make_config [] demo_draws 2 False demo_ctrler_net = Inr c \<and>
     ctrler_makeClient [''e'', ''f''] (\<lambda>_. 0) [1] c = Inr (a, ck, c') \<and>
     Clerk_Query (net_call demo_gob (\<lambda>args. [of_int (qa_Num args)]) demo_reply []) id ck (-1) (kc_net c') =
       Some (zero_Config, net')"
proof -
  have g: "gob_keeps_zero demo_gob []" "gob_transfer demo_gob [of_int (qa_Num \<lparr>qa_Num = -1\<rparr>)] [] \<noteq> None"
    by (simp_all add: demo_gob_def gob_keeps_zero_def gob_transfer_def)
  have e: "nw_ends demo_ctrler_net = {}" "calm demo_ctrler_net" by (simp_all add: demo_ctrler_net_def MakeNetwork_def calm_def)
  have i: "length [''e'', ''f''] = 2" "distinct [''e'', ''f'']" "[1 :: nat] \<noteq> []" "set [1 :: nat] \<subseteq> {..<2}" by simp_all
  have d: "\<not> cr_WrongLeader (demo_reply [])" "qr_Config (demo_reply []) = zero_Config" by (simp_all add: demo_reply_def)
  show ?thesis
    using query_answered [where dec = demo_reply and zero = "[]" and draw = "\<lambda>_. 0" and enc = "\<lambda>args. [of_int (qa_Num args)]" and sleep = id and num = "-1",
        OF g demo_draws_fresh e i(1,2) demo_names_fresh i(3,4) d(1)] d(2)
    by metis
qed

section \<open>Positive replies\<close>

text \<open>C17. Network and configuration of \<^verbatim>\<open>kvraft\<close> together.  A client of a new configuration calls server \<open>i\<close>, whose handler saves the update before it
  returns.  The call interleaves in any way with changes of connections, with shutdowns, stretch by stretch, and restarts of any servers,
  and with saves of any instance, alive or not, that lose nothing of what their persister holds.  If the caller gets a positive
  reply, then the persister that is saved for server \<open>i\<close>, from which its next instance starts, holds the update, then and ever
  after.\<close>

theorem acked_update_survives:
  assumes "kc_make_config (kv_ops zero) zero draws n unreliable maxraftstate net = Inr c0" "fresh_draws draws n" "nw_ends net = {}"
    and "nw_servers net = (\<lambda>_. None)" "makeClient names draw to c0 = Inr (a, ck, c)" "length names = n" "distinct names" "i < n"
    and "fresh_call k" "rq_endname (cl_req k) = EndName (names ! i)"
    and "du_run (kv_ops zero) zero cd holds evs (durable_start (kv_ops zero) c k) = Some st" "cl_phase (du_call st) = Replied r" "rp_ok r"
  shows "\<exists>p. kc_saved (du_c st) ! i = Some p \<and> holds (kc_persisters (du_c st) p)"
  by (rule kvserver.positive_reply_saved [OF kvserver.du_run_durable [OF assms(11) kvserver.new_client_durable [OF assms(1-10)]] assms(12,13)])

definition demo_kv_call :: "(name, unit) call" where
  "demo_kv_call = \<lparr>cl_req = \<lparr>rq_endname = EndName ''e'', rq_svcMeth = ''KVServer.PutAppend'', rq_zero = (), rq_args = []\<rparr>, cl_phase = Arrived, cl_handler = Idle\<rparr>"

definition demo_unit_gob :: "unit codec" where
  "demo_unit_gob = \<lparr>gob_encode = (\<lambda>_. Some []), gob_decode = (\<lambda>_ _. Some ())\<rparr>"

text \<open>The handler saves \<open>[7]\<close>; its server is shut down just after the decision, and started again.\<close>

definition demo_history :: "du_event list" where
  "demo_history = [Own ReadInfo MakePersister, Own (Deliver 0) MakePersister, Own Execute (SaveRaftState [7] MakePersister), Own TakeReply MakePersister,
     Own (Decide 0 0) MakePersister, Isolate 0, Delete 0, Save 0 (SaveRaftState [7] MakePersister), Supersede 0, KillServer 0, Restart 0 [''f'']]"

lemma demo_history_runs:
  "case kc_make_config (kv_ops ()) () (\<lambda>_. [''a'']) 1 False (-1) demo_kv_net of
     Inl _ \<Rightarrow> False
   | Inr c0 \<Rightarrow>
       (case makeClient [''e''] (\<lambda>_. 0) [0] c0 of
          Inl _ \<Rightarrow> False
        | Inr (a, ck, c) \<Rightarrow>
            (case du_run (kv_ops ()) () demo_unit_gob (\<lambda>ps. ReadRaftState ps = [7]) demo_history (durable_start (kv_ops ()) c demo_kv_call) of
               None \<Rightarrow> False
             | Some st \<Rightarrow> (case cl_phase (du_call st) of Replied r \<Rightarrow> rp_ok r \<and> kc_saved (du_c st) ! 0 = Some 5 | _ \<Rightarrow> False)))"
proof -
  have sp: "split_svcMeth ''KVServer.PutAppend'' = Inr (''KVServer'', ''PutAppend'')" by code_simp
  have rd: "ReadRaftState (SaveRaftState [7] MakePersister) = [7]" by (rule ps.saveState_laws)
  show ?thesis
    by (simp add: kc_make_config_def demo_kv_net_def MakeNetwork_def empty_cluster_def StartServer_def Let_def kc_make_end_def MakeEnd_def Connect_def
        kc_save_def Raft_Make_def readPersist_def kv_ops_def AddServer_def ConnectAll_def connectUnlocked_def kc_All_def kc_endname_def kc_enable_def Enable_def
        Reliable_def makeClient_def ConnectClientUnlocked_def clerk_names_def demo_history_def durable_start_def live_pers_def peer_of_def
        StartKVServer_def du_own_def call_step_def demo_kv_call_def readEndnameInfo_def run_handler_def Server_dispatch_def sp Service_dispatch_def
        AddService_def MakeService_def MakeServer_def handler_method_def KVServer_PutAppend_def plain_method_def demo_unit_gob_def decide_def isServerDead_def
        failure_def add_bytes_def du_shut_def of_result_def disconnectUnlocked_def shut_delete_def DeleteServer_def shut_supersede_def Persister_Copy_same
        shut_kill_def kc_kill_def KVServer_Kill_def Raft_Kill_def du_restart_def rd)
qed

theorem acked_update_survives_witness:
  "\<exists>c0 a ck c st r p. kc_make_config (kv_ops ()) () (\<lambda>_. [''a'']) 1 False (-1) demo_kv_net = Inr c0 \<and> makeClient [''e''] (\<lambda>_. 0) [0] c0 = Inr (a, ck, c) \<and>
     du_run (kv_ops ()) () demo_unit_gob (\<lambda>ps. ReadRaftState ps = [7]) demo_history (durable_start (kv_ops ()) c demo_kv_call) = Some st \<and>
     cl_phase (du_call st) = Replied r \<and> rp_ok r \<and> kc_saved (du_c st) ! 0 = Some p \<and> ReadRaftState (kc_persisters (du_c st) p) = [7]"
proof -
  obtain c0 a ck c st r where h: "kc_make_config (kv_ops ()) () (\<lambda>_. [''a'']) 1 False (-1) demo_kv_net = Inr c0"
      "makeClient [''e''] (\<lambda>_. 0) [0] c0 = Inr (a, ck, c)"
      "du_run (kv_ops ()) () demo_unit_gob (\<lambda>ps. ReadRaftState ps = [7]) demo_history (durable_start (kv_ops ()) c demo_kv_call) = Some st"
      "cl_phase (du_call st) = Replied r" "rp_ok r"
    using demo_history_runs by (fastforce split: sum.splits prod.splits option.splits phase.splits)
  have f: "fresh_draws (\<lambda>_. [''a'']) 1" "nw_ends demo_kv_net = {}" "nw_servers demo_kv_net = (\<lambda>_. None)" "length [''e''] = 1" "distinct [''e'']" "(0 :: nat) < 1"
    "fresh_call demo_kv_call" "rq_endname (cl_req demo_kv_call) = EndName ([''e''] ! 0)"
    by (simp_all add: fresh_draws_def demo_kv_net_def MakeNetwork_def fresh_call_def demo_kv_call_def)
  show ?thesis using acked_update_survives [OF h(1) f(1-3) h(2) f(4-8) h(3-5)] h by blast
qed

end
