(* ===== verification/Mapreduce.thy ===== *)
theory Mapreduce
  imports Go_Prelude "HOL-Library.List_Lexorder" "HOL-Library.Char_ord" "HOL-Library.Multiset"
begin

unbundle bit_operations_syntax

text \<open>
  The MapReduce lab: \<^verbatim>\<open>mr/\<close> (the outline of worker and coordinator), the sequential reference
  implementation \<^verbatim>\<open>main/mrsequential.go\<close>, and the applications under \<^verbatim>\<open>mrapps/\<close>.

  Strings are lists of bytes, ordered as Go orders them.  A loop over a string decodes them as UTF-8, and gives the
  replacement character for a byte that is not part of a valid encoding.  Which code points are letters is the
  argument \<open>isLetter\<close>, for the tables of \<^verbatim>\<open>unicode.IsLetter\<close>.  Files are a map
  from names to contents, plugins a map from names to symbol tables; a plugin's functions may panic or exit, and
  give the same result for the same arguments.  \<^verbatim>\<open>sort.Sort\<close> is an
  argument, of which only the documented contract is used: it is not stable.  The order in which Go
  iterates over a map is an argument too.
\<close>

section \<open>mr\<close>

record KeyValue =
  Key :: string
  Value :: string

text \<open>\<^verbatim>\<open>hash/fnv\<close>, the 32-bit FNV-1a hash.\<close>

definition fnv32a :: "string \<Rightarrow> 32 word" where
  "fnv32a s = fold (\<lambda>c h. (h XOR of_nat (of_char c)) * 16777619) s 2166136261"

definition ihash :: "string \<Rightarrow> int" where
  "ihash key = uint (fnv32a key AND 0x7fffffff)"

definition coordinatorSock :: "nat \<Rightarrow> string" where
  "coordinatorSock uid = ''/var/tmp/824-mr-'' @ itoa uid"

record ExampleArgs =
  ea_X :: "64 word"

record ExampleReply =
  er_Y :: "64 word"

definition Coordinator_Example :: "ExampleArgs \<Rightarrow> ExampleReply \<Rightarrow> ExampleReply" where
  "Coordinator_Example args reply = reply\<lparr>er_Y := ea_X args + 1\<rparr>"

definition Coordinator_Done :: "bool" where
  "Coordinator_Done = (let ret = False in ret)"

text \<open>
  The coordinator listens on a Unix socket, which is a file; \<open>free p\<close> says whether the system would let a socket be
  created at \<open>p\<close> when there is no file.  A file left over from an earlier coordinator makes \<^verbatim>\<open>net.Listen\<close> fail.
\<close>

record sockets =
  so_files :: "string set"
  so_listening :: "string set"

definition os_Remove :: "string \<Rightarrow> sockets \<Rightarrow> sockets" where
  "os_Remove p st = st\<lparr>so_files := so_files st - {p}\<rparr>"

definition net_Listen :: "(string \<Rightarrow> bool) \<Rightarrow> string \<Rightarrow> sockets \<Rightarrow> sockets option" where
  "net_Listen free p st =
     (if p \<notin> so_files st \<and> free p
      then Some (st\<lparr>so_files := insert p (so_files st), so_listening := insert p (so_listening st)\<rparr>) else None)"

definition Coordinator_server :: "(string \<Rightarrow> bool) \<Rightarrow> nat \<Rightarrow> sockets \<Rightarrow> sockets result" where
  "Coordinator_server free uid st =
     (let sockname = coordinatorSock uid;
          st = os_Remove sockname st in
      case net_Listen free sockname st of
        None \<Rightarrow> Inl (Fatal ''listen error:'')
      | Some st \<Rightarrow> Inr st)"

text \<open>The coordinator has no state of its own; the input files and \<^verbatim>\<open>nReduce\<close> are not used.\<close>

definition MakeCoordinator :: "(string \<Rightarrow> bool) \<Rightarrow> nat \<Rightarrow> string list \<Rightarrow> nat \<Rightarrow> sockets \<Rightarrow> sockets result" where
  "MakeCoordinator free uid files nReduce st = Coordinator_server free uid st"

text \<open>
  \<^verbatim>\<open>net/rpc\<close> at the client: \<open>dial\<close> is \<^verbatim>\<open>rpc.DialHTTP\<close>, which gives the function \<^verbatim>\<open>Call\<close> of the client or an error;
  \<^verbatim>\<open>Call\<close> gives a reply or an error, which is printed.
\<close>

type_synonym ('a, 'b) rpc_client = "string \<Rightarrow> 'a \<Rightarrow> 'b option"

definition mr_call :: "(string \<Rightarrow> ('a, 'b) rpc_client option) \<Rightarrow> nat \<Rightarrow> string \<Rightarrow> 'a \<Rightarrow> 'b \<Rightarrow> (bool \<times> 'b) result" where
  "mr_call dial uid rpcname args reply =
     (let sockname = coordinatorSock uid in
      case dial sockname of
        None \<Rightarrow> Inl (Fatal ''dialing:'')
      | Some c \<Rightarrow> (case c rpcname args of Some r \<Rightarrow> Inr (True, r) | None \<Rightarrow> Inr (False, reply)))"

text \<open>The line printed.\<close>

definition print_int :: "64 word \<Rightarrow> string" where
  "print_int w = (if sint w < 0 then ''-'' @ itoa (nat (- sint w)) else itoa (nat (sint w)))"

definition CallExample :: "(string \<Rightarrow> (ExampleArgs, ExampleReply) rpc_client option) \<Rightarrow> nat \<Rightarrow> string result" where
  "CallExample dial uid =
     (let args = \<lparr>ea_X = 0\<rparr>;
          args = args\<lparr>ea_X := 99\<rparr>;
          reply = \<lparr>er_Y = 0\<rparr> in
      bindE (mr_call dial uid ''Coordinator.Example'' args reply) (\<lambda>(_, reply). Inr (''reply.Y '' @ print_int (er_Y reply))))"

text \<open>The waiting loop of \<^verbatim>\<open>mrcoordinator\<close>: \<open>k\<close> is the number of looks at \<^verbatim>\<open>Done\<close>.\<close>

partial_function (option) mrcoordinator_loop :: "nat \<Rightarrow> nat option" where
  "mrcoordinator_loop k = (if Coordinator_Done = False then mrcoordinator_loop (k + 1) else Some k)"

definition mrcoordinator_main :: "(string \<Rightarrow> bool) \<Rightarrow> nat \<Rightarrow> sockets \<Rightarrow> string list \<Rightarrow> nat result option" where
  "mrcoordinator_main free uid st args =
     (if length args < 2 then Some (Inl (Fatal ''Usage: mrcoordinator inputfiles...''))
      else
        (case MakeCoordinator free uid (drop 1 args) 10 st of
           Inl e \<Rightarrow> Some (Inl e)
         | Inr _ \<Rightarrow> map_option Inr (mrcoordinator_loop 0)))"

section \<open>Plugins\<close>

type_synonym mapf = "string \<Rightarrow> string \<Rightarrow> KeyValue list result"
type_synonym reducef = "string \<Rightarrow> string list \<Rightarrow> string result"

text \<open>A symbol of a plugin has some type; \<^verbatim>\<open>loadPlugin\<close> asserts the one it needs.\<close>

datatype symbol = MapSym mapf | ReduceSym reducef | OtherSym

definition loadPlugin :: "(string \<rightharpoonup> (string \<rightharpoonup> symbol)) \<Rightarrow> string \<Rightarrow> (mapf \<times> reducef) result" where
  "loadPlugin plugins filename =
     (case plugins filename of
        None \<Rightarrow> Inl (Fatal ''cannot load plugin'')
      | Some p \<Rightarrow>
          (case p ''Map'' of
             None \<Rightarrow> Inl (Fatal ''cannot find Map'')
           | Some xmapf \<Rightarrow>
               (case xmapf of
                  MapSym mapf \<Rightarrow>
                    (case p ''Reduce'' of
                       None \<Rightarrow> Inl (Fatal ''cannot find Reduce'')
                     | Some xreducef \<Rightarrow>
                         (case xreducef of ReduceSym reducef \<Rightarrow> Inr (mapf, reducef) | _ \<Rightarrow> Inl TypeAssertion))
                | _ \<Rightarrow> Inl TypeAssertion)))"

section \<open>mrsequential\<close>

datatype os_file = Readable string | Unreadable

definition ByKey_Less :: "KeyValue \<Rightarrow> KeyValue \<Rightarrow> bool" where
  "ByKey_Less a b = (Key a < Key b)"

fun map_files :: "(string \<rightharpoonup> os_file) \<Rightarrow> mapf \<Rightarrow> string list \<Rightarrow> KeyValue list \<Rightarrow> KeyValue list result" where
  "map_files fs mapf [] intermediate = Inr intermediate"
| "map_files fs mapf (filename # rest) intermediate =
     (case fs filename of
        None \<Rightarrow> Inl (Fatal ''cannot open'')
      | Some Unreadable \<Rightarrow> Inl (Fatal ''cannot read'')
      | Some (Readable content) \<Rightarrow>
          bindE (mapf filename content) (\<lambda>kva. map_files fs mapf rest (intermediate @ kva)))"

text \<open>The inner loop: the first index at or after \<open>j\<close> whose key differs from the one at \<open>i\<close>.\<close>

function same_key_end :: "KeyValue list \<Rightarrow> nat \<Rightarrow> nat \<Rightarrow> nat" where
  "same_key_end xs i j =
     (if j < length xs \<and> Key (xs ! j) = Key (xs ! i) then same_key_end xs i (j + 1) else j)"
  by pat_completeness auto
termination
  by (relation "measure (\<lambda>(xs, i, j). length xs - j)") auto

declare same_key_end.simps [simp del]

lemma same_key_end_ge: "j \<le> same_key_end xs i j"
proof (induction xs i j rule: same_key_end.induct)
  case (1 xs i j)
  then show ?case by (subst same_key_end.simps) auto
qed

definition newline :: string where
  "newline = [CHR 0x0A]"

definition out_line :: "string \<Rightarrow> string \<Rightarrow> string" where
  "out_line key output = key @ '' '' @ output @ newline"

text \<open>
  The output file: its contents, or \<open>None\<close> for the \<^verbatim>\<open>nil\<close> file that a failed \<^verbatim>\<open>os.Create\<close> leaves, whose error the program
  ignores.  Writing to a \<^verbatim>\<open>nil\<close> file fails without panic, and that error is ignored too; writing to a file that was created succeeds.
\<close>

definition Fprintf :: "string option \<Rightarrow> string \<Rightarrow> string option" where
  "Fprintf ofile s = map_option (\<lambda>contents. contents @ s) ofile"

function reduce_loop :: "reducef \<Rightarrow> KeyValue list \<Rightarrow> nat \<Rightarrow> string option \<Rightarrow> string option result" where
  "reduce_loop reducef xs i ofile =
     (if i < length xs then
        (let j = same_key_end xs i (i + 1);
             values = map (\<lambda>k. Value (xs ! k)) [i..<j]
         in bindE (reducef (Key (xs ! i)) values) (\<lambda>output.
            reduce_loop reducef xs j (Fprintf ofile (out_line (Key (xs ! i)) output))))
      else Inr ofile)"
  by pat_completeness auto
termination
proof (relation "measure (\<lambda>(r, xs, i, out). length xs - i)", goal_cases)
  case (2 r xs i ofile j vs)
  then show ?case using same_key_end_ge [of "i + 1" xs i] by simp
qed simp

declare reduce_loop.simps [simp del]

text \<open>\<open>creatable\<close> says whether \<^verbatim>\<open>os.Create\<close> of a name succeeds; the result is the contents of \<^verbatim>\<open>mr-out-0\<close>, if it was created.\<close>

definition os_Create :: "(string \<Rightarrow> bool) \<Rightarrow> string \<Rightarrow> string option" where
  "os_Create creatable name = (if creatable name then Some [] else None)"

definition mrsequential_main ::
    "(KeyValue list \<Rightarrow> KeyValue list) \<Rightarrow> (string \<Rightarrow> bool) \<Rightarrow> (string \<rightharpoonup> (string \<rightharpoonup> symbol)) \<Rightarrow> (string \<rightharpoonup> os_file) \<Rightarrow> string list
       \<Rightarrow> string option result" where
  "mrsequential_main sort_Sort creatable plugins fs args =
     (if length args < 3 then Inl (Fatal ''Usage: mrsequential xxx.so inputfiles...'')
      else
        bindE (loadPlugin plugins (args ! 1)) (\<lambda>(mapf, reducef).
        bindE (map_files fs mapf (drop 2 args) []) (\<lambda>intermediate.
        let intermediate = sort_Sort intermediate;
            oname = ''mr-out-0'';
            ofile = os_Create creatable oname in
        reduce_loop reducef intermediate 0 ofile)))"

text \<open>The contract of \<^verbatim>\<open>sort.Sort\<close> with \<^verbatim>\<open>ByKey\<close>.\<close>

definition sorts_by_key :: "(KeyValue list \<Rightarrow> KeyValue list) \<Rightarrow> bool" where
  "sorts_by_key f \<longleftrightarrow> (\<forall>xs. mset (f xs) = mset xs \<and> sorted_wrt (\<lambda>a b. \<not> ByKey_Less b a) (f xs))"

section \<open>The applications\<close>

text \<open>
  The first code point of a string and the number of its bytes, as \<^verbatim>\<open>range\<close> decodes them: UTF-8 without overlong forms,
  surrogates and values above \<open>0x10FFFF\<close>; any other byte counts as one replacement character.
\<close>

type_synonym rune = nat

definition between :: "nat \<Rightarrow> nat \<Rightarrow> char \<Rightarrow> bool" where
  "between lo hi c \<longleftrightarrow> lo \<le> of_char c \<and> of_char c \<le> hi"

definition six_bits :: "char \<Rightarrow> nat" where
  "six_bits c = of_char c mod 64"

definition RuneError :: rune where
  "RuneError = 0xFFFD"

fun decode_rune :: "string \<Rightarrow> rune \<times> nat" where
  "decode_rune [] = (RuneError, 0)"
| "decode_rune (c # cs) =
     (if between 0 0x7F c then (of_char c, 1)
      else if between 0xC2 0xDF c then
        (case cs of
           d # _ \<Rightarrow> if between 0x80 0xBF d then ((of_char c - 0xC0) * 64 + six_bits d, 2) else (RuneError, 1)
         | _ \<Rightarrow> (RuneError, 1))
      else if between 0xE0 0xEF c then
        (case cs of
           d # e # _ \<Rightarrow>
             if between (if of_char c = (0xE0 :: nat) then 0xA0 else 0x80) (if of_char c = (0xED :: nat) then 0x9F else 0xBF) d \<and> between 0x80 0xBF e
             then (((of_char c - 0xE0) * 64 + six_bits d) * 64 + six_bits e, 3) else (RuneError, 1)
         | _ \<Rightarrow> (RuneError, 1))
      else if between 0xF0 0xF4 c then
        (case cs of
           d # e # f # _ \<Rightarrow>
             if between (if of_char c = (0xF0 :: nat) then 0x90 else 0x80) (if of_char c = (0xF4 :: nat) then 0x8F else 0xBF) d \<and>
               between 0x80 0xBF e \<and> between 0x80 0xBF f
             then ((((of_char c - 0xF0) * 64 + six_bits d) * 64 + six_bits e) * 64 + six_bits f, 4) else (RuneError, 1)
         | _ \<Rightarrow> (RuneError, 1))
      else (RuneError, 1))"

lemma decode_rune_width: "s \<noteq> [] \<Longrightarrow> 1 \<le> snd (decode_rune s) \<and> snd (decode_rune s) \<le> length s"
  by (cases s) (auto split: list.splits)

text \<open>\<^verbatim>\<open>for _, r := range s\<close>: the code points in order, each with its bytes.\<close>

function range_string :: "string \<Rightarrow> (rune \<times> string) list" where
  "range_string s =
     (if s = [] then []
      else (case decode_rune s of (r, w) \<Rightarrow> (r, take w s) # range_string (drop w s)))"
  by pat_completeness auto
termination
proof (relation "measure length", goal_cases)
  case (2 s r w)
  then have "snd (decode_rune s) = w" by (metis snd_conv)
  then show ?case using decode_rune_width [of s] 2(1) by simp
qed simp

declare range_string.simps [simp del]

text \<open>
  \<^verbatim>\<open>strings.FieldsFunc\<close>: a field starts at a code point that \<open>f\<close> does not accept, \<open>None\<close> if there is no such start yet, and ends before the next one
  that it accepts.
\<close>

fun fields_loop :: "(rune \<Rightarrow> bool) \<Rightarrow> (rune \<times> string) list \<Rightarrow> string option \<Rightarrow> string list" where
  "fields_loop f [] field = (case field of None \<Rightarrow> [] | Some cur \<Rightarrow> [cur])"
| "fields_loop f ((r, b) # rs) field =
     (if f r then (case field of None \<Rightarrow> fields_loop f rs None | Some cur \<Rightarrow> cur # fields_loop f rs None)
      else fields_loop f rs (Some (case field of None \<Rightarrow> b | Some cur \<Rightarrow> cur @ b)))"

definition FieldsFunc :: "string \<Rightarrow> (rune \<Rightarrow> bool) \<Rightarrow> string list" where
  "FieldsFunc s f = fields_loop f (range_string s) None"

fun Join :: "string list \<Rightarrow> string \<Rightarrow> string" where
  "Join [] sep = []"
| "Join [x] sep = x"
| "Join (x # y # xs) sep = x @ sep @ Join (y # xs) sep"

subsection \<open>wc\<close>

definition wc_Map :: "(rune \<Rightarrow> bool) \<Rightarrow> mapf" where
  "wc_Map isLetter filename contents =
     (let ff = (\<lambda>r. \<not> isLetter r); words = FieldsFunc contents ff
      in Inr (map (\<lambda>w. \<lparr>Key = w, Value = ''1''\<rparr>) words))"

definition wc_Reduce :: reducef where
  "wc_Reduce key values = Inr (itoa (length values))"

subsection \<open>indexer\<close>

text \<open>\<open>iter\<close> is the order in which the keys of the map are visited.\<close>

definition indexer_Map :: "(rune \<Rightarrow> bool) \<Rightarrow> (string list \<Rightarrow> string list) \<Rightarrow> mapf" where
  "indexer_Map isLetter iter document value =
     (let words = FieldsFunc value (\<lambda>x. \<not> isLetter x); m = remdups words
      in Inr (map (\<lambda>w. \<lparr>Key = w, Value = document\<rparr>) (iter m)))"

definition indexer_Reduce :: reducef where
  "indexer_Reduce key values = (let values = sort values in Inr (itoa (length values) @ '' '' @ Join values '',''))"

subsection \<open>crash and nocrash\<close>

text \<open>\<open>rr\<close> is the random number drawn below 1000.\<close>

definition crash_maybeCrash :: "nat \<Rightarrow> unit result" where
  "crash_maybeCrash rr = (if rr < 330 then Inl (Fatal ''exit 1'') else if rr < 660 then Inr () else Inr ())"

definition nocrash_maybeCrash :: "nat \<Rightarrow> unit result" where
  "nocrash_maybeCrash rr = (if False \<and> rr < 500 then Inl (Fatal ''exit 1'') else Inr ())"

definition crash_kva :: "string \<Rightarrow> string \<Rightarrow> KeyValue list" where
  "crash_kva filename contents =
     [\<lparr>Key = ''a'', Value = filename\<rparr>, \<lparr>Key = ''b'', Value = itoa (length filename)\<rparr>,
      \<lparr>Key = ''c'', Value = itoa (length contents)\<rparr>, \<lparr>Key = ''d'', Value = ''xyzzy''\<rparr>]"

definition crash_Map :: "nat \<Rightarrow> mapf" where
  "crash_Map rr filename contents = bindE (crash_maybeCrash rr) (\<lambda>_. Inr (crash_kva filename contents))"

definition sorted_join :: "string \<Rightarrow> string list \<Rightarrow> string" where
  "sorted_join key values =
     (let vv = replicate (length values) []; vv = go_copy vv values; vv = sort vv in Join vv '' '')"

definition crash_Reduce :: "nat \<Rightarrow> reducef" where
  "crash_Reduce rr key values = bindE (crash_maybeCrash rr) (\<lambda>_. Inr (sorted_join key values))"

definition nocrash_Map :: "nat \<Rightarrow> mapf" where
  "nocrash_Map rr filename contents = bindE (nocrash_maybeCrash rr) (\<lambda>_. Inr (crash_kva filename contents))"

definition nocrash_Reduce :: "nat \<Rightarrow> reducef" where
  "nocrash_Reduce rr key values = bindE (nocrash_maybeCrash rr) (\<lambda>_. Inr (sorted_join key values))"

subsection \<open>early_exit and jobcount\<close>

definition early_exit_Map :: mapf where
  "early_exit_Map filename contents = Inr [\<lparr>Key = filename, Value = ''1''\<rparr>]"

definition early_exit_Reduce :: reducef where
  "early_exit_Reduce key values = Inr (itoa (length values))"

text \<open>
  \<^verbatim>\<open>jobcount\<close> leaves a file for each invocation of \<^verbatim>\<open>Map\<close>, numbered by a global counter; \<open>ok\<close> says
  whether the file could be written.
\<close>

definition jobcount_file :: "nat \<Rightarrow> nat \<Rightarrow> string" where
  "jobcount_file pid cnt = ''mr-worker-jobcount-'' @ itoa pid @ ''-'' @ itoa cnt"

definition jobcount_Map :: "nat \<Rightarrow> bool \<Rightarrow> nat \<times> string set \<Rightarrow> KeyValue list result \<times> nat \<times> string set" where
  "jobcount_Map pid ok = (\<lambda>(cnt, names).
     let f = jobcount_file pid cnt; cnt = cnt + 1 in
     if ok then (Inr [\<lparr>Key = ''a'', Value = ''x''\<rparr>], cnt, insert f names)
     else (Inl (ExplicitPanic ''write''), cnt, names))"

definition HasPrefix :: "string \<Rightarrow> string \<Rightarrow> bool" where
  "HasPrefix s p = (take (length p) s = p)"

text \<open>\<open>files\<close> is what \<^verbatim>\<open>ReadDir\<close> returns, \<open>None\<close> an error.\<close>

definition jobcount_Reduce :: "string list option \<Rightarrow> string result" where
  "jobcount_Reduce files =
     (case files of
        None \<Rightarrow> Inl (ExplicitPanic ''ReadDir'')
      | Some files \<Rightarrow>
          (let invocations = length (filter (\<lambda>f. HasPrefix f ''mr-worker-jobcount'') files)
           in Inr (itoa invocations)))"

subsection \<open>mtiming\<close>

text \<open>The functions of \<^verbatim>\<open>mtiming\<close> and \<^verbatim>\<open>rtiming\<close> that look at other workers are in theory \<open>Timing\<close>.\<close>

definition mtiming_Reduce :: reducef where
  "mtiming_Reduce key values =
     (let vv = replicate (length values) []; vv = go_copy vv values; vv = sort vv in Inr (Join vv '' ''))"

section \<open>mrworker\<close>

definition Worker :: "mapf \<Rightarrow> reducef \<Rightarrow> unit" where
  "Worker mapf reducef = ()"

text \<open>The function \<^verbatim>\<open>loadPlugin\<close> of \<^verbatim>\<open>mrworker.go\<close> has the text of the one in \<^verbatim>\<open>mrsequential.go\<close>.\<close>

definition mrworker_loadPlugin :: "(string \<rightharpoonup> (string \<rightharpoonup> symbol)) \<Rightarrow> string \<Rightarrow> (mapf \<times> reducef) result" where
  "mrworker_loadPlugin = loadPlugin"

definition mrworker_main :: "(string \<rightharpoonup> (string \<rightharpoonup> symbol)) \<Rightarrow> string list \<Rightarrow> unit result" where
  "mrworker_main plugins args =
     (if length args \<noteq> 2 then Inl (Fatal ''Usage: mrworker xxx.so'')
      else bindE (mrworker_loadPlugin plugins (args ! 1)) (\<lambda>(mapf, reducef). Inr (Worker mapf reducef)))"

end
