(* ===== verification/Mapreduce_Correct.thy ===== *)
theory Mapreduce_Correct
  imports Mapreduce
begin

text \<open>
  The sequential MapReduce groups by key: it calls \<^verbatim>\<open>Reduce\<close> once for every key that \<^verbatim>\<open>Map\<close> emitted, in
  the order of the keys, with all the values of that key.  For an application whose \<^verbatim>\<open>Reduce\<close> does not
  depend on the order of the values, the output is determined by the input, although the sort is not
  stable.  Word count counts words; the decimal representation of a number determines it.
\<close>

section \<open>Grouping\<close>

function groups :: "KeyValue list \<Rightarrow> (string \<times> string list) list" where
  "groups [] = []"
| "groups (x # xs) =
     (Key x, Value x # map Value (takeWhile (\<lambda>p. Key p = Key x) xs)) # groups (dropWhile (\<lambda>p. Key p = Key x) xs)"
  by pat_completeness auto
termination
  by (relation "measure length") (auto simp: le_imp_less_Suc length_dropWhile_le)

lemma same_key_end_eq:
  "same_key_end xs i j = j + length (takeWhile (\<lambda>p. Key p = Key (xs ! i)) (drop j xs))"
proof (induction xs i j rule: same_key_end.induct)
  case (1 xs i j)
  show ?case
  proof (cases "j < length xs \<and> Key (xs ! j) = Key (xs ! i)")
    case True
    then have "drop j xs = xs ! j # drop (j + 1) xs" by (simp add: Cons_nth_drop_Suc)
    then show ?thesis using 1 [OF True] True by (subst same_key_end.simps) simp
  next
    case False
    then have "takeWhile (\<lambda>p. Key p = Key (xs ! i)) (drop j xs) = []"
      by (cases "j < length xs") (auto simp: Cons_nth_drop_Suc [symmetric])
    then show ?thesis using False by (subst same_key_end.simps) auto
  qed
qed

text \<open>\<^verbatim>\<open>Reduce\<close> of each group in turn, with the lines written to the output file.\<close>

definition reduce_group :: "reducef \<Rightarrow> string \<times> string list \<Rightarrow> string option \<Rightarrow> string option result" where
  "reduce_group reducef = (\<lambda>(k, vs) ofile. bindE (reducef k vs) (\<lambda>output. Inr (Fprintf ofile (out_line k output))))"

definition reduce_groups :: "reducef \<Rightarrow> (string \<times> string list) list \<Rightarrow> string option \<Rightarrow> string option result" where
  "reduce_groups reducef = foldE (reduce_group reducef)"

lemma Fprintf_simps [simp]: "Fprintf None s = None" "Fprintf (Some c) s = Some (c @ s)" "Fprintf (Fprintf f s) t = Fprintf f (s @ t)"
    "Fprintf f [] = f"
  by (cases f; simp add: Fprintf_def)+

lemma reduce_groups_ok:
  assumes "\<And>k vs. (k, vs) \<in> set gs \<Longrightarrow> reducef k vs = Inr (r k vs)"
  shows "reduce_groups reducef gs ofile = Inr (Fprintf ofile (concat (map (\<lambda>(k, vs). out_line k (r k vs)) gs)))"
  using assms by (induction gs arbitrary: ofile) (auto simp: reduce_groups_def reduce_group_def)

lemma reduce_groups_iff:
  "(\<exists>out. reduce_groups reducef gs ofile = Inr out) \<longleftrightarrow> (\<forall>(k, vs) \<in> set gs. \<exists>output. reducef k vs = Inr output)"
proof (induction gs arbitrary: ofile)
  case (Cons g gs)
  obtain k vs where g: "g = (k, vs)" by (cases g)
  show ?case
  proof (cases "reducef k vs")
    case (Inr x)
    then show ?thesis using Cons.IH by (simp add: reduce_groups_def reduce_group_def g)
  qed (simp add: reduce_groups_def reduce_group_def g)
qed (simp add: reduce_groups_def)

lemma reduce_groups_created: "reduce_groups reducef gs ofile = Inr out \<Longrightarrow> out = None \<longleftrightarrow> ofile = None"
proof (induction gs arbitrary: ofile)
  case (Cons g gs)
  obtain k vs where g: "g = (k, vs)" by (cases g)
  from Cons.prems obtain x where "reduce_groups reducef gs (Fprintf ofile (out_line k x)) = Inr out"
    by (auto simp: reduce_groups_def reduce_group_def g elim!: bindE_InrE)
  from Cons.IH [OF this] show ?case by (simp add: Fprintf_def)
qed (simp add: reduce_groups_def)

lemma slice_takeWhile:
  "map (\<lambda>k. f (xs ! k)) [j..<j + length (takeWhile P (drop j xs))] = map f (takeWhile P (drop j xs))"
proof (rule nth_equalityI)
  fix k assume "k < length (map (\<lambda>k. f (xs ! k)) [j..<j + length (takeWhile P (drop j xs))])"
  then have k: "k < length (takeWhile P (drop j xs))" by simp
  then have "k < length (drop j xs)" using length_takeWhile_le less_le_trans by blast
  then show "map (\<lambda>k. f (xs ! k)) [j..<j + length (takeWhile P (drop j xs))] ! k = map f (takeWhile P (drop j xs)) ! k"
    using k by (simp add: takeWhile_nth)
qed simp

lemma reduce_loop_eq: "reduce_loop r xs i out = reduce_groups r (groups (drop i xs)) out"
proof (induction r xs i out rule: reduce_loop.induct)
  case (1 r xs i out)
  show ?case
  proof (cases "i < length xs")
    case True
    let ?P = "\<lambda>p. Key p = Key (xs ! i)" and ?rest = "drop (i + 1) xs"
    let ?j = "same_key_end xs i (i + 1)"
    have d: "drop i xs = xs ! i # ?rest" using True by (simp add: Cons_nth_drop_Suc)
    have j: "?j = i + 1 + length (takeWhile ?P ?rest)" by (rule same_key_end_eq)
    have vs: "map (\<lambda>k. Value (xs ! k)) [i..<?j] = Value (xs ! i) # map Value (takeWhile ?P ?rest)"
    proof -
      have "[i..<?j] = i # [i + 1..<?j]" unfolding j by (subst upt_conv_Cons) simp_all
      then show ?thesis unfolding j using slice_takeWhile [of Value xs "i + 1" ?P] by (simp only: list.map)
    qed
    have "drop ?j xs = dropWhile ?P ?rest" unfolding j dropWhile_eq_drop by (simp add: add.commute)
    then have "groups (drop i xs) = (Key (xs ! i), map (\<lambda>k. Value (xs ! k)) [i..<?j]) # groups (drop ?j xs)"
      by (simp only: d groups.simps vs)
    then show ?thesis using True 1 [OF True refl refl]
      by (subst reduce_loop.simps) (cases "r (Key (xs ! i)) (map (\<lambda>k. Value (xs ! k)) [i..<?j])", simp_all add: reduce_groups_def reduce_group_def Let_def)
  next
    case False
    then show ?thesis by (subst reduce_loop.simps) (simp add: reduce_groups_def)
  qed
qed

text \<open>On a sorted list the groups are the keys in order, each with all its values.\<close>

definition by_key :: "KeyValue list \<Rightarrow> bool" where
  "by_key xs \<longleftrightarrow> sorted (map Key xs)"

definition values_of :: "string \<Rightarrow> KeyValue list \<Rightarrow> string list" where
  "values_of k xs = map Value (filter (\<lambda>p. Key p = k) xs)"

lemma groups_sorted:
  "by_key xs \<Longrightarrow> groups xs = map (\<lambda>k. (k, values_of k xs)) (sorted_list_of_set (Key ` set xs))"
proof (induction xs rule: groups.induct)
  case 1
  then show ?case by simp
next
  case (2 x xs)
  let ?P = "\<lambda>p. Key p = Key x"
  let ?t = "takeWhile ?P xs" and ?d = "dropWhile ?P xs"
  have filters: "filter Q xs = filter Q ?t @ filter Q ?d" for Q
    using arg_cong [OF takeWhile_dropWhile_id [of ?P xs], of "filter Q"] by (simp only: filter_append)
  have srt: "sorted (map Key (?t @ ?d))" "\<forall>p \<in> set xs. Key x \<le> Key p" using "2.prems" by (auto simp: by_key_def)
  then have sd: "by_key ?d" unfolding by_key_def map_append sorted_append by blast
  have gt: "\<forall>p \<in> set ?d. Key x < Key p"
  proof
    fix p assume p: "p \<in> set ?d"
    then have "?d \<noteq> []" by (metis empty_iff list.set(1))
    then have hd: "Key (hd ?d) \<noteq> Key x" by (rule hd_dropWhile)
    have "hd ?d \<in> set xs" using \<open>?d \<noteq> []\<close> by (metis hd_in_set set_dropWhileD)
    then have "Key x < Key (hd ?d)" using srt(2) hd by fastforce
    moreover have "Key (hd ?d) \<le> Key p" using sd p \<open>?d \<noteq> []\<close> by (cases ?d) (auto simp: by_key_def)
    ultimately show "Key x < Key p" by simp
  qed
  have t: "\<forall>p \<in> set ?t. Key p = Key x" by (auto dest: set_takeWhileD)
  have keys: "Key ` set (x # xs) = insert (Key x) (Key ` set ?d)"
  proof -
    have "set xs = set ?t \<union> set ?d"
      using arg_cong [OF takeWhile_dropWhile_id [of ?P xs], of set] by (simp only: set_append)
    then have "Key ` set xs = Key ` set ?t \<union> Key ` set ?d" by (simp only: image_Un)
    moreover have "Key ` set ?t \<subseteq> {Key x}" using t by blast
    ultimately show ?thesis unfolding list.set image_insert by blast
  qed
  have le: "\<forall>p \<in> set ?d. Key x \<le> Key p" using gt order_less_imp_le by blast
  have notin: "Key x \<notin> Key ` set ?d" using gt by auto
  have "sorted_list_of_set (insert (Key x) (Key ` set ?d)) = Key x # sorted_list_of_set (Key ` set ?d)"
    using notin le by (subst sorted_list_of_set_insert) (auto intro!: insort_is_Cons)
  moreover have "values_of (Key x) (x # xs) = Value x # map Value ?t"
  proof -
    have a: "filter ?P ?t = ?t" unfolding filter_id_conv by (rule t)
    have b: "filter ?P ?d = []" unfolding filter_empty_conv using notin by (metis imageI)
    show ?thesis unfolding values_of_def filter.simps filters [of ?P] a b by simp
  qed
  moreover have "values_of k (x # xs) = values_of k ?d" if "k \<in> Key ` set ?d" for k
  proof -
    have k: "Key x \<noteq> k" using that notin by blast
    have a: "filter (\<lambda>p. Key p = k) ?t = []" unfolding filter_empty_conv using t k by metis
    show ?thesis unfolding values_of_def filter.simps filters [of "\<lambda>p. Key p = k"] a using k by simp
  qed
  ultimately show ?case using "2.IH" [OF sd] unfolding keys groups.simps by simp
qed


lemma mset_values_of: "mset xs = mset ys \<Longrightarrow> mset (values_of k xs) = mset (values_of k ys)"
  unfolding values_of_def mset_map mset_filter by simp

lemma sorts_by_key_sorted: "sorts_by_key f \<Longrightarrow> by_key (f xs)"
  by (simp add: sorts_by_key_def by_key_def ByKey_Less_def sorted_map not_less)

lemma reduce_sorted:
  assumes "sorts_by_key f"
  shows "reduce_loop r (f xs) 0 out =
    reduce_groups r (map (\<lambda>k. (k, values_of k (f xs))) (sorted_list_of_set (Key ` set xs))) out"
proof -
  have "set (f xs) = set xs" using assms unfolding sorts_by_key_def by (metis set_mset_mset)
  then show ?thesis using groups_sorted [OF sorts_by_key_sorted [OF assms], of xs] by (simp add: reduce_loop_eq)
qed

text \<open>Applications whose \<^verbatim>\<open>Reduce\<close> does not look at the order of the values.\<close>

locale reducer =
  fixes reducef :: reducef
  assumes order_irrelevant: "mset vs = mset ws \<Longrightarrow> reducef k vs = reducef k ws"
begin

lemma output_determined:
  assumes "sorts_by_key f"
  shows "reduce_loop reducef (f xs) 0 out =
    reduce_groups reducef (map (\<lambda>k. (k, values_of k xs)) (sorted_list_of_set (Key ` set xs))) out"
proof -
  have "mset (f xs) = mset xs" using assms by (simp add: sorts_by_key_def)
  then have "reducef k (values_of k (f xs)) = reducef k (values_of k xs)" for k
    by (intro order_irrelevant mset_values_of)
  then show ?thesis by (simp add: reduce_sorted [OF assms] reduce_groups_def foldE_map reduce_group_def)
qed

end

lemma sort_perm: "mset vs = mset ws \<Longrightarrow> sort vs = sort (ws :: string list)"
  by (rule properties_for_sort) simp_all

lemma sorted_join_eq: "sorted_join k vs = Join (sort vs) '' ''"
  by (simp add: sorted_join_def Let_def)

interpretation wc: reducer wc_Reduce
  by unfold_locales (drule mset_eq_length, simp add: wc_Reduce_def)

interpretation ee: reducer early_exit_Reduce
  by unfold_locales (drule mset_eq_length, simp add: early_exit_Reduce_def)

interpretation ix: reducer indexer_Reduce
  by unfold_locales (frule mset_eq_length, drule sort_perm, simp add: indexer_Reduce_def)

interpretation cr: reducer "crash_Reduce rr"
  by unfold_locales (drule sort_perm, simp add: crash_Reduce_def sorted_join_eq)

interpretation nc: reducer "nocrash_Reduce rr"
  by unfold_locales (drule sort_perm, simp add: nocrash_Reduce_def sorted_join_eq)

interpretation mt: reducer mtiming_Reduce
  by unfold_locales (drule sort_perm, simp add: mtiming_Reduce_def Let_def)

section \<open>The whole program\<close>

text \<open>What \<^verbatim>\<open>Map\<close> emits for the inputs when each call returns \<open>m f s\<close>.\<close>

definition emitted :: "(string \<Rightarrow> string \<Rightarrow> KeyValue list) \<Rightarrow> (string \<times> string) list \<Rightarrow> KeyValue list" where
  "emitted m inputs = concat (map (\<lambda>(f, s). m f s) inputs)"

definition maps_to :: "mapf \<Rightarrow> (string \<times> string) list \<Rightarrow> (string \<Rightarrow> string \<Rightarrow> KeyValue list) \<Rightarrow> bool" where
  "maps_to mapf inputs m \<longleftrightarrow> (\<forall>(f, s) \<in> set inputs. mapf f s = Inr (m f s))"

definition has_files :: "(string \<rightharpoonup> os_file) \<Rightarrow> (string \<times> string) list \<Rightarrow> bool" where
  "has_files fs inputs \<longleftrightarrow> (\<forall>(f, s) \<in> set inputs. fs f = Some (Readable s))"

lemma map_files_ok:
  "has_files fs inputs \<Longrightarrow> maps_to mapf inputs m \<Longrightarrow> map_files fs mapf (map fst inputs) acc = Inr (acc @ emitted m inputs)"
  by (induction inputs arbitrary: acc) (auto simp: has_files_def maps_to_def emitted_def)

text \<open>What the files contribute when all goes well.\<close>

definition file_pairs :: "(string \<rightharpoonup> os_file) \<Rightarrow> mapf \<Rightarrow> string \<Rightarrow> KeyValue list" where
  "file_pairs fs mapf f =
     (case fs f of Some (Readable s) \<Rightarrow> (case mapf f s of Inr kva \<Rightarrow> kva | Inl _ \<Rightarrow> []) | _ \<Rightarrow> [])"

lemma map_files_iff:
  "map_files fs mapf names acc = Inr xs \<longleftrightarrow>
     (\<forall>f \<in> set names. \<exists>s kva. fs f = Some (Readable s) \<and> mapf f s = Inr kva) \<and> xs = acc @ concat (map (file_pairs fs mapf) names)"
proof (induction names arbitrary: acc)
  case (Cons f names)
  show ?case
  proof (cases "\<exists>s kva. fs f = Some (Readable s) \<and> mapf f s = Inr kva")
    case True
    then show ?thesis using Cons.IH by (auto simp: file_pairs_def)
  next
    case False
    then have "map_files fs mapf (f # names) acc \<noteq> Inr xs"
      by (auto split: option.splits os_file.splits elim!: bindE_InrE)
    then show ?thesis using False by auto
  qed
qed auto

lemma mrsequential_run:
  assumes "loadPlugin plugins so = Inr (mapf, reducef)" "has_files fs inputs" "maps_to mapf inputs m" "inputs \<noteq> []"
  shows "mrsequential_main srt creatable plugins fs (prog # so # map fst inputs) =
    reduce_loop reducef (srt (emitted m inputs)) 0 (os_Create creatable ''mr-out-0'')"
  using assms map_files_ok [OF assms(2,3), of "[]"] by (simp add: mrsequential_main_def)

lemma loadPlugin_iff:
  "loadPlugin plugins so = Inr (mapf, reducef) \<longleftrightarrow>
     (\<exists>p. plugins so = Some p \<and> p ''Map'' = Some (MapSym mapf) \<and> p ''Reduce'' = Some (ReduceSym reducef))"
  by (auto simp: loadPlugin_def split: option.splits symbol.splits)

lemma mrsequential_result:
  assumes "sorts_by_key srt"
  shows "mrsequential_main srt creatable plugins fs args = Inr out \<longleftrightarrow>
    3 \<le> length args \<and> (\<exists>mapf reducef. loadPlugin plugins (args ! 1) = Inr (mapf, reducef) \<and>
      (\<forall>f \<in> set (drop 2 args). \<exists>s kva. fs f = Some (Readable s) \<and> mapf f s = Inr kva) \<and>
      (let xs = concat (map (file_pairs fs mapf) (drop 2 args)) in
       reduce_groups reducef (map (\<lambda>k. (k, values_of k (srt xs))) (sorted_list_of_set (Key ` set xs)))
         (os_Create creatable ''mr-out-0'') = Inr out))"
  using map_files_iff [of fs _ "drop 2 args" "[]"]
  by (auto simp: mrsequential_main_def bindE_Inr_conv reduce_sorted [OF assms] Let_def)

section \<open>Words\<close>

text \<open>The loop over a string leaves out nothing of it, and ASCII text is decoded byte by byte.\<close>

lemma range_string_bytes: "concat (map snd (range_string s)) = s"
proof (induction s rule: range_string.induct)
  case (1 s)
  show ?case
  proof (cases "s = []")
    case False
    obtain r w where "decode_rune s = (r, w)" by (cases "decode_rune s")
    then show ?thesis using 1 [OF False] False by (subst range_string.simps) simp
  qed (simp add: range_string.simps)
qed

lemma range_string_ascii:
  "\<forall>c \<in> set s. (of_char c :: nat) < 128 \<Longrightarrow> range_string s = map (\<lambda>c. (of_char c, [c])) s"
proof (induction s)
  case (Cons c s)
  have "decode_rune (c # s) = (of_char c, 1)" using Cons.prems by (simp add: between_def)
  then show ?case using Cons by (subst range_string.simps) simp
qed (simp add: range_string.simps)

text \<open>The maximal runs of elements with a property: an independent reading of \<^verbatim>\<open>strings.FieldsFunc\<close>.\<close>

function runs_of :: "('a \<Rightarrow> bool) \<Rightarrow> 'a list \<Rightarrow> 'a list list" where
  "runs_of P xs =
     (case dropWhile (\<lambda>x. \<not> P x) xs of [] \<Rightarrow> [] | y # ys \<Rightarrow> (y # takeWhile P ys) # runs_of P (dropWhile P ys))"
  by pat_completeness auto
termination
proof (relation "measure (\<lambda>(P, xs). length xs)", goal_cases)
  case (2 P xs y ys)
  have "length (dropWhile P ys) \<le> length ys" by (rule length_dropWhile_le)
  also have "length ys < length (dropWhile (\<lambda>x. \<not> P x) xs)" using 2 by (metis length_Cons lessI)
  also have "length (dropWhile (\<lambda>x. \<not> P x) xs) \<le> length xs" by (rule length_dropWhile_le)
  finally show ?case by simp
qed simp

declare runs_of.simps [simp del]

lemma runs_of_simps [simp]:
  "runs_of P [] = []"
  "\<not> P x \<Longrightarrow> runs_of P (x # xs) = runs_of P xs"
  "P x \<Longrightarrow> runs_of P (x # xs) = (x # takeWhile P xs) # runs_of P (dropWhile P xs)"
  by (simp_all add: runs_of.simps [of P "[]"] runs_of.simps [of P "x # xs"] runs_of.simps [of P xs])

lemma fields_loop_some:
  "fields_loop f rs (Some cur) =
     (cur @ concat (map snd (takeWhile (\<lambda>x. \<not> f (fst x)) rs))) # fields_loop f (dropWhile (\<lambda>x. \<not> f (fst x)) rs) None"
  by (induction rs arbitrary: cur) auto

lemma fields_loop_runs: "fields_loop f rs None = map (\<lambda>run. concat (map snd run)) (runs_of (\<lambda>x. \<not> f (fst x)) rs)"
proof (induction rs rule: length_induct)
  case (1 rs)
  show ?case
  proof (cases rs)
    case (Cons x xs)
    obtain r b where x: "x = (r, b)" by (cases x)
    have "length (dropWhile (\<lambda>x. \<not> f (fst x)) xs) < length rs"
      using Cons length_dropWhile_le [of "\<lambda>x. \<not> f (fst x)" xs] by simp
    with 1 Cons show ?thesis by (cases "f r") (simp_all add: x fields_loop_some)
  qed simp
qed

text \<open>The words of a text: the maximal runs of letters among its code points, as bytes.\<close>

definition words_of :: "(rune \<Rightarrow> bool) \<Rightarrow> string \<Rightarrow> string list" where
  "words_of isLetter s = map (\<lambda>run. concat (map snd run)) (runs_of (\<lambda>x. isLetter (fst x)) (range_string s))"

lemma FieldsFunc_words: "FieldsFunc s (\<lambda>r. \<not> isLetter r) = words_of isLetter s"
  by (simp add: FieldsFunc_def fields_loop_runs words_of_def)

lemma runs_of_letters: "run \<in> set (runs_of P xs) \<Longrightarrow> run \<noteq> [] \<and> (\<forall>x \<in> set run. P x)"
proof (induction xs rule: length_induct)
  case (1 xs)
  show ?case
  proof (cases xs)
    case (Cons x ys)
    have len: "length (dropWhile P ys) < length xs" "length ys < length xs" using Cons length_dropWhile_le [of P ys] by simp_all
    consider "run \<in> set (runs_of P ys)" | "run \<in> set (runs_of P (dropWhile P ys))" | "P x" "run = x # takeWhile P ys"
      using "1.prems" Cons by (cases "P x") auto
    then show ?thesis
    proof cases
      case 3
      then show ?thesis by (auto dest: set_takeWhileD)
    qed (use "1.IH" len in blast)+
  qed (use 1 in simp)
qed

lemma wc_maps: "maps_to (wc_Map isLetter) inputs (\<lambda>f s. map (\<lambda>w. \<lparr>Key = w, Value = ''1''\<rparr>) (words_of isLetter s))"
  by (simp add: maps_to_def wc_Map_def FieldsFunc_words Let_def)

lemma wc_emitted:
  "emitted (\<lambda>f s. map (\<lambda>w. \<lparr>Key = w, Value = ''1''\<rparr>) (words_of isLetter s)) inputs =
     map (\<lambda>w. \<lparr>Key = w, Value = ''1''\<rparr>) (concat (map (\<lambda>(f, s). words_of isLetter s) inputs))"
  by (induction inputs) (auto simp: emitted_def)

lemma length_values_of_words:
  "length (values_of k (map (\<lambda>w. \<lparr>Key = w, Value = v\<rparr>) ws)) = count_list ws k"
  by (induction ws) (auto simp: values_of_def)

lemma wc_output:
  assumes "sorts_by_key srt"
  shows "reduce_loop wc_Reduce (srt (map (\<lambda>w. \<lparr>Key = w, Value = ''1''\<rparr>) ws)) 0 ofile =
    Inr (Fprintf ofile (concat (map (\<lambda>w. out_line w (itoa (count_list ws w))) (sorted_list_of_set (set ws)))))"
proof -
  have "Key ` set (map (\<lambda>w. \<lparr>Key = w, Value = ''1''\<rparr>) ws) = set ws" by (simp add: image_image)
  then show ?thesis
    unfolding wc.output_determined [OF assms]
    by (subst reduce_groups_ok [where r = "\<lambda>k vs. itoa (length vs)"]) (simp_all add: wc_Reduce_def length_values_of_words o_def)
qed

section \<open>Numbers and hashes\<close>

definition atoi :: "string \<Rightarrow> nat" where
  "atoi s = foldl (\<lambda>n c. 10 * n + (of_char c - 48)) 0 s"

lemma digit: "d < 10 \<Longrightarrow> (of_char (char_of (48 + d) :: char) :: nat) - 48 = d"
  by (simp add: of_char_of)

lemma atoi_itoa: "atoi (itoa n) = n"
proof (induction n rule: itoa.induct)
  case (1 n)
  show ?case
  proof (cases "n < 10")
    case True
    then show ?thesis using digit [OF True] by (subst itoa.simps) (simp add: atoi_def)
  next
    case False
    have "n mod 10 < 10" by simp
    from digit [OF this] show ?thesis using 1 [OF False] False by (subst itoa.simps) (simp add: atoi_def)
  qed
qed

lemma ihash_bounds: "0 \<le> ihash key \<and> ihash key < 2 ^ 31"
proof -
  have m: "(0x7fffffff :: 32 word) = mask 31" by (simp add: mask_eq_exp_minus_1)
  have "uint (fnv32a key AND mask 31) = take_bit 31 (uint (fnv32a key))"
    by (simp add: uint_and take_bit_eq_mask [symmetric] unsigned_take_bit_eq)
  then have "uint (fnv32a key AND mask 31) < 2 ^ 31" by (simp only: take_bit_int_less_exp)
  then show ?thesis by (simp add: ihash_def m)
qed

text \<open>\<^verbatim>\<open>Done\<close> of the outline is never true, so the coordinator's loop does not end.\<close>

lemma mrcoordinator_waits: "mrcoordinator_loop k = None"
proof (rule ccontr)
  assume "mrcoordinator_loop k \<noteq> None"
  then obtain m where "mrcoordinator_loop k = Some m" by blast
  then show False
    by (rule mrcoordinator_loop.raw_induct [where P = "\<lambda>_ _. False", rotated]) (simp add: Coordinator_Done_def)
qed

section \<open>Coordinator and worker over net/rpc\<close>

text \<open>A socket left over by an earlier coordinator does not keep a new one from listening.\<close>

lemma MakeCoordinator_listens:
  assumes "free (coordinatorSock uid)"
  obtains st' where "MakeCoordinator free uid files nReduce st = Inr st'" "coordinatorSock uid \<in> so_listening st'"
  using assms by (simp add: MakeCoordinator_def Coordinator_server_def net_Listen_def os_Remove_def Let_def)

lemma CallExample_reply:
  assumes "dial (coordinatorSock uid) = Some c" "\<And>args. c ''Coordinator.Example'' args = Some (Coordinator_Example args \<lparr>er_Y = 0\<rparr>)"
  shows "CallExample dial uid = Inr ''reply.Y 100''"
proof -
  have "print_int 100 = ''100''" by code_simp
  then show ?thesis using assms by (simp add: CallExample_def mr_call_def Coordinator_Example_def)
qed

end
