(* ===== verification/Timing.thy ===== *)
theory Timing
  imports Mapreduce_Correct
begin

text \<open>
  The applications \<^verbatim>\<open>mtiming.go\<close> and \<^verbatim>\<open>rtiming.go\<close>, which measure how many workers run at the same time: \<^verbatim>\<open>nparallel\<close>
  creates a file with the number of the process in its name, counts the files of live processes and removes its own again.
  The directory is a list of names; \<open>alive pid\<close> is the answer of \<^verbatim>\<open>kill(pid, 0)\<close>.  Workers run in parallel, so the three
  accesses to the directory are also the steps of a state machine, of which any interleaving is possible; reading the
  directory is one step.
\<close>

section \<open>Scanning a file name\<close>

text \<open>
  \<^verbatim>\<open>fmt.Sscanf(name, "mr-worker-<phase>-%d", &xpid)\<close> for a phase without blanks or percent signs: the literal text, then ASCII blanks are
  skipped, then an optional sign and at least one digit, in the range of 64 bits; what follows is not looked at.
\<close>

definition dec_digit :: "char \<Rightarrow> bool" where
  "dec_digit c \<longleftrightarrow> 48 \<le> (of_char c :: nat) \<and> (of_char c :: nat) \<le> 57"

definition ascii_blank :: "char \<Rightarrow> bool" where
  "ascii_blank c \<longleftrightarrow> (of_char c :: nat) \<in> {9, 11, 12, 13, 32}"

definition scan_int :: "string \<Rightarrow> int option" where
  "scan_int s =
     (let s = dropWhile ascii_blank s;
          neg = (take 1 s = ''-'');
          s = (if take 1 s = ''-'' \<or> take 1 s = ''+'' then drop 1 s else s);
          ds = takeWhile dec_digit s;
          i = (if neg then - int (atoi ds) else int (atoi ds)) in
      if ds = [] \<or> i < - (2 ^ 63) \<or> 2 ^ 63 \<le> i then None else Some i)"

definition worker_prefix :: "string \<Rightarrow> string" where
  "worker_prefix phase = ''mr-worker-'' @ phase @ ''-''"

definition scan_worker :: "string \<Rightarrow> string \<Rightarrow> int option" where
  "scan_worker phase name =
     (let p = worker_prefix phase in if HasPrefix name p then scan_int (drop (length p) name) else None)"

section \<open>nparallel\<close>

definition myfilename :: "string \<Rightarrow> nat \<Rightarrow> string" where
  "myfilename phase pid = worker_prefix phase @ itoa pid"

definition np_write :: "string \<Rightarrow> nat \<Rightarrow> string list \<Rightarrow> string list" where
  "np_write phase pid dir = (let f = myfilename phase pid in if f \<in> set dir then dir else dir @ [f])"

text \<open>\<^verbatim>\<open>Readdirnames\<close> returns at most as many names as it is asked for, and an error if there is none.\<close>

definition Readdirnames :: "nat \<Rightarrow> string list \<Rightarrow> string list option" where
  "Readdirnames n dir = (if dir = [] then None else Some (take n dir))"

definition np_count :: "string \<Rightarrow> (int \<Rightarrow> bool) \<Rightarrow> string list \<Rightarrow> nat result" where
  "np_count phase alive dir =
     (case Readdirnames 1000000 dir of
        None \<Rightarrow> Inl (ExplicitPanic ''EOF'')
      | Some names \<Rightarrow>
          Inr (length (filter (\<lambda>name. case scan_worker phase name of Some xpid \<Rightarrow> alive xpid | None \<Rightarrow> False) names)))"

definition np_remove :: "string \<Rightarrow> nat \<Rightarrow> string list \<Rightarrow> string list result" where
  "np_remove phase pid dir =
     (let f = myfilename phase pid in
      if f \<in> set dir then Inr (remove1 f dir) else Inl (ExplicitPanic ''no such file or directory''))"

text \<open>
  The whole function: which of the system calls fail, and what others do to the directory after the file is written and
  during the second of sleep.
\<close>

record np_world =
  np_alive :: "int \<Rightarrow> bool"
  np_WriteFile_ok :: bool
  np_Open_ok :: bool
  np_others :: "string list \<Rightarrow> string list"
  np_asleep :: "string list \<Rightarrow> string list"

definition nparallel :: "np_world \<Rightarrow> nat \<Rightarrow> string \<Rightarrow> string list \<Rightarrow> (nat \<times> string list) result" where
  "nparallel w pid phase dir =
     (if np_WriteFile_ok w = False then Inl (ExplicitPanic ''WriteFile'')
      else let dir = np_others w (np_write phase pid dir) in
        if np_Open_ok w = False then Inl (ExplicitPanic ''Open'')
        else bindE (np_count phase (np_alive w) dir) (\<lambda>ret.
          bindE (np_remove phase pid (np_asleep w dir)) (\<lambda>dir. Inr (ret, dir))))"

section \<open>The applications\<close>

text \<open>\<open>ts\<close> is the time of the call, printed.\<close>

definition mtiming_Map :: "np_world \<Rightarrow> nat \<Rightarrow> string \<Rightarrow> string list \<Rightarrow> (KeyValue list \<times> string list) result" where
  "mtiming_Map w pid ts dir =
     bindE (nparallel w pid ''map'' dir) (\<lambda>(n, dir).
     Inr ([\<lparr>Key = ''times-'' @ itoa pid, Value = ts\<rparr>, \<lparr>Key = ''parallel-'' @ itoa pid, Value = itoa n\<rparr>], dir))"

definition rtiming_Map :: mapf where
  "rtiming_Map filename contents =
     Inr (map (\<lambda>k. \<lparr>Key = k, Value = ''1''\<rparr>)
       [''a'', ''b'', ''c'', ''d'', ''e'', ''f'', ''g'', ''h'', ''i'', ''j''])"

text \<open>\<^verbatim>\<open>rtiming.go\<close> has the text of \<^verbatim>\<open>nparallel\<close> again.\<close>

definition rtiming_nparallel :: "np_world \<Rightarrow> nat \<Rightarrow> string \<Rightarrow> string list \<Rightarrow> (nat \<times> string list) result" where
  "rtiming_nparallel = nparallel"

definition rtiming_Reduce :: "np_world \<Rightarrow> nat \<Rightarrow> string \<Rightarrow> string list \<Rightarrow> string list \<Rightarrow> (string \<times> string list) result" where
  "rtiming_Reduce w pid key values dir = bindE (rtiming_nparallel w pid ''reduce'' dir) (\<lambda>(n, dir). Inr (itoa n, dir))"

section \<open>Workers in parallel\<close>

text \<open>
  A worker inside of \<^verbatim>\<open>nparallel\<close> has written its file, or it sleeps with its result.  A step is one access of one process
  to the directory; a process enters again after it has left.
\<close>

datatype np_stage = Written | Sleeping nat

datatype np_step = Write nat | Count nat | Remove nat

fun np_pid :: "np_step \<Rightarrow> nat" where
  "np_pid (Write p) = p" | "np_pid (Count p) = p" | "np_pid (Remove p) = p"

record np_state =
  np_dir :: "string list"
  np_stages :: "nat \<rightharpoonup> np_stage"

definition np_exec :: "string \<Rightarrow> (int \<Rightarrow> bool) \<Rightarrow> np_step \<Rightarrow> np_state \<Rightarrow> np_state result option" where
  "np_exec phase alive s st =
     (case (s, np_stages st (np_pid s)) of
        (Write p, None) \<Rightarrow> Some (Inr \<lparr>np_dir = np_write phase p (np_dir st), np_stages = (np_stages st)(p \<mapsto> Written)\<rparr>)
      | (Count p, Some Written) \<Rightarrow>
          Some (bindE (np_count phase alive (np_dir st)) (\<lambda>n. Inr (st\<lparr>np_stages := (np_stages st)(p \<mapsto> Sleeping n)\<rparr>)))
      | (Remove p, Some (Sleeping n)) \<Rightarrow>
          Some (bindE (np_remove phase p (np_dir st)) (\<lambda>dir. Inr \<lparr>np_dir = dir, np_stages = (np_stages st)(p := None)\<rparr>))
      | _ \<Rightarrow> None)"

inductive np_run :: "string \<Rightarrow> (int \<Rightarrow> bool) \<Rightarrow> np_state \<Rightarrow> np_step list \<Rightarrow> np_state result \<Rightarrow> bool"
  for phase alive where
  np_run_Nil: "np_run phase alive st [] (Inr st)"
| np_run_snoc: "np_run phase alive st ss (Inr st') \<Longrightarrow> np_exec phase alive s st' = Some r \<Longrightarrow> np_run phase alive st (ss @ [s]) r"

section \<open>Counting\<close>

lemma itoa_digits: "itoa n \<noteq> [] \<and> (\<forall>c \<in> set (itoa n). dec_digit c)"
proof (induction n rule: itoa.induct)
  case (1 n)
  have "dec_digit (char_of (48 + d))" if "d < 10" for d :: nat using that by (simp add: dec_digit_def)
  then show ?case using 1 by (subst (1 2) itoa.simps) simp
qed

lemma scan_itoa: "n < 2 ^ 63 \<Longrightarrow> scan_int (itoa n) = Some (int n)"
proof -
  assume n: "n < 2 ^ 63"
  obtain c cs where c: "itoa n = c # cs" using itoa_digits [of n] by (cases "itoa n") auto
  then have d: "dec_digit c" "\<forall>x \<in> set (itoa n). dec_digit x" using itoa_digits [of n] by simp_all
  have "\<not> ascii_blank c" "c \<noteq> CHR ''-''" "c \<noteq> CHR ''+''" using d(1) by (auto simp: dec_digit_def ascii_blank_def)
  then have "dropWhile ascii_blank (itoa n) = itoa n" "take 1 (itoa n) \<noteq> ''-''" "take 1 (itoa n) \<noteq> ''+''" using c by simp_all
  moreover have "takeWhile dec_digit (itoa n) = itoa n" using d(2) by simp
  ultimately show ?thesis using n c by (simp add: scan_int_def Let_def atoi_itoa [of n, unfolded c] del: One_nat_def)
qed

lemma scan_myfilename [simp]: "p < 2 ^ 63 \<Longrightarrow> scan_worker phase (myfilename phase p) = Some (int p)"
  by (simp add: scan_worker_def myfilename_def HasPrefix_def Let_def scan_itoa)

text \<open>The directory holds what it held before and the files of the processes inside, each once.\<close>

definition np_inv :: "string \<Rightarrow> (int \<Rightarrow> bool) \<Rightarrow> string list \<Rightarrow> nat set \<Rightarrow> np_state \<Rightarrow> bool" where
  "np_inv phase alive dir P st \<longleftrightarrow>
     distinct (np_dir st) \<and> dom (np_stages st) \<subseteq> P \<and> set (np_dir st) = set dir \<union> myfilename phase ` dom (np_stages st)"

text \<open>The processes are alive, and no file of the phase was left over.\<close>

definition np_clean :: "string \<Rightarrow> (int \<Rightarrow> bool) \<Rightarrow> string list \<Rightarrow> nat set \<Rightarrow> bool" where
  "np_clean phase alive dir P \<longleftrightarrow>
     distinct dir \<and> (\<forall>d \<in> set dir. scan_worker phase d = None) \<and> finite P \<and> (\<forall>p \<in> P. alive (int p) \<and> p < 2 ^ 63) \<and>
     length dir + card P \<le> 1000000"

lemma myfilename_inj: "np_clean phase alive dir P \<Longrightarrow> inj_on (myfilename phase) P"
  by (rule inj_onI) (metis np_clean_def of_nat_eq_iff option.inject scan_myfilename)

lemma myfilename_new: "np_clean phase alive dir P \<Longrightarrow> p \<in> P \<Longrightarrow> myfilename phase p \<notin> set dir"
  by (metis np_clean_def option.distinct(1) scan_myfilename)

lemma np_count_inv:
  assumes "np_clean phase alive dir P" "np_inv phase alive dir P st" "p \<in> dom (np_stages st)"
  shows "np_count phase alive (np_dir st) = Inr (card (dom (np_stages st)))"
proof -
  let ?D = "dom (np_stages st)" and ?live = "\<lambda>name. case scan_worker phase name of Some xpid \<Rightarrow> alive xpid | None \<Rightarrow> False"
  have d: "distinct (np_dir st)" "?D \<subseteq> P" "set (np_dir st) = set dir \<union> myfilename phase ` ?D" using assms(2) by (simp_all add: np_inv_def)
  have fin: "finite P" "finite ?D" using assms(1) d(2) finite_subset by (auto simp: np_clean_def)
  have inj: "inj_on (myfilename phase) ?D" using inj_on_subset [OF myfilename_inj [OF assms(1)] d(2)] .
  have "length (np_dir st) = card (set dir \<union> myfilename phase ` ?D)" using distinct_card [OF d(1)] d(3) by simp
  also have "\<dots> \<le> card (set dir) + card (myfilename phase ` ?D)" by (rule card_Un_le)
  also have "\<dots> \<le> length dir + card P" using card_length [of dir] card_image [OF inj] card_mono [OF fin(1) d(2)] by simp
  finally have len: "length (np_dir st) \<le> 1000000" using assms(1) by (simp add: np_clean_def)
  have live: "{name \<in> set (np_dir st). ?live name} = myfilename phase ` ?D"
    using assms(1) d(2,3) by (fastforce simp: np_clean_def)
  have "length (filter ?live (np_dir st)) = card (set (filter ?live (np_dir st)))" using d(1) by (simp only: distinct_card distinct_filter)
  also have "\<dots> = card ?D" by (simp only: set_filter live card_image [OF inj])
  finally have "length (filter ?live (np_dir st)) = card ?D" .
  moreover have "np_dir st \<noteq> []" using assms(3) d(3) by auto
  ultimately show ?thesis using len by (simp add: np_count_def Readdirnames_def)
qed

lemma np_exec_inv:
  assumes "np_clean phase alive dir P" "np_inv phase alive dir P st" "np_pid s \<in> P" "np_exec phase alive s st = Some r"
  shows "\<exists>st'. r = Inr st' \<and> np_inv phase alive dir P st'"
proof -
  note inv = assms(2) [unfolded np_inv_def] and inj = myfilename_inj [OF assms(1)]
  show ?thesis
  proof (cases s)
    case (Write p)
    then have s: "np_stages st p = None" "r = Inr \<lparr>np_dir = np_write phase p (np_dir st), np_stages = (np_stages st)(p \<mapsto> Written)\<rparr>"
      using assms(4) by (auto simp: np_exec_def split: option.splits)
    then show ?thesis using inv assms(3) Write by (auto simp: np_inv_def np_write_def Let_def)
  next
    case (Count p)
    then have s: "np_stages st p = Some Written" using assms(4) by (auto simp: np_exec_def split: option.splits np_stage.splits)
    then have D: "p \<in> dom (np_stages st)" by blast
    then have "insert p (dom (np_stages st)) = dom (np_stages st)" by blast
    then show ?thesis using assms(4) Count s np_count_inv [OF assms(1,2) D] inv by (auto simp: np_exec_def np_inv_def)
  next
    case (Remove p)
    then obtain n where n: "np_stages st p = Some (Sleeping n)" using assms(4) by (auto simp: np_exec_def split: option.splits np_stage.splits)
    then have D: "p \<in> dom (np_stages st)" by blast
    have "np_remove phase p (np_dir st) = Inr (remove1 (myfilename phase p) (np_dir st))" using inv D by (auto simp: np_remove_def)
    then have r: "r = Inr \<lparr>np_dir = remove1 (myfilename phase p) (np_dir st), np_stages = (np_stages st)(p := None)\<rparr>"
      using assms(4) Remove n by (simp add: np_exec_def)
    have "myfilename phase ` (dom (np_stages st) - {p}) = myfilename phase ` dom (np_stages st) - {myfilename phase p}"
      using inj_on_image_set_diff [OF inj, of "dom (np_stages st)" "{p}"] inv D by auto
    then have "np_inv phase alive dir P \<lparr>np_dir = remove1 (myfilename phase p) (np_dir st), np_stages = (np_stages st)(p := None)\<rparr>"
      using inv myfilename_new [OF assms(1), of p] D by (auto simp: np_inv_def)
    then show ?thesis using r by blast
  qed
qed

lemma np_run_inv:
  assumes "np_run phase alive st0 ss r" "np_clean phase alive dir P" "np_pid ` set ss \<subseteq> P" "np_inv phase alive dir P st0"
  shows "\<exists>st. r = Inr st \<and> np_inv phase alive dir P st"
  using assms
proof (induction rule: np_run.induct)
  case (np_run_snoc st ss st' s r)
  then have "np_inv phase alive dir P st'" by auto
  then show ?case using np_exec_inv [OF np_run_snoc(4) _ _ np_run_snoc(2)] np_run_snoc(5) by simp
qed blast

section \<open>Counting invocations\<close>

text \<open>
  \<^verbatim>\<open>jobcount\<close>: each process numbers its invocations of \<^verbatim>\<open>Map\<close>.  A sequence of invocations, by the process that runs each, leaves the
  directory with one more file for every one of them, which \<^verbatim>\<open>Reduce\<close> then counts.
\<close>

definition jobcount_invoke :: "nat \<Rightarrow> (nat \<Rightarrow> nat) \<times> string set \<Rightarrow> (nat \<Rightarrow> nat) \<times> string set" where
  "jobcount_invoke pid = (\<lambda>(counts, names).
     case jobcount_Map pid True (counts pid, names) of (_, cnt, names) \<Rightarrow> (counts(pid := cnt), names))"

lemma digits_split:
  assumes "\<forall>c \<in> set xs. dec_digit c" "\<forall>c \<in> set xs'. dec_digit c" "xs @ CHR ''-'' # ys = xs' @ CHR ''-'' # ys'"
  shows "xs = xs' \<and> ys = ys'"
proof -
  have tw: "takeWhile dec_digit (zs @ CHR ''-'' # ws) = zs" if "\<forall>c \<in> set zs. dec_digit c" for zs ws
    using that by (simp add: takeWhile_append dec_digit_def)
  have "xs = xs'" using tw [OF assms(1), of ys] tw [OF assms(2), of ys'] assms(3) by simp
  then show ?thesis using assms(3) by simp
qed

lemma jobcount_file_inj: "jobcount_file p n = jobcount_file p' n' \<longleftrightarrow> p = p' \<and> n = n'"
proof
  assume "jobcount_file p n = jobcount_file p' n'"
  then have "itoa p @ CHR ''-'' # itoa n = itoa p' @ CHR ''-'' # itoa n'" by (simp add: jobcount_file_def)
  then have "itoa p = itoa p' \<and> itoa n = itoa n'" using digits_split itoa_digits by blast
  then show "p = p' \<and> n = n'" by (metis atoi_itoa)
qed simp

lemma jobcount_invocations:
  assumes "fold jobcount_invoke pids (\<lambda>_. 0, names) = (counts, names')"
  shows "counts = count_list pids \<and> names' = names \<union> {jobcount_file p n | p n. n < count_list pids p}"
  using assms
proof (induction pids arbitrary: counts names' rule: rev_induct)
  case (snoc pid pids)
  obtain c ns where f: "fold jobcount_invoke pids (\<lambda>_. 0, names) = (c, ns)" by (cases "fold jobcount_invoke pids (\<lambda>_. 0, names)")
  note IH = snoc.IH [OF f]
  have "counts = c(pid := Suc (c pid)) \<and> names' = insert (jobcount_file pid (c pid)) ns"
    using snoc.prems by (simp add: f) (simp add: jobcount_invoke_def jobcount_Map_def Let_def)
  moreover have "count_list (pids @ [pid]) = (count_list pids)(pid := Suc (count_list pids pid))" by (simp add: fun_eq_iff)
  moreover have "{jobcount_file p n | p n. n < count_list (pids @ [pid]) p} =
      insert (jobcount_file pid (count_list pids pid)) {jobcount_file p n | p n. n < count_list pids p}"
    by (auto simp: less_Suc_eq split: if_splits)
  ultimately show ?case using IH by auto
qed (simp add: fun_eq_iff)

lemma card_invocations: "card {jobcount_file p n | p n. n < count_list pids p} = length pids"
proof -
  let ?A = "SIGMA p : set pids. {..<count_list pids p}"
  have "{jobcount_file p n | p n. n < count_list pids p} = (\<lambda>(p, n). jobcount_file p n) ` ?A"
  proof (intro equalityI subsetI)
    fix x assume "x \<in> {jobcount_file p n | p n. n < count_list pids p}"
    then obtain p n where x: "x = jobcount_file p n" "n < count_list pids p" by blast
    then have "p \<in> set pids" by (metis count_notin not_less0)
    then show "x \<in> (\<lambda>(p, n). jobcount_file p n) ` ?A" using x by force
  qed auto
  moreover have "inj_on (\<lambda>(p, n). jobcount_file p n) ?A" by (auto simp: inj_on_def jobcount_file_inj)
  ultimately have "card {jobcount_file p n | p n. n < count_list pids p} = card ?A" by (simp add: card_image)
  also have "\<dots> = length pids" by (simp add: sum_count_set)
  finally show ?thesis .
qed

lemma jobcount_Reduce_counts:
  assumes "fold jobcount_invoke pids (\<lambda>_. 0, names) = (counts, names')" "\<forall>d \<in> names. \<not> HasPrefix d ''mr-worker-jobcount''"
    and "set files = names'" "distinct files"
  shows "jobcount_Reduce (Some files) = Inr (itoa (length pids))"
proof -
  let ?J = "{jobcount_file p n | p n. n < count_list pids p}" and ?P = "\<lambda>f. HasPrefix f ''mr-worker-jobcount''"
  have "\<forall>d \<in> ?J. ?P d" by (auto simp: jobcount_file_def HasPrefix_def)
  then have "set (filter ?P files) = ?J" using jobcount_invocations [OF assms(1)] assms(2,3) by auto
  then have "length (filter ?P files) = length pids" using distinct_card [of "filter ?P files"] assms(4) card_invocations by simp
  then show ?thesis by (simp add: jobcount_Reduce_def)
qed

end
