(* ===== verification/Mapreduce_Properties.thy ===== *)
theory Mapreduce_Properties
  imports Timing
begin

text \<open>What the sequential MapReduce and the word count application guarantee.\<close>

text \<open>C30.
  For any application whose \<^verbatim>\<open>Map\<close> returns on the input files and whose \<^verbatim>\<open>Reduce\<close> returns on the keys and values emitted, the
  sequential MapReduce ends normally; it calls \<^verbatim>\<open>Reduce\<close> exactly once for each key that \<^verbatim>\<open>Map\<close>
  emitted for some input file, in increasing order of the keys, with all the values emitted for that
  key (in some order, because the sort is not stable), and writes one line for each, if the output file could be created.
\<close>

theorem mrsequential_groups_by_key:
  assumes "sorts_by_key srt" "loadPlugin plugins so = Inr (mapf, reducef)" "has_files fs inputs" "inputs \<noteq> []"
    and "maps_to mapf inputs m"
    and "\<forall>k \<in> Key ` set (emitted m inputs). \<forall>vs. mset vs = mset (map Value (filter (\<lambda>p. Key p = k) (emitted m inputs))) \<longrightarrow>
           reducef k vs = Inr (r k vs)"
  shows "\<exists>vs. mrsequential_main srt creatable plugins fs (prog # so # map fst inputs) =
      Inr (if creatable ''mr-out-0''
           then Some (concat (map (\<lambda>k. out_line k (r k (vs k))) (sorted_list_of_set (Key ` set (emitted m inputs))))) else None) \<and>
    (\<forall>k. mset (vs k) = mset (map Value (filter (\<lambda>p. Key p = k) (emitted m inputs))))"
proof (intro exI conjI allI)
  let ?xs = "emitted m inputs"
  have "mset (srt ?xs) = mset ?xs" using assms(1) by (simp add: sorts_by_key_def)
  from mset_values_of [OF this] show vs: "mset (values_of k (srt ?xs)) = mset (map Value (filter (\<lambda>p. Key p = k) ?xs))" for k
    by (simp add: values_of_def)
  have "reduce_groups reducef (map (\<lambda>k. (k, values_of k (srt ?xs))) (sorted_list_of_set (Key ` set ?xs))) (os_Create creatable ''mr-out-0'') =
      Inr (Fprintf (os_Create creatable ''mr-out-0'') (concat (map (\<lambda>k. out_line k (r k (values_of k (srt ?xs)))) (sorted_list_of_set (Key ` set ?xs)))))"
    by (subst reduce_groups_ok [where r = r]) (use assms(6) vs in \<open>auto simp: o_def\<close>)
  then show "mrsequential_main srt creatable plugins fs (prog # so # map fst inputs) =
      Inr (if creatable ''mr-out-0''
           then Some (concat (map (\<lambda>k. out_line k (r k (values_of k (srt ?xs)))) (sorted_list_of_set (Key ` set ?xs)))) else None)"
    by (simp add: mrsequential_run [OF assms(2,3,5,4)] reduce_sorted [OF assms(1)] os_Create_def)
qed

text \<open>The letters of Latin-1, on which \<^verbatim>\<open>unicode.IsLetter\<close> agrees with this table.\<close>

definition demo_letter :: "rune \<Rightarrow> bool" where
  "demo_letter r \<longleftrightarrow> 65 \<le> r \<and> r \<le> 90 \<or> 97 \<le> r \<and> r \<le> 122 \<or> r \<in> {0xAA, 0xB5, 0xBA} \<or> 0xC0 \<le> r \<and> r \<le> 0xFF \<and> r \<noteq> 0xD7 \<and> r \<noteq> 0xF7"

definition demo_plugins :: "string \<rightharpoonup> (string \<rightharpoonup> symbol)" where
  "demo_plugins = [''wc.so'' \<mapsto> [''Map'' \<mapsto> MapSym (wc_Map demo_letter), ''Reduce'' \<mapsto> ReduceSym wc_Reduce],
     ''half.so'' \<mapsto> [''Map'' \<mapsto> MapSym (wc_Map demo_letter)]]"

text \<open>The last word of the second text ends in an e with an acute accent, which is two bytes of UTF-8.\<close>

definition demo_accent :: string where
  "demo_accent = ''th'' @ [CHR 0xC3, CHR 0xA9]"

definition demo_inputs :: "(string \<times> string) list" where
  "demo_inputs = [(''one.txt'', ''the cat, the dog''), (''two.txt'', ''cat! '' @ demo_accent)]"

lemma demo_loads: "loadPlugin demo_plugins ''wc.so'' = Inr (wc_Map demo_letter, wc_Reduce)"
  by (simp add: loadPlugin_def demo_plugins_def)

definition demo_files :: "string \<rightharpoonup> os_file" where
  "demo_files = map_of (map (\<lambda>(f, s). (f, Readable s)) demo_inputs)"

lemma demo_files_ok: "has_files demo_files demo_inputs" "demo_inputs \<noteq> []"
  by (simp_all add: has_files_def demo_files_def demo_inputs_def)

lemma sort_key_contract: "sorts_by_key (sort_key Key)"
  using sorted_sort_key [of Key] by (auto simp: sorts_by_key_def ByKey_Less_def not_less sorted_map)

lemma demo_words: "concat (map (\<lambda>(f, s). words_of demo_letter s) demo_inputs) = [''the'', ''cat'', ''the'', ''dog'', ''cat'', demo_accent]"
  by code_simp

lemma demo_emitted:
  "emitted (\<lambda>f s. map (\<lambda>w. \<lparr>Key = w, Value = ''1''\<rparr>) (words_of demo_letter s)) demo_inputs =
     map (\<lambda>w. \<lparr>Key = w, Value = ''1''\<rparr>) [''the'', ''cat'', ''the'', ''dog'', ''cat'', demo_accent]"
  unfolding wc_emitted demo_words ..

lemma demo_keys: "sorted_list_of_set {''the'', ''cat'', ''dog'', demo_accent} = [''cat'', ''dog'', ''the'', demo_accent]"
  by code_simp

theorem mrsequential_groups_by_key_witness:
  "\<exists>vs. mrsequential_main (sort_key Key) (\<lambda>_. True) demo_plugins demo_files [''mr'', ''wc.so'', ''one.txt'', ''two.txt''] =
      Inr (Some (out_line ''cat'' (itoa (length (vs ''cat''))) @ out_line ''dog'' (itoa (length (vs ''dog''))) @
        out_line ''the'' (itoa (length (vs ''the''))) @ out_line demo_accent (itoa (length (vs demo_accent))))) \<and> mset (vs ''cat'') = mset [''1'', ''1'']"
proof -
  let ?m = "\<lambda>f s. map (\<lambda>w. \<lparr>Key = w, Value = ''1''\<rparr>) (words_of demo_letter s)"
  have k: "Key ` set (emitted ?m demo_inputs) = {''the'', ''cat'', ''dog'', demo_accent}" unfolding demo_emitted by auto
  have n: "map fst demo_inputs = [''one.txt'', ''two.txt'']" by (simp add: demo_inputs_def)
  have "\<forall>k \<in> Key ` set (emitted ?m demo_inputs). \<forall>vs. mset vs = mset (map Value (filter (\<lambda>p. Key p = k) (emitted ?m demo_inputs))) \<longrightarrow>
      wc_Reduce k vs = Inr ((\<lambda>k vs. itoa (length vs)) k vs)" by (simp add: wc_Reduce_def)
  from mrsequential_groups_by_key [OF sort_key_contract demo_loads demo_files_ok wc_maps this, of "\<lambda>_. True" "''mr''", unfolded k n demo_keys]
  obtain vs where vs: "mrsequential_main (sort_key Key) (\<lambda>_. True) demo_plugins demo_files [''mr'', ''wc.so'', ''one.txt'', ''two.txt''] =
      Inr (Some (concat (map (\<lambda>k. out_line k (itoa (length (vs k)))) [''cat'', ''dog'', ''the'', demo_accent])))"
      "\<forall>k. mset (vs k) = mset (map Value (filter (\<lambda>p. Key p = k) (emitted ?m demo_inputs)))" by auto
  have "map Value (filter (\<lambda>p. Key p = ''cat'') (emitted ?m demo_inputs)) = [''1'', ''1'']" unfolding demo_emitted by (simp add: demo_accent_def)
  then have "mset (vs ''cat'') = mset [''1'', ''1'']" using vs(2) by metis
  then show ?thesis using vs(1) by (intro exI [of _ vs]) simp
qed

text \<open>C31.
  The sequential MapReduce with the word count application, on any input files and for any set of letters, writes
  for each word in increasing order the word and the number of its occurrences in all of them, in decimal.  The words of a text are the
  maximal runs of letters among the code points that \<^verbatim>\<open>range\<close> decodes from its bytes as UTF-8, with the bytes they had; which code points are letters is
  what \<^verbatim>\<open>unicode.IsLetter\<close> says.
\<close>

theorem wc_counts_words:
  assumes "sorts_by_key srt" "loadPlugin plugins so = Inr (wc_Map isLetter, wc_Reduce)" "has_files fs inputs" "inputs \<noteq> []"
    and "creatable ''mr-out-0''"
  shows "mrsequential_main srt creatable plugins fs (prog # so # map fst inputs) =
    Inr (Some (let ws = concat (map (\<lambda>(f, s). words_of isLetter s) inputs) in
         concat (map (\<lambda>w. w @ '' '' @ itoa (count_list ws w) @ newline) (sorted_list_of_set (set ws)))))"
  unfolding mrsequential_run [OF assms(2,3) wc_maps assms(4)] wc_emitted wc_output [OF assms(1)]
  by (simp add: assms(5) os_Create_def out_line_def Let_def)

theorem wc_counts_words_witness:
  "mrsequential_main (sort_key Key) (\<lambda>_. True) demo_plugins demo_files [''mr'', ''wc.so'', ''one.txt'', ''two.txt''] =
     Inr (Some (''cat 2'' @ newline @ ''dog 1'' @ newline @ ''the 2'' @ newline @ ''th'' @ [CHR 0xC3, CHR 0xA9] @ '' 1'' @ newline))"
proof -
  have n: "map fst demo_inputs = [''one.txt'', ''two.txt'']" by (simp add: demo_inputs_def)
  have "(let ws = [''the'', ''cat'', ''the'', ''dog'', ''cat'', demo_accent] in
      concat (map (\<lambda>w. w @ '' '' @ itoa (count_list ws w) @ newline) (sorted_list_of_set (set ws)))) =
      ''cat 2'' @ newline @ ''dog 1'' @ newline @ ''the 2'' @ newline @ ''th'' @ [CHR 0xC3, CHR 0xA9] @ '' 1'' @ newline" by code_simp
  then show ?thesis
    using wc_counts_words [OF sort_key_contract demo_loads demo_files_ok, of "\<lambda>_. True" "''mr''", unfolded n demo_words] by simp
qed

text \<open>C32.
  The sequential MapReduce ends normally exactly if it is given a plugin and at least one file; the plugin can be
  opened and has a function \<^verbatim>\<open>Map\<close> and a function \<^verbatim>\<open>Reduce\<close> of the right types; every file can be opened and read, and \<^verbatim>\<open>Map\<close> returns on it;
  and \<^verbatim>\<open>Reduce\<close> returns on every key emitted, with its values in the order of the sort.  Otherwise the program ends with an error or a panic.
  Whether the output file could be created makes no difference to that: if not, the program ends normally without any output.
\<close>

theorem mrsequential_succeeds_iff:
  assumes "sorts_by_key srt"
  shows "((\<exists>out. mrsequential_main srt creatable plugins fs args = Inr out) \<longleftrightarrow>
     3 \<le> length args \<and> (\<exists>p m r. plugins (args ! 1) = Some p \<and> p ''Map'' = Some (MapSym m) \<and> p ''Reduce'' = Some (ReduceSym r) \<and>
       (\<forall>f \<in> set (drop 2 args). \<exists>s kva. fs f = Some (Readable s) \<and> m f s = Inr kva) \<and>
       (let xs = concat (map (file_pairs fs m) (drop 2 args)) in
        \<forall>k \<in> Key ` set xs. \<exists>output. r k (map Value (filter (\<lambda>p. Key p = k) (srt xs))) = Inr output))) \<and>
   (\<forall>out. mrsequential_main srt creatable plugins fs args = Inr out \<longrightarrow> (out = None \<longleftrightarrow> \<not> creatable ''mr-out-0''))"
proof (intro conjI allI impI)
  have groups: "(\<exists>out. reduce_groups r (map (\<lambda>k. (k, values_of k (srt xs))) (sorted_list_of_set (Key ` set xs))) ofile = Inr out) \<longleftrightarrow>
      (\<forall>k \<in> Key ` set xs. \<exists>output. r k (map Value (filter (\<lambda>p. Key p = k) (srt xs))) = Inr output)" for r xs ofile
    unfolding reduce_groups_iff by (simp add: values_of_def)
  show "(\<exists>out. mrsequential_main srt creatable plugins fs args = Inr out) \<longleftrightarrow>
     3 \<le> length args \<and> (\<exists>p m r. plugins (args ! 1) = Some p \<and> p ''Map'' = Some (MapSym m) \<and> p ''Reduce'' = Some (ReduceSym r) \<and>
       (\<forall>f \<in> set (drop 2 args). \<exists>s kva. fs f = Some (Readable s) \<and> m f s = Inr kva) \<and>
       (let xs = concat (map (file_pairs fs m) (drop 2 args)) in
        \<forall>k \<in> Key ` set xs. \<exists>output. r k (map Value (filter (\<lambda>p. Key p = k) (srt xs))) = Inr output))"
    unfolding mrsequential_result [OF assms] loadPlugin_iff Let_def groups [symmetric, of _ _ "os_Create creatable ''mr-out-0''"] by blast
  fix out assume "mrsequential_main srt creatable plugins fs args = Inr out"
  then obtain r gs where "reduce_groups r gs (os_Create creatable ''mr-out-0'') = Inr out" unfolding mrsequential_result [OF assms] Let_def by blast
  from reduce_groups_created [OF this] show "out = None \<longleftrightarrow> \<not> creatable ''mr-out-0''" by (simp add: os_Create_def)
qed

text \<open>A run in a directory that cannot be written to; and a plugin without \<^verbatim>\<open>Reduce\<close>.\<close>

theorem mrsequential_succeeds_iff_witness:
  "mrsequential_main (sort_key Key) (\<lambda>_. False) demo_plugins demo_files [''mr'', ''wc.so'', ''one.txt''] = Inr None \<and>
   \<not> (\<exists>out. mrsequential_main (sort_key Key) (\<lambda>_. True) demo_plugins demo_files [''mr'', ''half.so'', ''one.txt''] = Inr out)"
proof
  note iff = mrsequential_succeeds_iff [OF sort_key_contract, of _ demo_plugins demo_files]
  have f: "demo_files ''one.txt'' = Some (Readable ''the cat, the dog'')" by (simp add: demo_files_def demo_inputs_def)
  have "\<exists>out. mrsequential_main (sort_key Key) (\<lambda>_. False) demo_plugins demo_files [''mr'', ''wc.so'', ''one.txt''] = Inr out"
    using iff [THEN conjunct1, of "\<lambda>_. False" "[''mr'', ''wc.so'', ''one.txt'']"]
    by (simp add: demo_plugins_def f wc_Map_def wc_Reduce_def Let_def)
  then show "mrsequential_main (sort_key Key) (\<lambda>_. False) demo_plugins demo_files [''mr'', ''wc.so'', ''one.txt''] = Inr None"
    using iff [THEN conjunct2, of "\<lambda>_. False" "[''mr'', ''wc.so'', ''one.txt'']"] by auto
  show "\<not> (\<exists>out. mrsequential_main (sort_key Key) (\<lambda>_. True) demo_plugins demo_files [''mr'', ''half.so'', ''one.txt''] = Inr out)"
    using iff [THEN conjunct1, of "\<lambda>_. True" "[''mr'', ''half.so'', ''one.txt'']"] by (simp add: demo_plugins_def)
qed

text \<open>
  \<^verbatim>\<open>ihash\<close> is never negative, so that the number of a reduce task computed from it is in range.
\<close>

theorem ihash_picks_a_bucket:
  assumes "0 < nReduce"
  shows "0 \<le> ihash key \<and> ihash key < 2 ^ 31 \<and> 0 \<le> go_rem (ihash key) nReduce \<and> go_rem (ihash key) nReduce < nReduce"
  using ihash_bounds [of key] assms by simp

theorem ihash_picks_a_bucket_witness:
  "ihash ''a'' = 1678518572 \<and> 0 \<le> go_rem (ihash ''a'') 10 \<and> go_rem (ihash ''a'') 10 < 10"
proof -
  have "ihash ''a'' = 1678518572" by code_simp
  moreover have "(0 :: int) < 10" by simp
  ultimately show ?thesis using ihash_picks_a_bucket [of 10 "''a''"] by blast
qed

section \<open>Workers in parallel\<close>

text \<open>C33. Live workers run \<^verbatim>\<open>nparallel\<close> in any interleaving of their accesses to the directory, in which no file of the phase was left over.  Then none of
  them panics; the directory always holds the other files and one file for each worker inside, so that in the end it is as it was; and a worker
  that counts gets the number of workers inside at that time, itself included.\<close>

theorem nparallel_counts_workers:
  assumes "distinct dir" "\<forall>d \<in> set dir. scan_worker phase d = None" "\<forall>s \<in> set ss. alive (int (np_pid s)) \<and> np_pid s < 2 ^ 63"
    and "length dir + card (np_pid ` set ss) \<le> 1000000" "np_run phase alive \<lparr>np_dir = dir, np_stages = Map.empty\<rparr> ss r"
  shows "\<exists>st. r = Inr st \<and> distinct (np_dir st) \<and> set (np_dir st) = set dir \<union> myfilename phase ` dom (np_stages st) \<and>
    (\<forall>p. np_stages st p = Some Written \<longrightarrow>
       np_exec phase alive (Count p) st = Some (Inr (st\<lparr>np_stages := (np_stages st)(p \<mapsto> Sleeping (card (dom (np_stages st))))\<rparr>)))"
proof -
  let ?P = "np_pid ` set ss"
  have clean: "np_clean phase alive dir ?P" using assms(1-4) by (simp add: np_clean_def)
  have "np_inv phase alive dir ?P \<lparr>np_dir = dir, np_stages = Map.empty\<rparr>" using assms(1) by (simp add: np_inv_def)
  from np_run_inv [OF assms(5) clean subset_refl this] obtain st where st: "r = Inr st" "np_inv phase alive dir ?P st" by blast
  have "np_exec phase alive (Count p) st = Some (Inr (st\<lparr>np_stages := (np_stages st)(p \<mapsto> Sleeping (card (dom (np_stages st))))\<rparr>))"
    if "np_stages st p = Some Written" for p
  proof -
    have "p \<in> dom (np_stages st)" using that by blast
    from np_count_inv [OF clean st(2) this] show ?thesis using that by (simp add: np_exec_def)
  qed
  then show ?thesis using st by (auto simp: np_inv_def)
qed

theorem nparallel_counts_workers_witness:
  "\<exists>st. np_run ''map'' (\<lambda>_. True) \<lparr>np_dir = [''mr-out-0''], np_stages = Map.empty\<rparr> [Write 7, Write 12] (Inr st) \<and>
     np_exec ''map'' (\<lambda>_. True) (Count 12) st = Some (Inr (st\<lparr>np_stages := (np_stages st)(12 \<mapsto> Sleeping 2)\<rparr>))"
proof -
  let ?al = "\<lambda>_ :: int. True" and ?s0 = "\<lparr>np_dir = [''mr-out-0''], np_stages = Map.empty\<rparr>"
  let ?s1 = "\<lparr>np_dir = np_write ''map'' 7 [''mr-out-0''], np_stages = [7 \<mapsto> Written]\<rparr>"
  let ?s2 = "\<lparr>np_dir = np_write ''map'' 12 (np_write ''map'' 7 [''mr-out-0'']), np_stages = [7 \<mapsto> Written, 12 \<mapsto> Written]\<rparr>"
  have "np_exec ''map'' ?al (Write 7) ?s0 = Some (Inr ?s1)" "np_exec ''map'' ?al (Write 12) ?s1 = Some (Inr ?s2)" by (simp_all add: np_exec_def)
  from np_run_snoc [OF np_run_snoc [OF np_run_Nil this(1)] this(2)]
  have run: "np_run ''map'' ?al ?s0 [Write 7, Write 12] (Inr ?s2)" by simp
  have h: "distinct [''mr-out-0'']" "\<forall>d \<in> set [''mr-out-0'']. scan_worker ''map'' d = None"
    "\<forall>s \<in> set [Write 7, Write 12]. ?al (int (np_pid s)) \<and> np_pid s < 2 ^ 63" "length [''mr-out-0''] + card (np_pid ` set [Write 7, Write 12]) \<le> 1000000"
    by (simp_all add: scan_worker_def worker_prefix_def HasPrefix_def)
  have "card (dom (np_stages ?s2)) = 2" by simp
  moreover have "np_stages ?s2 12 = Some Written" by simp
  ultimately have "np_exec ''map'' ?al (Count 12) ?s2 = Some (Inr (?s2\<lparr>np_stages := (np_stages ?s2)(12 \<mapsto> Sleeping 2)\<rparr>))"
    using nparallel_counts_workers [OF h run] by (metis sum.inject(2))
  then show ?thesis using run by blast
qed

end
