(* ===== verification/Main_Programs.thy ===== *)
theory Main_Programs
  imports Go_Prelude
begin

text \<open>
  The command line programs under \<^verbatim>\<open>main\<close> for the services of earlier laboratories: \<^verbatim>\<open>diskvd\<close>, \<^verbatim>\<open>lockc\<close>, \<^verbatim>\<open>lockd\<close>, \<^verbatim>\<open>pbc\<close>,
  \<^verbatim>\<open>pbd\<close>, \<^verbatim>\<open>viewd\<close>.  The packages they call are not in the repository and are
  arguments; the result is the state that the calls lead to, with what is printed, or \<open>Inl\<close> when it prints its usage and exits.  \<open>args\<close> is \<^verbatim>\<open>os.Args\<close>, with the name of the
  program first.
\<close>

section \<open>Conversions\<close>

text \<open>
  \<^verbatim>\<open>strconv.ParseUint\<close> to the base 10: \<open>None\<close> is a syntax error; a number that does not fit stops the scan at the digit
  where this is seen, with the largest value.
\<close>

fun parse_uint :: "string \<Rightarrow> nat \<Rightarrow> nat option" where
  "parse_uint [] n = Some n"
| "parse_uint (c # cs) n =
     (if \<not> (48 \<le> (of_char c :: nat) \<and> (of_char c :: nat) \<le> 57) then None
      else if n \<ge> (2 ^ 64 - 1) div 10 + 1 then Some (2 ^ 64 - 1)
      else let n1 = n * 10 + (of_char c - 48) in
        if n1 > 2 ^ 64 - 1 then Some (2 ^ 64 - 1) else parse_uint cs n1)"

definition ParseUint :: "string \<Rightarrow> nat option" where
  "ParseUint s = (if s = [] then None else parse_uint s 0)"

text \<open>The first result of \<^verbatim>\<open>strconv.ParseInt(s, 10, 64)\<close>; \<^verbatim>\<open>strconv.Atoi\<close> has the same.\<close>

definition ParseInt :: "string \<Rightarrow> int" where
  "ParseInt s =
     (let neg = (s \<noteq> [] \<and> hd s = CHR ''-'');
          s = (if s \<noteq> [] \<and> (hd s = CHR ''-'' \<or> hd s = CHR ''+'') then tl s else s) in
      case ParseUint s of
        None \<Rightarrow> 0
      | Some un \<Rightarrow>
          if \<not> neg \<and> un \<ge> 2 ^ 63 then 2 ^ 63 - 1
          else if neg \<and> un > 2 ^ 63 then - (2 ^ 63)
          else if neg then - int un else int un)"

text \<open>The first result of \<^verbatim>\<open>strconv.ParseBool\<close>.\<close>

definition ParseBool :: "string \<Rightarrow> bool" where
  "ParseBool s \<longleftrightarrow> s \<in> {''1'', ''t'', ''T'', ''true'', ''TRUE'', ''True''}"

section \<open>diskvd\<close>

record diskvd_options =
  dv_gid :: int
  dv_masters :: "string list"
  dv_replicas :: "string list"
  dv_me :: int
  dv_unreliable :: bool
  dv_dir :: string
  dv_restart :: bool

definition diskvd_defaults :: diskvd_options where
  "diskvd_defaults =
     \<lparr>dv_gid = -1, dv_masters = [], dv_replicas = [], dv_me = -1, dv_unreliable = False, dv_dir = [], dv_restart = False\<rparr>"

definition diskvd_usage :: "'a result" where
  "diskvd_usage = Inl (Fatal ''Usage: diskvd -g gid -m master... -s server... -i my-index -d dir'')"

text \<open>The body of the loop over the arguments, which come in pairs.\<close>

definition diskvd_flag :: "string \<Rightarrow> string \<Rightarrow> diskvd_options \<Rightarrow> diskvd_options result" where
  "diskvd_flag a0 a1 st =
     (if a0 = ''-g'' then Inr (st\<lparr>dv_gid := ParseInt a1\<rparr>)
      else if a0 = ''-m'' then Inr (st\<lparr>dv_masters := dv_masters st @ [a1]\<rparr>)
      else if a0 = ''-s'' then Inr (st\<lparr>dv_replicas := dv_replicas st @ [a1]\<rparr>)
      else if a0 = ''-i'' then Inr (st\<lparr>dv_me := ParseInt a1\<rparr>)
      else if a0 = ''-u'' then Inr (st\<lparr>dv_unreliable := ParseBool a1\<rparr>)
      else if a0 = ''-d'' then Inr (st\<lparr>dv_dir := a1\<rparr>)
      else if a0 = ''-r'' then Inr (st\<lparr>dv_restart := ParseBool a1\<rparr>)
      else diskvd_usage)"

fun diskvd_scan :: "string list \<Rightarrow> diskvd_options \<Rightarrow> diskvd_options result" where
  "diskvd_scan (a0 # a1 # rest) st = bindE (diskvd_flag a0 a1 st) (diskvd_scan rest)"
| "diskvd_scan [a0] st = Inr st"
| "diskvd_scan [] st = Inr st"

definition diskvd_parse :: "string list \<Rightarrow> diskvd_options result" where
  "diskvd_parse args =
     bindE (diskvd_scan (drop 1 args) diskvd_defaults) (\<lambda>st.
     if dv_gid st < 0 \<or> dv_me st < 0 \<or> length (dv_masters st) < 1 \<or> dv_me st \<ge> int (length (dv_replicas st)) \<or> dv_dir st = []
     then diskvd_usage else Inr st)"

text \<open>
  The packages that the programs call are not in the repository.  Each is a record of the functions that are called, over a state \<open>'w\<close>
  of the world; the results below are the states in which the programs go to sleep, \<^verbatim>\<open>diskvd\<close> for ten minutes, until it kills itself.
\<close>

record ('s, 'w) diskv =
  diskv_StartServer :: "int \<Rightarrow> string list \<Rightarrow> string list \<Rightarrow> int \<Rightarrow> string \<Rightarrow> bool \<Rightarrow> 'w \<Rightarrow> 's \<times> 'w"
  diskv_Setunreliable :: "'s \<Rightarrow> bool \<Rightarrow> 'w \<Rightarrow> 'w"

definition diskvd_main :: "('s, 'w) diskv \<Rightarrow> string list \<Rightarrow> 'w \<Rightarrow> 'w result" where
  "diskvd_main pkg args w =
     bindE (diskvd_parse args) (\<lambda>st.
     let (srv, w) = diskv_StartServer pkg (dv_gid st) (dv_masters st) (dv_replicas st) (dv_me st) (dv_dir st) (dv_restart st) w in
     Inr (diskv_Setunreliable pkg srv (dv_unreliable st) w))"

section \<open>The lock service\<close>

record ('ck, 'w) lockservice =
  lock_MakeClerk :: "string \<Rightarrow> string \<Rightarrow> 'ck"
  lock_Lock :: "'ck \<Rightarrow> string \<Rightarrow> 'w \<Rightarrow> bool \<times> 'w"
  lock_Unlock :: "'ck \<Rightarrow> string \<Rightarrow> 'w \<Rightarrow> bool \<times> 'w"
  lock_StartServer :: "string \<Rightarrow> string \<Rightarrow> bool \<Rightarrow> 'w \<Rightarrow> 'w"

definition lockc_usage :: "'a result" where
  "lockc_usage = Inl (Fatal ''Usage: lockc -l|-u primaryport backupport lockname'')"

text \<open>What is printed, and the state afterwards.\<close>

definition lockc_main :: "('ck, 'w) lockservice \<Rightarrow> string list \<Rightarrow> 'w \<Rightarrow> (string \<times> 'w) result" where
  "lockc_main pkg args w =
     (if length args = 5 then
        (let ck = lock_MakeClerk pkg (args ! 2) (args ! 3) in
         bindE (if args ! 1 = ''-l'' then Inr (lock_Lock pkg ck (args ! 4) w)
                else if args ! 1 = ''-u'' then Inr (lock_Unlock pkg ck (args ! 4) w)
                else lockc_usage) (\<lambda>(ok, w).
         Inr (''reply: '' @ (if ok then ''true'' else ''false'') @ [CHR 0x0A], w)))
      else lockc_usage)"

definition lockd_main :: "('ck, 'w) lockservice \<Rightarrow> string list \<Rightarrow> 'w \<Rightarrow> 'w result" where
  "lockd_main pkg args w =
     (if length args = 4 \<and> args ! 1 = ''-p'' then Inr (lock_StartServer pkg (args ! 2) (args ! 3) True w)
      else if length args = 4 \<and> args ! 1 = ''-b'' then Inr (lock_StartServer pkg (args ! 2) (args ! 3) False w)
      else Inl (Fatal ''Usage: lockd -p|-b primaryport backupport''))"

section \<open>The primary/backup service\<close>

record ('ck, 'w) pbservice =
  pb_MakeClerk :: "string \<Rightarrow> string \<Rightarrow> 'ck"
  pb_Get :: "'ck \<Rightarrow> string \<Rightarrow> 'w \<Rightarrow> string \<times> 'w"
  pb_Put :: "'ck \<Rightarrow> string \<Rightarrow> string \<Rightarrow> 'w \<Rightarrow> 'w"
  pb_StartServer :: "string \<Rightarrow> string \<Rightarrow> 'w \<Rightarrow> 'w"

definition pbc_usage :: "'a result" where
  "pbc_usage = Inl (Fatal (''Usage: pbc viewport key'' @ [CHR 0x0A] @ ''       pbc viewport key value''))"

definition pbc_main :: "('ck, 'w) pbservice \<Rightarrow> string list \<Rightarrow> 'w \<Rightarrow> (string \<times> 'w) result" where
  "pbc_main pkg args w =
     (if length args = 3 then
        (let ck = pb_MakeClerk pkg (args ! 1) []; (v, w) = pb_Get pkg ck (args ! 2) w in Inr (v @ [CHR 0x0A], w))
      else if length args = 4 then
        (let ck = pb_MakeClerk pkg (args ! 1) [] in Inr ([], pb_Put pkg ck (args ! 2) (args ! 3) w))
      else pbc_usage)"

definition pbd_main :: "('ck, 'w) pbservice \<Rightarrow> string list \<Rightarrow> 'w \<Rightarrow> 'w result" where
  "pbd_main pkg args w =
     (if length args \<noteq> 3 then Inl (Fatal ''Usage: pbd viewport myport'') else Inr (pb_StartServer pkg (args ! 1) (args ! 2) w))"

text \<open>\<open>start\<close> is \<^verbatim>\<open>viewservice.StartServer\<close>.\<close>

definition viewd_main :: "(string \<Rightarrow> 'w \<Rightarrow> 'w) \<Rightarrow> string list \<Rightarrow> 'w \<Rightarrow> 'w result" where
  "viewd_main start args w = (if length args \<noteq> 2 then Inl (Fatal ''Usage: viewd port'') else Inr (start (args ! 1) w))"

section \<open>Facts\<close>

abbreviation is_digit :: "char \<Rightarrow> bool" where
  "is_digit c \<equiv> 48 \<le> (of_char c :: nat) \<and> (of_char c :: nat) \<le> 57"

lemma parse_uint_append:
  assumes "parse_uint cs n = Some m" "m < 2 ^ 64 - 1"
  shows "parse_uint (cs @ ds) n = parse_uint ds m"
  using assms by (induction cs arbitrary: n) (auto simp: Let_def split: if_splits)

lemma of_char_digit: "d < 10 \<Longrightarrow> (of_char (char_of (48 + d) :: char) :: nat) = 48 + d"
  by simp

lemma parse_itoa: "n < 2 ^ 63 \<Longrightarrow> parse_uint (itoa n) 0 = Some n"
proof (induction n rule: itoa.induct)
  case (1 n)
  show ?case
  proof (cases "n < 10")
    case True
    then show ?thesis by (simp add: itoa.simps [of n] of_char_digit)
  next
    case False
    then have "parse_uint (itoa (n div 10)) 0 = Some (n div 10)" using 1 by simp
    then have "parse_uint (itoa n) 0 = parse_uint [char_of (48 + n mod 10)] (n div 10)"
      using parse_uint_append False 1(2) by (simp add: itoa.simps [of n])
    moreover have "n mod 10 \<le> 9" "\<not> 1844674407370955162 \<le> n div 10" using 1(2) by simp_all
    ultimately show ?thesis using 1(2) by (simp add: of_char_digit Let_def)
  qed
qed

lemma itoa_head: "itoa n \<noteq> [] \<and> is_digit (hd (itoa n))"
proof (induction n rule: itoa.induct)
  case (1 n)
  then show ?case by (cases "n < 10") (simp_all add: itoa.simps [of n] of_char_digit)
qed

text \<open>\<^verbatim>\<open>ParseInt\<close> and \<^verbatim>\<open>Atoi\<close> read back what \<^verbatim>\<open>Itoa\<close> writes.\<close>

lemma ParseInt_itoa: "n < 2 ^ 63 \<Longrightarrow> ParseInt (itoa n) = int n"
  using parse_itoa [of n] itoa_head [of n] by (auto simp: ParseInt_def ParseUint_def Let_def)

text \<open>
  What a list of pairs of arguments sets: an option that can be repeated collects its values, for the others the last one
  counts.  An argument without partner at the end is ignored.
\<close>

fun flag_pairs :: "string list \<Rightarrow> (string \<times> string) list" where
  "flag_pairs (a0 # a1 # rest) = (a0, a1) # flag_pairs rest"
| "flag_pairs [a0] = []"
| "flag_pairs [] = []"

definition given :: "string \<Rightarrow> (string \<times> string) list \<Rightarrow> string list" where
  "given f ps = map snd (filter (\<lambda>p. fst p = f) ps)"

definition latest :: "(string \<Rightarrow> 'a) \<Rightarrow> 'a \<Rightarrow> string list \<Rightarrow> 'a" where
  "latest f d vs = last (d # map f vs)"

definition diskvd_flags :: "string set" where
  "diskvd_flags = {''-g'', ''-m'', ''-s'', ''-i'', ''-u'', ''-d'', ''-r''}"

definition diskvd_given :: "(string \<times> string) list \<Rightarrow> diskvd_options \<Rightarrow> diskvd_options" where
  "diskvd_given ps st =
     \<lparr>dv_gid = latest ParseInt (dv_gid st) (given ''-g'' ps), dv_masters = dv_masters st @ given ''-m'' ps,
      dv_replicas = dv_replicas st @ given ''-s'' ps, dv_me = latest ParseInt (dv_me st) (given ''-i'' ps),
      dv_unreliable = latest ParseBool (dv_unreliable st) (given ''-u'' ps), dv_dir = latest id (dv_dir st) (given ''-d'' ps),
      dv_restart = latest ParseBool (dv_restart st) (given ''-r'' ps)\<rparr>"

lemma diskvd_given_Nil: "diskvd_given [] st = st"
  by (simp add: diskvd_given_def given_def latest_def)

lemma diskvd_flag_given:
  "diskvd_flag a0 a1 st = (if a0 \<in> diskvd_flags then Inr (diskvd_given [(a0, a1)] st) else diskvd_usage)"
  by (auto simp: diskvd_flag_def diskvd_flags_def diskvd_given_def given_def latest_def)

lemma diskvd_given_Cons: "diskvd_given ps (diskvd_given [p] st) = diskvd_given (p # ps) st"
  by (simp add: diskvd_given_def given_def latest_def)

lemma diskvd_scan_eq:
  "diskvd_scan args st =
     (if fst ` set (flag_pairs args) \<subseteq> diskvd_flags then Inr (diskvd_given (flag_pairs args) st) else diskvd_usage)"
proof (induction args arbitrary: st rule: flag_pairs.induct)
  case (1 a0 a1 rest)
  have "diskvd_given (flag_pairs rest) (diskvd_given [(a0, a1)] st) = diskvd_given ((a0, a1) # flag_pairs rest) st"
    by (rule diskvd_given_Cons)
  then show ?case using 1 by (simp add: diskvd_flag_given) (simp add: diskvd_usage_def)
qed (simp_all add: diskvd_given_Nil)

text \<open>
  \<^verbatim>\<open>diskvd\<close> starts a server exactly if all flags are known and there are a group, an index of a replica, a master and a
  directory; otherwise it prints its usage.
\<close>

lemma diskvd_parse_iff:
  "diskvd_parse args = Inr st \<longleftrightarrow>
     fst ` set (flag_pairs (drop 1 args)) \<subseteq> diskvd_flags \<and> st = diskvd_given (flag_pairs (drop 1 args)) diskvd_defaults \<and>
     0 \<le> dv_gid st \<and> 0 \<le> dv_me st \<and> dv_me st < int (length (dv_replicas st)) \<and> dv_masters st \<noteq> [] \<and> dv_dir st \<noteq> []"
  by (auto simp: diskvd_parse_def diskvd_scan_eq diskvd_usage_def Suc_le_eq not_less split: if_splits)

end
