(* ===== verification/Spec2Isabelle.thy ===== *)
theory Spec2Isabelle
  imports Porcupine_Properties Labrpc_Properties Raft_Properties Cluster_Properties Mapreduce_Properties Main_Programs
begin

text \<open>
  A verification library for the Go code of the repository, the MIT 6.824 laboratory under
  \<^verbatim>\<open>src/content/posts/6.824/lab/lab_1_mapreduce/6.824/src\<close> (paths below are relative to it).  The rest of
  the repository is the text of a web site.

  \<^bold>\<open>The program.\<close>  The laboratory has a simulated network (\<^verbatim>\<open>labrpc\<close>, over the encoder \<^verbatim>\<open>labgob\<close>),
  outlines of replicated services (\<^verbatim>\<open>raft\<close>, \<^verbatim>\<open>kvraft\<close>, \<^verbatim>\<open>shardctrler\<close>, \<^verbatim>\<open>shardkv\<close>) with the test
  configurations that build, cut, crash and watch them, a linearizability checker (\<^verbatim>\<open>porcupine\<close>) with
  its model of a key/value store (\<^verbatim>\<open>models\<close>), which the tests of the services use to judge histories, and a
  MapReduce (\<^verbatim>\<open>mr\<close>, \<^verbatim>\<open>mrapps\<close>, \<^verbatim>\<open>main\<close>).  Bodies that the outlines leave to be written are modelled as they
  are: they do nothing or return constants.

  \<^bold>\<open>Conventions\<close> (\<open>Go_Prelude\<close>).  A panic, \<^verbatim>\<open>log.Fatalf\<close>, \<^verbatim>\<open>t.Fatalf\<close> and \<^verbatim>\<open>os.Exit\<close> are values \<open>Inl\<close> of a
  \<open>result\<close>; a slice access out of range is one of them.  A loop that may not end is a partial function
  into \<open>option\<close>, and that it ends is proved as such.  Objects shared by pointer live in explicit stores.
  What code obtains from outside (random numbers, the clock, answers of system calls, the order in which Go
  ranges over a map) is an argument.  Libraries outside of the repository are parameters with their
  documented contract as hypothesis: \<^verbatim>\<open>sort.Sort\<close> and \<^verbatim>\<open>fmt\<close> (\<open>runtime_ok\<close>, \<open>sorts_by_key\<close>),
  \<^verbatim>\<open>encoding/gob\<close> (a \<open>codec\<close> that decodes into an existing variable, of which no round trip is assumed), the table of
  \<^verbatim>\<open>unicode.IsLetter\<close> (any set of code points).

  \<^bold>\<open>porcupine.\<close>  \<open>Bitset\<close> is \<^verbatim>\<open>bitset.go\<close> over 64-bit words, with the interface \<open>id_set\<close>.
  \<open>Porcupine_Model\<close> has the histories and models of \<^verbatim>\<open>model.go\<close> and the entries of \<^verbatim>\<open>checker.go\<close>;
  \<open>Linked_Entries\<close> the doubly linked list of nodes with \<^verbatim>\<open>lift\<close> and \<^verbatim>\<open>unlift\<close>; \<open>Checker\<close> the loop of
  \<^verbatim>\<open>checkSingle\<close>; \<open>Parallel\<close> the goroutines, channel and timer of \<^verbatim>\<open>checkParallel\<close> as explicit interleavings;
  \<open>Porcupine_API\<close> the functions of \<^verbatim>\<open>porcupine.go\<close>; \<open>Kv_Model\<close> is \<^verbatim>\<open>models/kv.go\<close>; \<open>Visualization\<close> is
  \<^verbatim>\<open>visualization.go\<close>, where the page is an argument.  \<open>Linearizability\<close> is the specification, \<open>Search\<close> an abstract search that
  decides it, \<open>Checker_Correct\<close> the simulation between the two, \<open>Parallel_Correct\<close> the invariant of all
  interleavings.  The result: the checker returns, and its answer is whether the history is linearizable.
  \<open>Demo\<close> has concrete histories, \<open>Porcupine_Properties\<close> the statements.

  \<^bold>\<open>labrpc and labgob.\<close>  \<open>Labrpc\<close> has services, servers and the network of \<^verbatim>\<open>labrpc.go\<close>; a call in flight is a
  state machine (\<open>call_step\<close>) whose steps are the atomic stretches of \<^verbatim>\<open>processReq\<close>, and \<open>call_trace\<close>
  interleaves them with anything else.  The interface \<open>switchboard\<close> is what the configurations use.
  \<open>Labgob\<close> has the checks of \<^verbatim>\<open>labgob.go\<close>; \<^verbatim>\<open>checkType\<close> has fuel, and more than the number of types not yet
  checked is enough.  \<open>Labrpc_Properties\<close>: a handler runs at most once, a positive reply comes from a live
  server, over a reliable network a call is a local call up to what gob transfers, every call can be answered.  \<open>Labrpc_Network\<close> runs the methods of a network and any number of
  calls in any interleaving; its statistics count what has happened.

  \<^bold>\<open>What tests share.\<close>  \<open>Tester_Support\<close> has the helpers that every test configuration repeats: random names (\<^verbatim>\<open>randstring\<close>, over base64) and
  seeds, the time limit, debug output.  Names of 20 characters are equal exactly if the first fifteen random bytes drawn for them are, and
  \<open>Cluster_Correct\<close> concludes when a configuration with random names can be made.

  \<^bold>\<open>raft.\<close>  \<open>Raft\<close> has \<^verbatim>\<open>persister.go\<close> (interface \<open>stable_storage\<close>) and the outline \<^verbatim>\<open>raft.go\<close>, \<open>Raft_Config\<close> the
  test configuration \<^verbatim>\<open>config.go\<close>.  What \<^verbatim>\<open>GetState\<close> and \<^verbatim>\<open>Start\<close> of a peer answer is arbitrary there, so that the
  results hold for any peer.  \<open>Raft_Config_Correct\<close>: the invariant of the ends and connections under every
  sequence of operations, and what crash and restart keep; \<open>Raft_Agreement\<close>: what the appliers, \<^verbatim>\<open>one\<close>,
  \<^verbatim>\<open>wait\<close> and \<^verbatim>\<open>checkOneLeader\<close> establish; \<open>Raft_Properties\<close> has the statements.

  \<^bold>\<open>The replicated services.\<close>  \<open>Cluster\<close> has \<^verbatim>\<open>kvraft\<close>: clerk, server and test configuration, the configuration for any type of
  server (\<open>server_ops\<close>), because \<^verbatim>\<open>shardctrler/config.go\<close> repeats its text; \<open>Shardctrler_Config\<close> has that file at
  its own type of server and clerk.  \<open>Shards\<close> has the shard controller and the
  clerk and server of \<^verbatim>\<open>shardkv\<close>: a clerk's loop is \<open>retry\<close> over arbitrary answers of the network, with the states in which its rounds
  start given by the relation \<open>attempts\<close>.  \<open>Shardkv_Config\<close> is \<^verbatim>\<open>shardkv/config.go\<close>.  \<open>Cluster_Correct\<close>: a new configuration is
  completely connected, partitions separate exactly the two sides whatever was connected before, \<^verbatim>\<open>make_partition\<close> puts the leader into the minority, the shuffle of handles is a
  permutation.  \<open>Shards_Correct\<close>: the interface \<open>asking\<close> of loops over servers, and when clerks return.  \<open>Shardkv_Config_Correct\<close>:
  for which sizes the configuration can be made.  \<open>Cluster_Service\<close> puts configuration, network and clerk together: which servers and services a new
  configuration has registered, which requests they answer, and what a clerk's call through its ends does.  \<open>Cluster_Restart\<close> has the interface \<open>server_type\<close> of the two types of
  server, interpreted on both, and what shutting down and starting again keeps.  \<open>Cluster_Durability\<close> interleaves a call in flight with the stretches of
  shutdowns, restarts and saves: why \<^verbatim>\<open>labrpc\<close> looks at the server again before it replies, and why the configuration deletes a server before it replaces
  its persister.  \<open>Cluster_Properties\<close> has the statements.

  \<^bold>\<open>MapReduce.\<close>  \<open>Mapreduce\<close> has \<^verbatim>\<open>mr\<close>, \<^verbatim>\<open>main/mrsequential.go\<close>, \<^verbatim>\<open>main/mrworker.go\<close>,
  \<^verbatim>\<open>main/mrcoordinator.go\<close> and the applications, with the loop over a string that decodes UTF-8; \<open>Mapreduce_Correct\<close> the grouping by key, words as maximal runs of letters, and the interface
  \<open>reducer\<close> of applications that do not depend on the order of values; \<open>Timing\<close> the two applications that count the workers that run in parallel, with any
  interleaving of their accesses to the directory, and what \<^verbatim>\<open>jobcount\<close> counts; \<open>Mapreduce_Properties\<close> the statements.

  \<^bold>\<open>Old programs.\<close>  \<open>Main_Programs\<close> has the programs of earlier laboratories in \<^verbatim>\<open>main\<close>; the packages they call are not in the
  repository and are arguments.  Numbers that are printed are parsed back, and \<^verbatim>\<open>diskvd\<close> starts a server exactly for complete options.

  \<^bold>\<open>Not modelled.\<close>  The HTML page with its scripts, which \<^verbatim>\<open>visualization.go\<close> has as a string constant; the texts that are printed, where they are
  not the result of a function; real time (delays occur only as points at which other steps may come in between, time limits
  as the number of rounds or nanoseconds that are given); the locks of the configurations, whose operations are atomic here; and what the outlines leave
  open, since there is no code.
\<close>

text \<open>C1.
  Take the inputs and outputs of a non-empty key/value history in which every operation returns
  after it is called and no call coincides with a return.  \<^verbatim>\<open>CheckOperations\<close> with the key/value model
  returns, and under every interleaving of its goroutines the only value it can return is \<open>true\<close> if
  the history is linearizable for a store of all keys and \<open>false\<close> otherwise: it never panics.
\<close>

theorem CheckOperations_kv_correct:
  assumes "runtime_ok rt" "kv_typed ops" "wf_operations ops" "no_ties ops" "ops \<noteq> []"
  shows "(\<exists>sched. CheckOperations rt KvModel ops sched = Some r) \<longleftrightarrow> r = Inr (op_linearizable KvStore ops)"
proof -
  obtain parts where parts: "kv_Partition ops = Inr parts" using kv_Partition_groups [OF assms(2)] by blast
  then have ne: "parts \<noteq> []" using kv_Partition_groups [OF assms(2)] assms(5) by auto
  note ok = kv_parts_ok [OF assms(2,3,4) parts]
  have p: "call_Partition (fillDefault (rt_fmt rt) KvModel) ops = Inr parts"
    using parts by (simp add: call_Partition_def)
  have only: "r = Inr (op_linearizable KvStore ops)" if c: "CheckOperations rt KvModel ops sched = Some r" for r sched
  proof -
    obtain r' where r': "checkOperations rt KvModel ops False 0 sched = Some r'"
      using c by (auto simp: CheckOperations_def)
    from checkOperations_answers [OF assms(1) p ok(1) r'] obtain res info where
      res: "r' = Inr (res, info)"
        "answer_ok (fillDefault (rt_fmt rt) KvModel) (map (makeEntries (rt_sort rt)) parts) 0 res"
      by blast
    have "res = Ok \<longleftrightarrow> (\<forall>p \<in> set parts. op_linearizable KvModel p)"
      using op_answers [OF assms(1) ok(1) res(2)] kv_model_equal_sound ok(2) by (cases res) auto
    then show ?thesis using c r' res(1) kv_partition_sound [OF assms(2,3) parts] by (simp add: CheckOperations_def)
  qed
  obtain sched res info where "checkOperations rt KvModel ops False 0 sched = Some (Inr (res, info))"
    using checkOperations_finishes [OF assms(1) p ok(1)] ne by blast
  then have "\<exists>r. CheckOperations rt KvModel ops sched = Some r" by (simp add: CheckOperations_def)
  then show ?thesis using only by blast
qed

theorem CheckOperations_kv_correct_witness:
  "op_linearizable KvStore demo_ops \<and> \<not> op_linearizable KvStore stale_ops"
proof -
  have "CheckOperations demo_rt KvModel demo_ops demo_sched = Some (Inr True)" by code_simp
  moreover have "CheckOperations demo_rt KvModel stale_ops (replicate 6 (Work 0) @ [Receive, Finish]) = Some (Inr False)"
    by code_simp
  ultimately show ?thesis
    using CheckOperations_kv_correct [OF demo_runtime demo_ops_ok, of "Inr True"]
      CheckOperations_kv_correct [OF demo_runtime stale_ops_ok, of "Inr False"] by blast
qed

end
